(* ===== verification/Prelude.thy ===== *)
theory Prelude
  imports Main "HOL-Library.Char_ord" "HOL-Library.List_Lexorder"
begin

text \<open>
  Shared vocabulary of the development: the collections that the component theories extend,
  byte strings as Go's \<open>strings\<close> package treats them (\<open>TrimSpace\<close>, \<open>ToLower\<close>, \<open>Split\<close>,
  \<open>HasPrefix\<close>), and generic facts on lists and options.  A Go string is a list of bytes, so
  \<open>length\<close> is Go's \<open>len\<close> and the order is the bytewise order Go compares strings with.
\<close>

named_theorems reads \<open>handlers that leave the state of the server alone\<close>

section \<open>Errors as values\<close>

type_synonym ('e, 'a) result = "'e + 'a"

abbreviation Ok :: "'a \<Rightarrow> ('e, 'a) result" where
  "Ok \<equiv> Inr"

abbreviation Fail :: "'e \<Rightarrow> ('e, 'a) result" where
  "Fail \<equiv> Inl"

text \<open>A Go \<open>error\<close> result alone: \<open>None\<close> is \<open>nil\<close>.\<close>

type_synonym 'e err = "'e option"

section \<open>Loops that stop at the first error\<close>

text \<open>
  \<open>for i, x := range xs { if err := f(x); err != nil { return wrap(i, err) } }\<close>: the index and
  the error of the first element that fails.
\<close>

fun first_error_from :: "nat \<Rightarrow> ('a \<Rightarrow> 'e err) \<Rightarrow> 'a list \<Rightarrow> (nat \<times> 'e) err" where
  "first_error_from i f [] = None"
| "first_error_from i f (x # xs) =
     (case f x of Some e \<Rightarrow> Some (i, e) | None \<Rightarrow> first_error_from (Suc i) f xs)"

abbreviation first_error :: "('a \<Rightarrow> 'e err) \<Rightarrow> 'a list \<Rightarrow> (nat \<times> 'e) err" where
  "first_error \<equiv> first_error_from 0"

lemma first_error_from_None:
  "first_error_from i f xs = None \<longleftrightarrow> (\<forall>x\<in>set xs. f x = None)"
  by (induction i f xs rule: first_error_from.induct) (auto split: option.splits)

lemma first_error_from_Some:
  "first_error_from i f xs = Some (j, e) \<longleftrightarrow>
     i \<le> j \<and> j < i + length xs \<and> f (xs ! (j - i)) = Some e \<and> (\<forall>k < j - i. f (xs ! k) = None)"
proof (induction i f xs rule: first_error_from.induct)
  case (1 i f)
  then show ?case by simp
next
  case (2 i f x xs)
  show ?case
  proof (cases "f x")
    case None
    have "(Suc i \<le> j \<and> j < Suc i + length xs \<and> f (xs ! (j - Suc i)) = Some e
        \<and> (\<forall>k < j - Suc i. f (xs ! k) = None)) \<longleftrightarrow>
      (i \<le> j \<and> j < i + length (x # xs) \<and> f ((x # xs) ! (j - i)) = Some e
        \<and> (\<forall>k < j - i. f ((x # xs) ! k) = None))" (is "?L \<longleftrightarrow> ?R")
    proof (cases "Suc i \<le> j")
      case True
      then have "j - i = Suc (j - Suc i)" by simp
      then show ?thesis using True None
        by (auto simp: less_Suc_eq_0_disj nth_Cons split: nat.splits)
    next
      case False
      then show ?thesis using None by (cases "i = j") auto
    qed
    with None 2 show ?thesis by simp
  next
    case (Some e')
    then show ?thesis by (cases "j - i") (force simp: nth_Cons)+
  qed
qed

lemma first_error_upt:
  "first_error f [0..<n] = None \<longleftrightarrow> (\<forall>i<n. f i = None)"
  "first_error f [0..<n] = Some (j, e) \<longleftrightarrow> j < n \<and> f j = Some e \<and> (\<forall>i<j. f i = None)"
  by (auto simp: first_error_from_None first_error_from_Some)

section \<open>Byte strings\<close>

fun drop_prefix :: "string \<Rightarrow> string \<Rightarrow> string option" where
  "drop_prefix [] s = Some s"
| "drop_prefix (c # p) [] = None"
| "drop_prefix (c # p) (d # s) = (if c = d then drop_prefix p s else None)"

lemma drop_prefix_Some: "drop_prefix p s = Some t \<longleftrightarrow> s = p @ t"
  by (induction p s rule: drop_prefix.induct) auto

fun first_drop :: "string list \<Rightarrow> string \<Rightarrow> string option" where
  "first_drop [] s = None"
| "first_drop (p # ps) s =
     (case drop_prefix p s of Some t \<Rightarrow> Some t | None \<Rightarrow> first_drop ps s)"

lemma first_drop_Some: "first_drop ps s = Some t \<Longrightarrow> \<exists>p\<in>set ps. s = p @ t"
  by (induction ps) (auto simp: drop_prefix_Some split: option.splits)

lemma drop_prefix_None: "drop_prefix p s = None \<longleftrightarrow> (\<forall>t. s \<noteq> p @ t)"
  by (induction p s rule: drop_prefix.induct) auto

lemma first_drop_None: "first_drop ps s = None \<longleftrightarrow> (\<forall>p\<in>set ps. \<forall>t. s \<noteq> p @ t)"
proof (induction ps)
  case (Cons p ps)
  then show ?case
    using drop_prefix_None [of p s] by (cases "drop_prefix p s") auto
qed simp

text \<open>
  \<open>unicode.IsSpace\<close> as UTF-8: the six ASCII spaces, then U+0085, U+00A0, U+1680, U+2000 to
  U+200A, U+2028, U+2029, U+202F, U+205F and U+3000.
\<close>

definition space_seqs :: "string list" where
  "space_seqs =
     [[CHR 0x09], [CHR 0x0A], [CHR 0x0B], [CHR 0x0C], [CHR 0x0D], [CHR 0x20],
      [CHR 0xC2, CHR 0x85], [CHR 0xC2, CHR 0xA0], [CHR 0xE1, CHR 0x9A, CHR 0x80]]
     @ map (\<lambda>b. [CHR 0xE2, CHR 0x80, b])
         [CHR 0x80, CHR 0x81, CHR 0x82, CHR 0x83, CHR 0x84, CHR 0x85, CHR 0x86, CHR 0x87,
          CHR 0x88, CHR 0x89, CHR 0x8A, CHR 0xA8, CHR 0xA9, CHR 0xAF]
     @ [[CHR 0xE2, CHR 0x81, CHR 0x9F], [CHR 0xE3, CHR 0x80, CHR 0x80]]"

fun trim_while :: "string list \<Rightarrow> string \<Rightarrow> string" where
  "trim_while ps s =
     (case first_drop ps s of
        None \<Rightarrow> s
      | Some t \<Rightarrow> if length t < length s then trim_while ps t else s)"

declare trim_while.simps [simp del]

definition trim_left :: "string \<Rightarrow> string" where
  "trim_left = trim_while space_seqs"

definition trim_right :: "string \<Rightarrow> string" where
  "trim_right s = rev (trim_while (map rev space_seqs) (rev s))"

definition trim_space :: "string \<Rightarrow> string" where
  "trim_space s = trim_right (trim_left s)"

text \<open>A byte that occurs in no white-space sequence survives trimming.\<close>

definition solid :: "char \<Rightarrow> bool" where
  "solid c \<longleftrightarrow> (\<forall>p\<in>set space_seqs. c \<notin> set p)"

lemma trim_while_keeps:
  "c \<in> set s \<Longrightarrow> \<forall>p\<in>set ps. c \<notin> set p \<Longrightarrow> c \<in> set (trim_while ps s)"
proof (induction ps s rule: trim_while.induct)
  case (1 ps s)
  show ?case
  proof (cases "first_drop ps s")
    case None
    with 1 show ?thesis by (simp add: trim_while.simps)
  next
    case (Some t)
    then obtain p where "p \<in> set ps" "s = p @ t" by (blast dest: first_drop_Some)
    with 1 have "c \<in> set t" by auto
    with 1 Some show ?thesis by (subst trim_while.simps) auto
  qed
qed

lemma solid_trim_space: "c \<in> set s \<Longrightarrow> solid c \<Longrightarrow> c \<in> set (trim_space s)"
  by (auto simp: trim_space_def trim_right_def trim_left_def solid_def intro!: trim_while_keeps)

lemma solid_trim_space_nonempty: "c \<in> set s \<Longrightarrow> solid c \<Longrightarrow> trim_space s \<noteq> []"
  by (metis empty_iff list.set(1) solid_trim_space)

lemma trim_while_suffix: "\<exists>u. s = u @ trim_while ps s"
proof (induction ps s rule: trim_while.induct)
  case (1 ps s)
  show ?case
  proof (cases "first_drop ps s")
    case (Some t)
    then obtain p where "s = p @ t" by (blast dest: first_drop_Some)
    with 1 Some show ?thesis
      by (subst trim_while.simps) (auto, metis append.assoc)
  qed (simp add: trim_while.simps)
qed

lemma set_trim_space: "set (trim_space s) \<subseteq> set s"
proof -
  obtain u v where "s = u @ trim_left s"
    and "rev (trim_left s) = v @ trim_while (map rev space_seqs) (rev (trim_left s))"
    using trim_while_suffix unfolding trim_left_def by metis
  then have "set (trim_space s) \<subseteq> set (trim_left s)" and "set (trim_left s) \<subseteq> set s"
    unfolding trim_space_def trim_right_def by (metis set_append set_rev sup.cobounded2)+
  then show ?thesis by blast
qed

lemma trim_space_Nil [simp]: "trim_space [] = []"
  using set_trim_space [of "[]"] by simp

text \<open>A string that is trimmed to nothing is made of white-space sequences.\<close>

lemma trim_while_eats: "\<exists>ws. set ws \<subseteq> set ps \<and> s = concat ws @ trim_while ps s"
proof (induction ps s rule: trim_while.induct)
  case (1 ps s)
  show ?case
  proof (cases "\<exists>t. first_drop ps s = Some t \<and> length t < length s")
    case True
    then obtain t where t: "first_drop ps s = Some t" "length t < length s" by blast
    then obtain p where p: "p \<in> set ps" "s = p @ t" by (blast dest: first_drop_Some)
    obtain ws where "set ws \<subseteq> set ps" "t = concat ws @ trim_while ps t" using 1 [OF t] by blast
    then have "set (p # ws) \<subseteq> set ps \<and> s = concat (p # ws) @ trim_while ps s"
      using p t by (subst trim_while.simps) simp
    then show ?thesis by blast
  next
    case False
    then have "trim_while ps s = s" by (subst trim_while.simps) (auto split: option.splits)
    then show ?thesis by (intro exI [of _ "[]"]) simp
  qed
qed

lemma trim_space_blank:
  assumes "trim_space s = []"
  obtains ws where "set ws \<subseteq> set space_seqs" "s = concat ws"
proof -
  obtain us where us: "set us \<subseteq> set space_seqs" "s = concat us @ trim_left s"
    using trim_while_eats [of space_seqs s] unfolding trim_left_def by blast
  have "trim_while (map rev space_seqs) (rev (trim_left s)) = []"
    using assms by (simp add: trim_space_def trim_right_def)
  then obtain vs where vs: "set vs \<subseteq> rev ` set space_seqs" "rev (trim_left s) = concat vs"
    using trim_while_eats [of "map rev space_seqs" "rev (trim_left s)"] by auto
  have "rev (rev (trim_left s)) = rev (concat vs)" by (simp only: vs(2))
  then have "trim_left s = concat (rev (map rev vs))" by (simp add: rev_concat rev_map)
  moreover have "set (rev (map rev vs)) \<subseteq> set space_seqs" using vs(1) by auto
  ultimately show thesis using that [of "us @ rev (map rev vs)"] us by simp
qed

text \<open>\<open>strings.Split(s, sep)\<close> for a one-byte separator.\<close>

fun split_on :: "char \<Rightarrow> string \<Rightarrow> string list" where
  "split_on c [] = [[]]"
| "split_on c (d # s) =
     (if d = c then [] # split_on c s
      else case split_on c s of [] \<Rightarrow> [[d]] | w # ws \<Rightarrow> (d # w) # ws)"

text \<open>
  \<open>strings.ToLower\<close>: the ASCII letters.  The two runes outside ASCII whose lower case is an ASCII
  letter (U+0130 and U+212A, lower case \<open>i\<close> and \<open>k\<close>) are written out, in their UTF-8 form; every
  other rune outside ASCII is left alone, because no string the source compares a lowered string
  with has a byte above 127.
\<close>

definition lower_char :: "char \<Rightarrow> char" where
  "lower_char c =
     (if CHR ''A'' \<le> c \<and> c \<le> CHR ''Z'' then char_of ((of_char c :: nat) + 32) else c)"

fun to_lower :: "string \<Rightarrow> string" where
  "to_lower [] = []"
| "to_lower (c # s) =
     (case drop_prefix [CHR 0xC4, CHR 0xB0] (c # s) of
        Some t \<Rightarrow> CHR ''i'' # to_lower (drop 1 s)
      | None \<Rightarrow>
        (case drop_prefix [CHR 0xE2, CHR 0x84, CHR 0xAA] (c # s) of
           Some t \<Rightarrow> CHR ''k'' # to_lower (drop 2 s)
         | None \<Rightarrow> lower_char c # to_lower s))"

section \<open>Sorting by a key\<close>

lemma insort_key_map: "insort_key k (f x) (map f ys) = map f (insort_key (k \<circ> f) x ys)"
  by (induction ys) auto

lemma sort_key_map: "sort_key k (map f xs) = map f (sort_key (k \<circ> f) xs)"
  by (induction xs) (auto simp: insort_key_map comp_def)

lemma map_filter_total:
  "\<forall>x\<in>set xs. g x = Some (f x) \<Longrightarrow> List.map_filter g xs = map f xs"
  by (induction xs) (auto simp: List.map_filter_simps)

lemma distinct_sort_unique: "distinct xs \<Longrightarrow> sort xs = sorted_list_of_set (set xs)"
  by (metis distinct_remdups_id sorted_list_of_set_sort_remdups)

section \<open>Association lists as constant Go maps\<close>

lemma map_of_value: "map_of m k = Some v \<Longrightarrow> v \<in> set (map snd m)"
  by (drule map_of_SomeD) force

section \<open>Iteration over a map\<close>

text \<open>The order of a range loop over a Go map: every key once.\<close>

definition ranges :: "'k list \<Rightarrow> ('k \<rightharpoonup> 'v) \<Rightarrow> bool" where
  "ranges order m \<longleftrightarrow> distinct order \<and> set order = dom m"

definition newline :: char where
  "newline = CHR 0x0A"

end
