(* ===== verification/Go_Float.thy ===== *)
theory Go_Float
  imports Complex_Main Prelude
begin

text \<open>
  Go's \<open>float64\<close>: IEEE 754 binary64 with round to nearest, ties to even, as far as the program uses
  it (sum, product, quotient, comparison, \<open>math.Min\<close>, conversions from and to integers).  A finite
  value is its exact rational value; the sign of a zero is not kept, which the program observes
  nowhere but in the text of a printed \<open>-0\<close>.  The facts proved here are the ones the components
  need: rounding is monotone, exact on representable values and keeps the sign.
\<close>

section \<open>Binary exponents\<close>

fun ilog2 :: "nat \<Rightarrow> nat" where
  "ilog2 n = (if n < 2 then 0 else Suc (ilog2 (n div 2)))"

declare ilog2.simps [simp del]

lemma ilog2_bounds: "0 < n \<Longrightarrow> 2 ^ ilog2 n \<le> n \<and> n < 2 ^ Suc (ilog2 n)"
proof (induction n rule: ilog2.induct)
  case (1 n)
  show ?case
  proof (cases "n < 2")
    case True
    with 1 show ?thesis by (simp add: ilog2.simps)
  next
    case False
    with 1 have "2 ^ ilog2 (n div 2) \<le> n div 2 \<and> n div 2 < 2 ^ Suc (ilog2 (n div 2))" by simp
    with False show ?thesis by (subst (1 2) ilog2.simps) auto
  qed
qed

definition clog2 :: "nat \<Rightarrow> nat" where
  "clog2 n = (if n \<le> 1 then 0 else Suc (ilog2 (n - 1)))"

lemma clog2_bounds: "1 < n \<Longrightarrow> 2 ^ (clog2 n - 1) < n \<and> n \<le> 2 ^ clog2 n"
  using ilog2_bounds [of "n - 1"] by (auto simp: clog2_def)

text \<open>\<open>expo x\<close> is the largest \<open>e\<close> with \<open>2 powi e \<le> x\<close>, for positive \<open>x\<close>.\<close>

definition expo :: "rat \<Rightarrow> int" where
  "expo x = (if 1 \<le> x then int (ilog2 (nat \<lfloor>x\<rfloor>)) else - int (clog2 (nat \<lceil>1 / x\<rceil>)))"

lemma of_nat_le_rat: "a \<le> b \<Longrightarrow> (of_nat a :: rat) \<le> of_nat b"
  by simp

lemma expo_bounds:
  assumes "0 < x"
  shows "2 powi expo x \<le> x \<and> x < 2 powi (expo x + 1)"
proof (cases "1 \<le> x")
  case True
  define n where "n = nat \<lfloor>x\<rfloor>"
  have n: "0 < n" "of_nat n \<le> x" "x < of_nat n + 1"
    using True by (auto simp: n_def) linarith+
  have b: "2 ^ ilog2 n \<le> n" "n + 1 \<le> 2 ^ Suc (ilog2 n)"
    using ilog2_bounds [OF n(1)] by auto
  have "(2::rat) ^ ilog2 n \<le> of_nat n" "of_nat n + 1 \<le> (2::rat) ^ Suc (ilog2 n)"
    using b [THEN of_nat_le_rat] by (simp_all only: of_nat_power of_nat_numeral of_nat_add of_nat_1)
  with n have "(2::rat) ^ ilog2 n \<le> x" "x < (2::rat) ^ Suc (ilog2 n)" by linarith+
  moreover have "expo x = int (ilog2 n)" using True by (simp add: expo_def n_def)
  ultimately show ?thesis by (simp add: power_int_add_1 mult.commute)
next
  case False
  define n where "n = nat \<lceil>1 / x\<rceil>"
  have "1 < 1 / x" using False assms by simp
  then have n: "1 < n" "1 / x \<le> of_nat n" "of_nat n < 1 / x + 1"
    by (auto simp: n_def) linarith+
  obtain k where k: "clog2 n = Suc k" using n(1) by (simp add: clog2_def)
  have b: "2 ^ k + 1 \<le> n" "n \<le> 2 ^ Suc k"
    using clog2_bounds [OF n(1)] k by auto
  from b [THEN of_nat_le_rat] n(2,3) have "1 / x \<le> 2 ^ Suc k" "2 ^ k < 1 / x" by simp_all
  with assms have "1 / 2 ^ Suc k \<le> x" "x < 1 / 2 ^ k" by (simp_all add: field_simps)
  moreover have "expo x = - int (Suc k)" using False k by (simp add: expo_def n_def)
  moreover have "- int (Suc k) + 1 = - int k" by simp
  ultimately show ?thesis
    by (simp only: power_int_minus power_int_of_nat inverse_eq_divide)
qed

lemma expo_mono:
  assumes "0 < x" "x \<le> y"
  shows "expo x \<le> expo y"
proof (rule ccontr)
  assume "\<not> expo x \<le> expo y"
  then have "(2::rat) powi (expo y + 1) \<le> 2 powi expo x" by (intro power_int_increasing) auto
  with expo_bounds [of x] expo_bounds [of y] assms show False by linarith
qed

section \<open>Round to nearest, ties to even\<close>

definition round_even :: "rat \<Rightarrow> int" where
  "round_even x =
     (let f = \<lfloor>x\<rfloor>; d = x - of_int f
      in if d < 1 / 2 then f else if d > 1 / 2 then f + 1 else if even f then f else f + 1)"

lemma round_even_of_int [simp]: "round_even (of_int n) = n"
  by (simp add: round_even_def Let_def)

lemma round_even_near: "of_int (round_even x) - x \<le> 1 / 2" "x - of_int (round_even x) \<le> 1 / 2"
  by (auto simp: round_even_def Let_def) linarith+

lemma round_even_floor_or_Suc: "round_even x = \<lfloor>x\<rfloor> \<or> round_even x = \<lfloor>x\<rfloor> + 1"
  by (auto simp: round_even_def Let_def)

lemma round_even_mono: "x \<le> y \<Longrightarrow> round_even x \<le> round_even y"
proof (cases "\<lfloor>x\<rfloor> = \<lfloor>y\<rfloor>")
  case True
  moreover assume "x \<le> y"
  ultimately show ?thesis by (auto simp: round_even_def Let_def)
next
  case False
  assume "x \<le> y"
  then have "\<lfloor>x\<rfloor> \<le> \<lfloor>y\<rfloor>" by (rule floor_mono)
  with False have "\<lfloor>x\<rfloor> + 1 \<le> \<lfloor>y\<rfloor>" by simp
  with round_even_floor_or_Suc [of x] round_even_floor_or_Suc [of y] show ?thesis by linarith
qed

lemma round_even_le_int: "x \<le> of_int n \<Longrightarrow> round_even x \<le> n"
  using round_even_mono [of x "of_int n"] by simp

lemma round_even_ge_int: "of_int n \<le> x \<Longrightarrow> n \<le> round_even x"
  using round_even_mono [of "of_int n" x] by simp

text \<open>The exponent of the unit in the last place; \<open>-1074\<close> for the subnormal values.\<close>

definition ulp_exp :: "rat \<Rightarrow> int" where
  "ulp_exp x = max (expo x) (- 1022) - 52"

definition rnd_pos :: "rat \<Rightarrow> rat" where
  "rnd_pos x = of_int (round_even (x / 2 powi ulp_exp x)) * 2 powi ulp_exp x"

definition rnd :: "rat \<Rightarrow> rat" where
  "rnd x = (if x = 0 then 0 else if 0 < x then rnd_pos x else - rnd_pos (- x))"

lemma ulp_exp_mono: "0 < x \<Longrightarrow> x \<le> y \<Longrightarrow> ulp_exp x \<le> ulp_exp y"
  using expo_mono [of x y] by (simp add: ulp_exp_def)

lemma powi_split: "(2::rat) powi (a + b) = 2 powi a * 2 powi b"
  by (simp add: power_int_add)

lemma rnd_pos_le_binade: "0 < x \<Longrightarrow> rnd_pos x \<le> 2 powi (ulp_exp x + 53)"
proof -
  assume "0 < x"
  then have "x < 2 powi (expo x + 1)" using expo_bounds by blast
  also have "\<dots> \<le> 2 powi (ulp_exp x + 53)"
    by (intro power_int_increasing) (auto simp: ulp_exp_def)
  finally have "x < 2 powi ulp_exp x * 2 powi 53" by (simp only: powi_split)
  then have "x / 2 powi ulp_exp x \<le> of_int (2 ^ 53)" by (simp add: field_simps)
  then have "round_even (x / 2 powi ulp_exp x) \<le> 2 ^ 53" by (rule round_even_le_int)
  then have "of_int (round_even (x / 2 powi ulp_exp x)) \<le> (of_int (2 ^ 53) :: rat)"
    by (simp only: of_int_le_iff)
  then have "rnd_pos x \<le> of_int (2 ^ 53) * 2 powi ulp_exp x"
    unfolding rnd_pos_def by (intro mult_right_mono) auto
  then show ?thesis by (simp add: powi_split mult.commute)
qed

lemma rnd_pos_ge_binade:
  assumes "0 < x" "- 1022 \<le> expo x"
  shows "2 powi expo x \<le> rnd_pos x"
proof -
  have e: "expo x = ulp_exp x + 52" using assms by (simp add: ulp_exp_def)
  have "2 powi ulp_exp x * 2 powi 52 \<le> x"
    using expo_bounds [OF assms(1)] by (simp only: e powi_split)
  then have "of_int (2 ^ 52) \<le> x / 2 powi ulp_exp x" by (simp add: field_simps)
  then have "2 ^ 52 \<le> round_even (x / 2 powi ulp_exp x)" by (rule round_even_ge_int)
  then have "of_int (2 ^ 52) \<le> (of_int (round_even (x / 2 powi ulp_exp x)) :: rat)"
    by (simp only: of_int_le_iff)
  then have "of_int (2 ^ 52) * 2 powi ulp_exp x \<le> rnd_pos x"
    unfolding rnd_pos_def by (intro mult_right_mono) auto
  then show ?thesis by (simp add: e powi_split mult.commute)
qed

lemma rnd_pos_nonneg: "0 < x \<Longrightarrow> 0 \<le> rnd_pos x"
proof -
  assume "0 < x"
  then have "of_int 0 \<le> x / 2 powi ulp_exp x" by simp
  then have "0 \<le> round_even (x / 2 powi ulp_exp x)" by (rule round_even_ge_int)
  then show ?thesis by (simp add: rnd_pos_def)
qed

lemma rnd_pos_mono:
  assumes "0 < x" "x \<le> y"
  shows "rnd_pos x \<le> rnd_pos y"
proof (cases "ulp_exp x = ulp_exp y")
  case True
  have "x / 2 powi ulp_exp x \<le> y / 2 powi ulp_exp y"
    using assms True by (simp add: divide_right_mono)
  from round_even_mono [OF this] show ?thesis by (simp add: rnd_pos_def True)
next
  case False
  with ulp_exp_mono [OF assms] have *: "ulp_exp x + 53 \<le> expo y" "- 1022 \<le> expo y"
    by (auto simp: ulp_exp_def)
  have "rnd_pos x \<le> 2 powi (ulp_exp x + 53)" using assms by (intro rnd_pos_le_binade)
  also have "\<dots> \<le> 2 powi expo y" using * by (intro power_int_increasing) auto
  also have "\<dots> \<le> rnd_pos y" using assms * by (intro rnd_pos_ge_binade) auto
  finally show ?thesis .
qed

lemma rnd_zero [simp]: "rnd 0 = 0"
  by (simp add: rnd_def)

lemma rnd_minus: "rnd (- x) = - rnd x"
  by (simp add: rnd_def)

lemma rnd_nonneg: "0 \<le> x \<Longrightarrow> 0 \<le> rnd x"
  by (auto simp: rnd_def rnd_pos_nonneg)

lemma rnd_nonpos: "x \<le> 0 \<Longrightarrow> rnd x \<le> 0"
  using rnd_nonneg [of "- x"] by (simp add: rnd_minus)

theorem rnd_mono: "x \<le> y \<Longrightarrow> rnd x \<le> rnd y"
proof -
  assume le: "x \<le> y"
  consider "0 < x" | "x \<le> 0" "0 \<le> y" | "y < 0" using le by linarith
  then show ?thesis
  proof cases
    case 1
    with le show ?thesis by (simp add: rnd_def rnd_pos_mono)
  next
    case 2
    then show ?thesis using rnd_nonpos rnd_nonneg order_trans by blast
  next
    case 3
    with le show ?thesis by (simp add: rnd_def rnd_pos_mono)
  qed
qed

text \<open>A value that is an integral multiple of its unit in the last place rounds to itself.\<close>

lemma rnd_pos_exact:
  assumes "x / 2 powi ulp_exp x = of_int k"
  shows "rnd_pos x = x"
proof -
  have "rnd_pos x = of_int k * 2 powi ulp_exp x" by (simp add: rnd_pos_def assms)
  also have "\<dots> = x" using assms by (simp add: field_simps)
  finally show ?thesis .
qed

lemma expo_le: "0 < x \<Longrightarrow> x < 2 powi k \<Longrightarrow> expo x < k"
proof (rule ccontr)
  assume x: "0 < x" "x < 2 powi k" and "\<not> expo x < k"
  then have "(2::rat) powi k \<le> 2 powi expo x" by (intro power_int_increasing) auto
  with x expo_bounds [of x] show False by linarith
qed

lemma rnd_pos_of_int:
  assumes "0 < n" "n \<le> 2 ^ 53"
  shows "rnd_pos (of_int n) = of_int n"
proof (cases "n = 2 ^ 53")
  case True
  have "ulp_exp (of_int (2 ^ 53)) = 1"
    by (simp add: ulp_exp_def expo_def ilog2.simps)
  then have "(of_int (2 ^ 53) :: rat) / 2 powi ulp_exp (of_int (2 ^ 53)) = of_int (2 ^ 52)"
    by simp
  with True show ?thesis using rnd_pos_exact by blast
next
  case False
  let ?x = "of_int n :: rat"
  have "?x < of_int (2 ^ 53)" using False assms by (simp only: of_int_less_iff)
  then have "expo ?x < 53" using assms by (intro expo_le) auto
  then have "ulp_exp ?x \<le> 0" by (simp add: ulp_exp_def)
  then obtain j where j: "ulp_exp ?x = - int j" by (rule nonpos_int_cases)
  have "?x / 2 powi ulp_exp ?x = of_int (n * 2 ^ j)"
    by (simp add: j power_int_minus divide_inverse)
  then show ?thesis by (rule rnd_pos_exact)
qed

lemma rnd_of_int:
  assumes "\<bar>n\<bar> \<le> 2 ^ 53"
  shows "rnd (of_int n) = of_int n"
proof -
  consider "0 < n" | "n = 0" | "n < 0" by linarith
  then show ?thesis
  proof cases
    case 1
    with assms show ?thesis by (simp add: rnd_def rnd_pos_of_int)
  next
    case 3
    with assms have "rnd_pos (of_int (- n)) = of_int (- n)" by (intro rnd_pos_of_int) auto
    with 3 show ?thesis by (simp add: rnd_def)
  qed simp
qed

lemma rnd_le_of_int: "\<bar>n\<bar> \<le> 2 ^ 53 \<Longrightarrow> x \<le> of_int n \<Longrightarrow> rnd x \<le> of_int n"
  using rnd_mono [of x "of_int n"] by (simp add: rnd_of_int)

lemma rnd_ge_of_int: "\<bar>n\<bar> \<le> 2 ^ 53 \<Longrightarrow> of_int n \<le> x \<Longrightarrow> of_int n \<le> rnd x"
  using rnd_mono [of "of_int n" x] by (simp add: rnd_of_int)

lemma round_even_unique: "\<bar>z - of_int k\<bar> < 1 / 2 \<Longrightarrow> round_even z = k"
  using round_even_near [of z] by linarith

lemma expo_unique: "2 powi e \<le> x \<Longrightarrow> x < 2 powi (e + 1) \<Longrightarrow> expo x = e"
proof -
  assume x: "2 powi e \<le> x" "x < 2 powi (e + 1)"
  then have pos: "0 < x" using less_le_trans [of 0 "2 powi e" x] by simp
  have "expo x < e + 1" using expo_le [OF pos x(2)] .
  moreover have "\<not> expo x < e"
  proof
    assume "expo x < e"
    then have "(2::rat) powi (expo x + 1) \<le> 2 powi e" by (intro power_int_increasing) auto
    with expo_bounds [OF pos] x(1) show False by linarith
  qed
  ultimately show ?thesis by simp
qed

lemma expo_ge: "0 < x \<Longrightarrow> 2 powi e \<le> x \<Longrightarrow> e \<le> expo x"
proof (rule ccontr)
  assume x: "0 < x" "2 powi e \<le> x" and "\<not> e \<le> expo x"
  then have "(2::rat) powi (expo x + 1) \<le> 2 powi e" by (intro power_int_increasing) auto
  with expo_bounds [OF x(1)] x(2) show False by linarith
qed

text \<open>Just below a power of two the spacing is half of that above, and the power is the nearest value.\<close>

lemma rnd_pos_below_power:
  assumes "0 < y" "ulp_exp y < q" and u: "u = 2 powi q"
    and y: "y < 2 ^ 52 * u" "2 ^ 52 * u - u / 4 < y"
  shows "rnd_pos y = 2 ^ 52 * u"
proof -
  have u0: "0 < u" by (simp add: u)
  have "expo y < q + 52" using assms(2) by (auto simp: ulp_exp_def)
  have h: "(2::rat) powi (q - 1) = u / 2" by (simp add: u power_int_diff)
  have "(2::rat) powi (q + 51) = 2 ^ 51 * u" by (simp add: powi_split u mult.commute)
  with y(2) u0 have "2 powi (q + 51) \<le> y" by simp
  then have "q + 51 \<le> expo y" using expo_ge [OF assms(1)] by blast
  then have uy: "ulp_exp y = q - 1" using assms(2) by (auto simp: ulp_exp_def)
  have "y / (u / 2) < 2 ^ 53" using y(1) u0 by (simp add: field_simps)
  moreover have "2 ^ 53 - 1 / 2 < y / (u / 2)" using y(2) u0 by (simp add: field_simps)
  ultimately have "\<bar>y / (u / 2) - of_int (2 ^ 53)\<bar> < 1 / 2" by simp
  from round_even_unique [OF this] have "round_even (y / (u / 2)) = 2 ^ 53" .
  then show ?thesis by (simp add: rnd_pos_def uy h)
qed

text \<open>A value within half a part in ten to the sixteenth of a representable one rounds to it.\<close>

lemma rnd_pos_close:
  assumes x: "0 < x" "rnd_pos x = x" and y: "0 < y" "\<bar>y - x\<bar> \<le> x / (2 * 10 ^ 16)"
  shows "rnd_pos y = x"
proof -
  define q where "q = ulp_exp x"
  define u :: rat where "u = 2 powi q"
  define k where "k = round_even (x / u)"
  have u: "0 < u" by (simp add: u_def)
  have xk: "x = of_int k * u" using x(2) by (simp add: rnd_pos_def k_def u_def q_def)
  have "x < 2 powi (expo x + 1)" using expo_bounds [OF x(1)] by blast
  also have "\<dots> \<le> 2 powi (q + 53)" by (intro power_int_increasing) (auto simp: q_def ulp_exp_def)
  finally have xlt: "x < 2 ^ 53 * u" by (simp add: powi_split u_def mult.commute)
  have d: "\<bar>y - x\<bar> < u / 2" using y(2) xlt u by simp
  have k53: "k < 2 ^ 53" 
  proof -
    have "of_int k * u < of_int (2 ^ 53) * u" using xlt xk by simp
    then show ?thesis using u by (simp only: mult_less_cancel_right_pos of_int_less_iff)
  qed
  consider "ulp_exp y = q" | "q < ulp_exp y" | "ulp_exp y < q" by linarith
  then show ?thesis
  proof cases
    case 1
    have "\<bar>y / u - of_int k\<bar> = \<bar>y - x\<bar> / u" using u by (simp add: xk field_simps abs_divide [symmetric])
    also have "\<dots> < 1 / 2" using d u by (simp add: field_simps)
    finally have "round_even (y / u) = k" by (rule round_even_unique)
    then show ?thesis using 1 xk by (simp add: rnd_pos_def u_def)
  next
    case 2
    then have "q + 53 \<le> expo y" by (auto simp: q_def ulp_exp_def)
    then have "(2::rat) powi (q + 53) \<le> 2 powi expo y" by (intro power_int_increasing) auto
    then have "2 ^ 53 * u \<le> y" using expo_bounds [OF y(1)] by (simp add: powi_split u_def mult.commute)
    moreover have "k \<le> 2 ^ 53 - 1" using k53 by simp
    then have "of_int k \<le> (of_int (2 ^ 53 - 1) :: rat)" by (simp only: of_int_le_iff)
    then have "x \<le> of_int (2 ^ 53 - 1) * u" unfolding xk using u by (intro mult_right_mono) auto
    ultimately have "u \<le> y - x" by (simp add: algebra_simps)
    with d u show ?thesis by linarith
  next
    case 3
    then have e: "expo x = q + 52" "expo y < q + 52" by (auto simp: q_def ulp_exp_def max_def split: if_splits)
    have p52: "(2::rat) powi (q + 52) = 2 ^ 52 * u" by (simp add: powi_split u_def mult.commute)
    have "2 ^ 52 * u \<le> x" using expo_bounds [OF x(1)] e(1) p52 by simp
    have "(2::rat) powi (expo y + 1) \<le> 2 powi (q + 52)" using e(2) by (intro power_int_increasing) auto
    then have yl: "y < 2 ^ 52 * u" using expo_bounds [OF y(1)] p52 by linarith
    have "x < 2 ^ 52 * u + u" using d yl u by linarith
    then have "of_int k * u < (2 ^ 52 + 1) * u" by (simp only: xk distrib_right mult_1)
    then have "rat_of_int k < 2 ^ 52 + 1" using u by (simp only: mult_less_cancel_right_pos)
    then have "k \<le> 2 ^ 52" by simp
    moreover have "of_int (2 ^ 52) * u \<le> of_int k * u" using \<open>2 ^ 52 * u \<le> x\<close> xk by simp
    then have "2 ^ 52 \<le> k" using u by (simp only: mult_le_cancel_right_pos of_int_le_iff)
    ultimately have k: "x = 2 ^ 52 * u" using xk by simp
    have "x - y \<le> x / (2 * 10 ^ 16)" using y(2) by linarith
    then have yg: "2 ^ 52 * u - u / 4 < y" using u unfolding k by simp
    show ?thesis using rnd_pos_below_power [OF y(1) 3 u_def] yl yg k by simp
  qed
qed

lemma rnd_pos_idem:
  assumes "0 < x" "0 < rnd_pos x"
  shows "rnd_pos (rnd_pos x) = rnd_pos x"
proof -
  define q where "q = ulp_exp x"
  define k where "k = round_even (x / 2 powi q)"
  let ?r = "rnd_pos x"
  have r: "?r = of_int k * 2 powi q" by (simp add: rnd_pos_def k_def q_def)
  have q: "- 1022 \<le> q + 52" by (simp add: q_def ulp_exp_def)
  have le: "?r \<le> 2 powi (q + 53)" using rnd_pos_le_binade [OF assms(1)] by (simp add: q_def)
  show ?thesis
  proof (cases "?r = 2 powi (q + 53)")
    case True
    have "expo ?r = q + 53" by (rule expo_unique) (simp_all add: True power_int_add)
    then have "ulp_exp ?r = q + 1" using q by (simp add: ulp_exp_def)
    moreover have "?r / 2 powi (q + 1) = of_int (2 ^ 52)"
      unfolding True by (simp add: power_int_add)
    ultimately show ?thesis using rnd_pos_exact by simp
  next
    case False
    with le have "expo ?r < q + 53" by (intro expo_le [OF assms(2)]) simp
    then have "ulp_exp ?r \<le> q" using q by (simp add: ulp_exp_def)
    then obtain j where j: "q = ulp_exp ?r + int j" by (metis zle_iff_zadd)
    have "(2::rat) powi q = 2 powi ulp_exp ?r * 2 ^ j" by (subst j) (simp add: power_int_add)
    then have "?r / 2 powi ulp_exp ?r = of_int (k * 2 ^ j)" by (subst r) simp
    then show ?thesis by (rule rnd_pos_exact)
  qed
qed

lemma rnd_idem [simp]: "rnd (rnd x) = rnd x"
proof -
  have pos: "rnd (rnd_pos y) = rnd_pos y" if "0 < y" for y
    using rnd_pos_nonneg [OF that] rnd_pos_idem [OF that] by (cases "rnd_pos y = 0") (auto simp: rnd_def)
  show ?thesis
  proof (cases "x < 0")
    case True
    then show ?thesis using pos [of "- x"] by (simp add: rnd_minus rnd_def [of x])
  qed (use pos [of x] in \<open>auto simp: rnd_def [of x]\<close>)
qed

section \<open>The type\<close>

text \<open>\<open>Inf True\<close> is minus infinity.\<close>

datatype f64 = NaN | Inf bool | Fin rat

definition max_exact :: rat where
  "max_exact = 2 ^ 1024"

definition f64_of_rat :: "rat \<Rightarrow> f64" where
  "f64_of_rat x = (let y = rnd x in if max_exact \<le> \<bar>y\<bar> then Inf (y < 0) else Fin y)"

definition f64_of_int :: "int \<Rightarrow> f64" where
  "f64_of_int n = f64_of_rat (of_int n)"

instantiation f64 :: "{plus, minus, uminus, times, inverse, ord, zero, one}"
begin

definition zero_f64 :: f64 where
  "0 = Fin 0"

definition one_f64 :: f64 where
  "1 = Fin 1"

fun uminus_f64 :: "f64 \<Rightarrow> f64" where
  "- NaN = NaN"
| "- Inf b = Inf (\<not> b)"
| "- Fin x = Fin (- x)"

fun plus_f64 :: "f64 \<Rightarrow> f64 \<Rightarrow> f64" where
  "NaN + y = NaN"
| "x + NaN = NaN"
| "Inf a + Inf b = (if a = b then Inf a else NaN)"
| "Inf a + Fin y = Inf a"
| "Fin x + Inf b = Inf b"
| "Fin x + Fin y = f64_of_rat (x + y)"

definition minus_f64 :: "f64 \<Rightarrow> f64 \<Rightarrow> f64" where
  "x - y = x + - (y :: f64)"

fun times_f64 :: "f64 \<Rightarrow> f64 \<Rightarrow> f64" where
  "NaN * y = NaN"
| "x * NaN = NaN"
| "Inf a * Inf b = Inf (a \<noteq> b)"
| "Inf a * Fin y = (if y = 0 then NaN else Inf (a \<noteq> (y < 0)))"
| "Fin x * Inf b = (if x = 0 then NaN else Inf ((x < 0) \<noteq> b))"
| "Fin x * Fin y = f64_of_rat (x * y)"

fun divide_f64 :: "f64 \<Rightarrow> f64 \<Rightarrow> f64" where
  "NaN div y = NaN"
| "x div NaN = NaN"
| "Inf a div Inf b = NaN"
| "Inf a div Fin y = Inf (a \<noteq> (y < 0))"
| "Fin x div Inf b = Fin 0"
| "Fin x div Fin y =
     (if y = 0 then (if x = 0 then NaN else Inf (x < 0)) else f64_of_rat (x / y))"

definition inverse_f64 :: "f64 \<Rightarrow> f64" where
  "inverse x = 1 div (x :: f64)"

text \<open>The comparisons are IEEE's: every one of them is false on a NaN.\<close>

fun less_f64 :: "f64 \<Rightarrow> f64 \<Rightarrow> bool" where
  "NaN < y = False"
| "x < NaN = False"
| "Inf a < Inf b = (a \<and> \<not> b)"
| "Inf a < Fin y = a"
| "Fin x < Inf b = (\<not> b)"
| "Fin x < Fin y = (x < y)"

fun less_eq_f64 :: "f64 \<Rightarrow> f64 \<Rightarrow> bool" where
  "NaN \<le> y = False"
| "x \<le> NaN = False"
| "Inf a \<le> Inf b = (a \<or> \<not> b)"
| "Inf a \<le> Fin y = a"
| "Fin x \<le> Inf b = (\<not> b)"
| "Fin x \<le> Fin y = (x \<le> y)"

instance ..

end

fun is_nan :: "f64 \<Rightarrow> bool" where
  "is_nan NaN = True"
| "is_nan _ = False"

text \<open>\<open>math.IsInf(x, 0)\<close>: an infinity of either sign.\<close>

fun is_inf :: "f64 \<Rightarrow> bool" where
  "is_inf (Inf _) = True"
| "is_inf _ = False"

definition is_finite :: "f64 \<Rightarrow> bool" where
  "is_finite x \<longleftrightarrow> \<not> is_nan x \<and> \<not> is_inf x"

text \<open>\<open>math.Min\<close>: minus infinity wins over NaN, NaN over everything else.\<close>

definition f64_min :: "f64 \<Rightarrow> f64 \<Rightarrow> f64" where
  "f64_min x y =
     (if x = Inf True \<or> y = Inf True then Inf True
      else if is_nan x \<or> is_nan y then NaN
      else if x < y then x else y)"

text \<open>\<open>math.Pow(2, k)\<close> for a natural \<open>k\<close>: exact up to the overflow to infinity.\<close>

definition pow2 :: "nat \<Rightarrow> f64" where
  "pow2 k = f64_of_rat (2 ^ k)"

text \<open>
  The conversion to a 64-bit integer truncates towards zero.  On a value that does not fit the Go
  specification leaves the result to the implementation, so it is an argument here.
\<close>

definition rat_trunc :: "rat \<Rightarrow> int" where
  "rat_trunc x = (if 0 \<le> x then \<lfloor>x\<rfloor> else \<lceil>x\<rceil>)"

fun int64_of_f64 :: "(f64 \<Rightarrow> int) \<Rightarrow> f64 \<Rightarrow> int" where
  "int64_of_f64 oor (Fin x) =
     (let t = rat_trunc x in if - (2 ^ 63) \<le> t \<and> t < 2 ^ 63 then t else oor (Fin x))"
| "int64_of_f64 oor x = oor x"

section \<open>Facts about the operations\<close>

text \<open>The library has these evaluation rules for the reals only.\<close>

lemma floor_rat_numeral [simp]:
  "\<lfloor>numeral a / numeral b :: rat\<rfloor> = numeral a div numeral b"
  "\<lfloor>1 / numeral b :: rat\<rfloor> = 1 div numeral b"
  "\<lfloor>- (numeral a / numeral b) :: rat\<rfloor> = - numeral a div numeral b"
  using floor_divide_of_int_eq [of "numeral a" "numeral b", where ?'a = rat]
    floor_divide_of_int_eq [of 1 "numeral b", where ?'a = rat]
    floor_divide_of_int_eq [of "- numeral a" "numeral b", where ?'a = rat]
  by simp_all

lemma ceiling_rat_numeral [simp]:
  "\<lceil>numeral a / numeral b :: rat\<rceil> = - (- numeral a div numeral b)"
  unfolding ceiling_def by (simp only: floor_rat_numeral)

lemma f64_of_rat_Fin: "\<bar>rnd x\<bar> < max_exact \<Longrightarrow> f64_of_rat x = Fin (rnd x)"
  by (simp add: f64_of_rat_def Let_def)

lemma f64_of_int_exact: "\<bar>n\<bar> \<le> 2 ^ 53 \<Longrightarrow> f64_of_int n = Fin (of_int n)"
proof -
  assume n: "\<bar>n\<bar> \<le> 2 ^ 53"
  then have "\<bar>of_int n :: rat\<bar> \<le> of_int (2 ^ 53)" by (simp only: of_int_le_iff flip: of_int_abs)
  also have "\<dots> < max_exact" by (simp add: max_exact_def)
  finally show ?thesis using n by (simp add: f64_of_int_def f64_of_rat_Fin rnd_of_int)
qed

lemma is_finite_Fin [simp]: "is_finite (Fin x)"
  by (simp add: is_finite_def)

lemma is_finite_iff: "is_finite x \<longleftrightarrow> (\<exists>r. x = Fin r)"
  by (cases x) (simp_all add: is_finite_def)

lemma nan_not_less [simp]: "\<not> x < NaN" "\<not> NaN < x"
  by (cases x, simp_all)

lemma nan_plus [simp]: "x + NaN = NaN" "NaN + x = NaN"
  by (cases x, simp_all)

lemma nan_divide [simp]: "NaN div (x :: f64) = NaN"
  by (cases x) simp_all

lemma f64_less_asym: "(x :: f64) < y \<Longrightarrow> \<not> y < x"
  by (cases x; cases y) auto

lemma f64_less_trans: "(x :: f64) < y \<Longrightarrow> y < z \<Longrightarrow> x < z"
  by (cases x; cases y; cases z) auto

text \<open>
  \<open>Fin x\<close> is a \<open>float64\<close> when \<open>x\<close> is representable.  Every operation returns such a value; what comes
  from outside is one by its type.
\<close>

definition is_f64 :: "f64 \<Rightarrow> bool" where
  "is_f64 f \<longleftrightarrow> (case f of Fin x \<Rightarrow> f64_of_rat x = f | _ \<Rightarrow> True)"

lemma is_f64_of_rat [simp]: "is_f64 (f64_of_rat x)"
  by (simp add: is_f64_def f64_of_rat_def Let_def)

lemma is_f64_Fin: "is_f64 (Fin x) \<longleftrightarrow> rnd x = x \<and> \<bar>x\<bar> < max_exact"
  by (auto simp: is_f64_def f64_of_rat_def Let_def)

lemma is_f64_uminus [simp]: "is_f64 (- x) = is_f64 x"
  by (cases x) (simp_all add: is_f64_Fin rnd_minus, simp_all add: is_f64_def)

lemma is_f64_consts [simp]: "is_f64 NaN" "is_f64 (Inf b)" "is_f64 0" "is_f64 1"
  using rnd_of_int [of 1] by (simp_all add: is_f64_Fin max_exact_def zero_f64_def one_f64_def) (simp_all add: is_f64_def)

lemma is_f64_of_int [simp]: "is_f64 (f64_of_int n)"
  by (simp add: f64_of_int_def)

lemma is_f64_plus: "is_f64 x \<Longrightarrow> is_f64 y \<Longrightarrow> is_f64 (x + y)"
  by (cases x; cases y) simp_all

lemma is_f64_minus: "is_f64 x \<Longrightarrow> is_f64 y \<Longrightarrow> is_f64 (x - y)"
  by (simp add: minus_f64_def is_f64_plus)

lemma is_f64_times: "is_f64 (x * y)"
  by (cases x; cases y) simp_all

lemma is_f64_divide: "is_f64 (x div y)"
  by (cases x; cases y) (simp_all add: is_f64_def f64_of_rat_def Let_def max_exact_def)

lemma rat_trunc_of_int [simp]: "rat_trunc (of_int n) = n"
  by (simp add: rat_trunc_def)

lemma rat_trunc_ge_int: "of_int n \<le> x \<Longrightarrow> n \<le> rat_trunc x"
  by (auto simp: rat_trunc_def le_floor_iff) (metis ceiling_mono ceiling_of_int)

lemma rat_trunc_le_int: "x \<le> of_int n \<Longrightarrow> rat_trunc x \<le> n"
  by (auto simp: rat_trunc_def ceiling_le_iff) (metis floor_mono floor_of_int)

end
