(* ===== verification/Go_Std.thy ===== *)
theory Go_Std
  imports Go_Float
begin

text \<open>
  The parts of Go's standard library the program computes with: \<open>time.Time\<close> and
  \<open>time.Duration\<close> (nanoseconds; the zero time is \<open>0\<close>), \<open>time.ParseDuration\<close>,
  \<open>strconv.Atoi\<close> / \<open>ParseInt\<close> and \<open>Itoa\<close>.
\<close>

section \<open>Times and durations\<close>

type_synonym gotime = int

type_synonym duration = int

definition nanosecond :: duration where "nanosecond = 1"
definition microsecond :: duration where "microsecond = 1000"
definition millisecond :: duration where "millisecond = 1000000"
definition second :: duration where "second = 1000000000"
definition minute :: duration where "minute = 60000000000"
definition hour :: duration where "hour = 3600000000000"

lemmas duration_units =
  nanosecond_def microsecond_def millisecond_def second_def minute_def hour_def

definition zero_time :: gotime where
  "zero_time = 0"

definition max_duration :: duration where
  "max_duration = 2 ^ 63 - 1"

definition min_duration :: duration where
  "min_duration = - (2 ^ 63)"

text \<open>\<open>t.Sub(u)\<close> saturates at the ends of the 64-bit range.\<close>

definition time_sub :: "gotime \<Rightarrow> gotime \<Rightarrow> duration" where
  "time_sub t u = max min_duration (min max_duration (t - u))"

lemma time_sub_range: "min_duration \<le> time_sub t u \<and> time_sub t u \<le> max_duration"
  by (auto simp: time_sub_def min_duration_def max_duration_def)

lemma time_sub_mono: "t \<le> t' \<Longrightarrow> time_sub t u \<le> time_sub t' u"
  by (auto simp: time_sub_def)

lemma time_sub_ge: "d \<le> max_duration \<Longrightarrow> min_duration < d \<Longrightarrow> d \<le> time_sub t u \<longleftrightarrow> d \<le> t - u"
  by (auto simp: time_sub_def)

lemma time_sub_gt: "d < max_duration \<Longrightarrow> min_duration \<le> d \<Longrightarrow> d < time_sub t u \<longleftrightarrow> d < t - u"
  by (auto simp: time_sub_def)

section \<open>Decimal integers\<close>

definition is_digit :: "char \<Rightarrow> bool" where
  "is_digit c \<longleftrightarrow> CHR ''0'' \<le> c \<and> c \<le> CHR ''9''"

definition digit_val :: "char \<Rightarrow> nat" where
  "digit_val c = of_char c - 48"

definition digit_char :: "nat \<Rightarrow> char" where
  "digit_char n = char_of (48 + n)"

fun itoa :: "nat \<Rightarrow> string" where
  "itoa n = (if n < 10 then [digit_char n] else itoa (n div 10) @ [digit_char (n mod 10)])"

declare itoa.simps [simp del]

definition digits_val :: "string \<Rightarrow> nat" where
  "digits_val s = foldl (\<lambda>n c. 10 * n + digit_val c) 0 s"

text \<open>\<open>strconv.ParseInt(s, 10, 64)\<close>, which \<open>strconv.Atoi\<close> agrees with on a 64-bit platform.\<close>

definition parse_int64 :: "string \<Rightarrow> int option" where
  "parse_int64 s =
     (let neg = (case s of c # _ \<Rightarrow> c = CHR ''-'' | [] \<Rightarrow> False);
          ds = (case s of c # t \<Rightarrow> if c = CHR ''-'' \<or> c = CHR ''+'' then t else s | [] \<Rightarrow> [])
      in if ds = [] \<or> \<not> list_all is_digit ds then None
         else let n = int (digits_val ds); v = (if neg then - n else n)
              in if - (2 ^ 63) \<le> v \<and> v < 2 ^ 63 then Some v else None)"

lemma of_char_digit_char: "n < 10 \<Longrightarrow> of_char (digit_char n) = (48 + n :: nat)"
  by (simp add: digit_char_def)

lemma digit_char_digit [simp]: "n < 10 \<Longrightarrow> is_digit (digit_char n) \<and> digit_val (digit_char n) = n"
  by (simp add: is_digit_def digit_val_def of_char_digit_char less_eq_char_def)

lemma itoa_digits: "list_all is_digit (itoa n) \<and> itoa n \<noteq> []"
proof (induction n rule: itoa.induct)
  case (1 n)
  then show ?case by (subst (1 2) itoa.simps) auto
qed

lemma digits_val_snoc: "digits_val (s @ [c]) = 10 * digits_val s + digit_val c"
  by (simp add: digits_val_def)

lemma digits_val_itoa: "digits_val (itoa n) = n"
proof (induction n rule: itoa.induct)
  case (1 n)
  show ?case
  proof (cases "n < 10")
    case True
    then show ?thesis by (simp add: itoa.simps digits_val_def)
  next
    case False
    with 1 show ?thesis by (subst itoa.simps) (simp add: digits_val_snoc)
  qed
qed

lemma digit_not_sign: "is_digit c \<Longrightarrow> c \<noteq> CHR ''-'' \<and> c \<noteq> CHR ''+''"
  by (auto simp: is_digit_def less_eq_char_def)

lemma parse_int64_itoa:
  assumes "n < 2 ^ 63"
  shows "parse_int64 (itoa n) = Some (int n)"
proof -
  obtain c s where cs: "itoa n = c # s" and d: "list_all is_digit (c # s)"
    using itoa_digits [of n] by (cases "itoa n") auto
  then have "c \<noteq> CHR ''-''" "c \<noteq> CHR ''+''" using digit_not_sign by auto
  moreover have "digits_val (c # s) = n" using digits_val_itoa [of n] cs by simp
  moreover have "int n < 2 ^ 63" using assms by (simp flip: of_nat_less_numeral_power_cancel_iff)
  ultimately show ?thesis using d by (simp add: parse_int64_def cs Let_def)
qed

lemma parse_int64_range: "parse_int64 s = Some v \<Longrightarrow> - (2 ^ 63) \<le> v \<and> v < 2 ^ 63"
  by (auto simp: parse_int64_def Let_def split: if_splits)

section \<open>\<open>time.ParseDuration\<close>\<close>

text \<open>\<open>leadingInt\<close>: the digits in front; it fails beyond \<open>2 ^ 63\<close>.\<close>

fun leading_int :: "nat \<Rightarrow> string \<Rightarrow> (nat \<times> string) option" where
  "leading_int x [] = Some (x, [])"
| "leading_int x (c # s) =
     (if is_digit c
      then if x > 2 ^ 63 div 10 then None
           else let y = x * 10 + digit_val c in if y > 2 ^ 63 then None else leading_int y s
      else Some (x, c # s))"

text \<open>\<open>leadingFraction\<close>: digits beyond the precision of 64 bits are read and dropped.\<close>

fun leading_fraction :: "nat \<Rightarrow> f64 \<Rightarrow> bool \<Rightarrow> string \<Rightarrow> nat \<times> f64 \<times> string" where
  "leading_fraction x scale ovf [] = (x, scale, [])"
| "leading_fraction x scale ovf (c # s) =
     (if is_digit c
      then if ovf \<or> x > (2 ^ 63 - 1) div 10 then leading_fraction x scale True s
           else let y = x * 10 + digit_val c
                in if y > 2 ^ 63 then leading_fraction x scale True s
                   else leading_fraction y (scale * Fin 10) False s
      else (x, scale, c # s))"

definition unit_of :: "string \<Rightarrow> nat option" where
  "unit_of u =
     (if u = ''ns'' then Some 1
      else if u = ''us'' \<or> u = [CHR 0xC2, CHR 0xB5, CHR ''s''] \<or> u = [CHR 0xCE, CHR 0xBC, CHR ''s'']
      then Some 1000
      else if u = ''ms'' then Some 1000000
      else if u = ''s'' then Some 1000000000
      else if u = ''m'' then Some 60000000000
      else if u = ''h'' then Some 3600000000000
      else None)"

definition unit_char :: "char \<Rightarrow> bool" where
  "unit_char c \<longleftrightarrow> c \<noteq> CHR ''.'' \<and> \<not> is_digit c"

definition f64_to_uint :: "f64 \<Rightarrow> nat" where
  "f64_to_uint x = nat (int64_of_f64 (\<lambda>_. 0) x)"

text \<open>One round of the loop: a number, an optional fraction and a unit; the sum so far is \<open>d\<close>.\<close>

definition duration_part :: "nat \<Rightarrow> string \<Rightarrow> (nat \<times> string) option" where
  "duration_part d s =
     (case s of
        [] \<Rightarrow> None
      | c # _ \<Rightarrow>
        if \<not> (c = CHR ''.'' \<or> is_digit c) then None
        else case leading_int 0 s of
          None \<Rightarrow> None
        | Some (v, s1) \<Rightarrow>
          let pre = (length s1 \<noteq> length s);
              dot = (case s1 of e # _ \<Rightarrow> e = CHR ''.'' | [] \<Rightarrow> False);
              (f, scale, s2) = (if dot then leading_fraction 0 1 False (tl s1) else (0, 1, s1));
              post = (dot \<and> length s2 \<noteq> length (tl s1));
              u = takeWhile unit_char s2;
              s3 = dropWhile unit_char s2
          in if \<not> pre \<and> \<not> post then None
             else if u = [] then None
             else case unit_of u of
               None \<Rightarrow> None
             | Some unit \<Rightarrow>
               if v > 2 ^ 63 div unit then None
               else let v1 = v * unit;
                        v2 = (if f > 0
                              then v1 + f64_to_uint (f64_of_int (int f) * (f64_of_int (int unit) div scale))
                              else v1)
                    in if f > 0 \<and> v2 > 2 ^ 63 then None
                       else let d1 = (d + v2) mod 2 ^ 64
                            in if d1 > 2 ^ 63 then None else Some (d1, s3))"

lemma leading_int_length: "leading_int x s = Some (v, t) \<Longrightarrow> length t \<le> length s"
  by (induction x s rule: leading_int.induct) (auto simp: Let_def split: if_splits)

lemma leading_fraction_length: "leading_fraction x sc b s = (f, sc', t) \<Longrightarrow> length t \<le> length s"
  by (induction x sc b s rule: leading_fraction.induct) (auto simp: Let_def split: if_splits)

lemma takeWhile_dropWhile_less: "takeWhile P s \<noteq> [] \<Longrightarrow> length (dropWhile P s) < length s"
  by (cases s) (auto simp: length_dropWhile_le le_imp_less_Suc split: if_splits)

lemma duration_part_shrinks:
  assumes "duration_part d s = Some (d', t)"
  shows "length t < length s"
proof -
  obtain v s1 where li: "leading_int 0 s = Some (v, s1)"
    using assms by (auto simp: duration_part_def split: list.splits if_splits option.splits)
  define dot where "dot = (case s1 of e # _ \<Rightarrow> e = CHR ''.'' | [] \<Rightarrow> False)"
  obtain f sc s2 where fr:
    "(if dot then leading_fraction 0 1 False (tl s1) else (0, 1, s1)) = (f, sc, s2)"
    by (cases "if dot then leading_fraction 0 1 False (tl s1) else (0, 1, s1)") auto
  have "length s2 \<le> length s1"
    using fr leading_fraction_length [of 0 1 False "tl s1"]
    by (auto split: if_splits)
  moreover have "takeWhile unit_char s2 \<noteq> [] \<and> t = dropWhile unit_char s2"
    using assms li fr
    by (auto simp: duration_part_def dot_def Let_def split: list.splits if_splits option.splits)
  ultimately show ?thesis
    using takeWhile_dropWhile_less [of unit_char s2] leading_int_length [OF li] by auto
qed

function duration_loop :: "nat \<Rightarrow> string \<Rightarrow> nat option" where
  "duration_loop d s =
     (if s = [] then Some d
      else case duration_part d s of None \<Rightarrow> None | Some (d', t) \<Rightarrow> duration_loop d' t)"
  by pat_completeness auto
termination
  by (relation "measure (\<lambda>(d, s). length s)") (auto simp: duration_part_shrinks)

declare duration_loop.simps [simp del]

definition parse_duration :: "string \<Rightarrow> duration option" where
  "parse_duration s =
     (let neg = (case s of c # _ \<Rightarrow> c = CHR ''-'' | [] \<Rightarrow> False);
          t = (case s of c # u \<Rightarrow> if c = CHR ''-'' \<or> c = CHR ''+'' then u else s | [] \<Rightarrow> [])
      in if t = ''0'' then Some 0
         else if t = [] then None
         else case duration_loop 0 t of
           None \<Rightarrow> None
         | Some d \<Rightarrow>
           if neg then Some (- int d) else if d > 2 ^ 63 - 1 then None else Some (int d))"

lemma parse_duration_Nil [simp]: "parse_duration [] = None"
  by (simp add: parse_duration_def)

lemma duration_part_le: "duration_part d s = Some (d', t) \<Longrightarrow> d' \<le> 2 ^ 63"
  by (auto simp: duration_part_def Let_def split: list.splits if_splits option.splits prod.splits)

lemma duration_loop_le: "duration_loop d s = Some r \<Longrightarrow> d \<le> 2 ^ 63 \<Longrightarrow> r \<le> 2 ^ 63"
proof (induction d s rule: duration_loop.induct)
  case (1 d s)
  show ?case
  proof (cases "s = []")
    case True
    with 1 show ?thesis by (simp add: duration_loop.simps)
  next
    case False
    with 1(2) obtain d' t where p: "duration_part d s = Some (d', t)" "duration_loop d' t = Some r"
      by (subst (asm) duration_loop.simps) (auto split: option.splits)
    with 1(1) False duration_part_le [OF p(1)] show ?thesis by simp
  qed
qed

text \<open>A parsed duration fits \<open>time.Duration\<close>, a 64-bit integer.\<close>

lemma parse_duration_range:
  assumes "parse_duration s = Some d"
  shows "min_duration \<le> d \<and> d \<le> max_duration"
proof -
  consider "d = 0" | r where "duration_loop 0 (case s of c # u \<Rightarrow> if c = CHR ''-'' \<or> c = CHR ''+''
      then u else s | [] \<Rightarrow> []) = Some r" "d = - int r \<or> (d = int r \<and> r \<le> 2 ^ 63 - 1)"
    using assms by (auto simp: parse_duration_def Let_def split: if_splits option.splits)
  then show ?thesis
  proof cases
    case 2
    then have "int r \<le> 2 ^ 63" using duration_loop_le by force
    with 2 show ?thesis by (auto simp: min_duration_def max_duration_def)
  qed (simp add: min_duration_def max_duration_def)
qed

text \<open>What evaluates the library functions on closed terms.\<close>

lemmas char_eval = less_eq_char_def less_char_def is_digit_def digit_val_def unit_char_def

lemmas f64_eval =
  one_f64_def zero_f64_def minus_f64_def f64_of_int_def f64_of_rat_def rnd_def rnd_pos_def ulp_exp_def
  expo_def ilog2.simps clog2_def max_exact_def round_even_def f64_to_uint_def rat_trunc_def Let_def
  pow2_def f64_min_def

lemmas duration_eval =
  parse_duration_def duration_loop.simps duration_part_def unit_of_def duration_units

end
