(* ===== verification/Model.thy ===== *)
theory Model
  imports Go_Std
begin

text \<open>
  The data the agent and the server exchange, and its validation: \<open>internal/model/metric.go\<close> and
  \<open>internal/model/log.go\<close>.  A validation function returns the error of the first check that fails;
  the two batch validations share the contract of the locale \<open>checked\<close>.
\<close>

section \<open>Metrics (\<open>metric.go\<close>)\<close>

definition valid_metric_names :: "string list" where
  "valid_metric_names =
     [''cpu.usage_pct'', ''mem.used_pct'', ''mem.used_bytes'', ''mem.total_bytes'',
      ''disk.used_pct'', ''disk.used_bytes'', ''disk.total_bytes'',
      ''net.bytes_in'', ''net.bytes_out'']"

text \<open>\<open>Labels\<close> is a Go map: a list of key-value pairs with distinct keys, in the map's order.\<close>

record metric =
  m_time :: gotime
  m_host :: string
  m_name :: string
  m_value :: f64
  m_labels :: "(string \<times> string) list"

record metric_batch =
  mb_host :: string
  mb_metrics :: "metric list"

datatype metric_error =
    MetricHostEmpty
  | UnknownMetricName string
  | MetricTimeZero
  | MetricValueNotFinite
  | MetricLabelEmpty

datatype metric_batch_error = BatchHostEmpty | BatchMetric nat metric_error

definition metric_validate :: "metric \<Rightarrow> metric_error err" where
  "metric_validate m =
     (if trim_space (m_host m) = [] then Some MetricHostEmpty
      else if m_name m \<notin> set valid_metric_names then Some (UnknownMetricName (m_name m))
      else if m_time m = zero_time then Some MetricTimeZero
      else if is_nan (m_value m) \<or> is_inf (m_value m) then Some MetricValueNotFinite
      else if list_ex (\<lambda>(k, v). k = [] \<or> v = []) (m_labels m) then Some MetricLabelEmpty
      else None)"

definition metric_batch_validate :: "metric_batch \<Rightarrow> metric_batch_error err" where
  "metric_batch_validate b =
     (if trim_space (mb_host b) = [] then Some BatchHostEmpty
      else map_option (\<lambda>(i, e). BatchMetric i e) (first_error metric_validate (mb_metrics b)))"

section \<open>Log entries (\<open>log.go\<close>)\<close>

definition valid_log_levels :: "string list" where
  "valid_log_levels = [''info'', ''warn'', ''error'', ''debug'']"

record log_entry =
  e_time :: gotime
  e_host :: string
  e_path :: string
  e_level :: string
  e_message :: string

record log_batch =
  lb_host :: string
  lb_entries :: "log_entry list"

datatype log_error = LogHostEmpty | LogMessageEmpty | LogTimeZero | InvalidLogLevel string

datatype log_batch_error =
    LogBatchHostEmpty
  | LogBatchEmpty
  | LogBatchTooLarge
  | LogBatchEntry nat log_error

definition log_entry_validate :: "log_entry \<Rightarrow> log_error err" where
  "log_entry_validate e =
     (if trim_space (e_host e) = [] then Some LogHostEmpty
      else if trim_space (e_message e) = [] then Some LogMessageEmpty
      else if e_time e = zero_time then Some LogTimeZero
      else if e_level e \<notin> set valid_log_levels then Some (InvalidLogLevel (e_level e))
      else None)"

definition log_batch_validate :: "log_batch \<Rightarrow> log_batch_error err" where
  "log_batch_validate b =
     (if trim_space (lb_host b) = [] then Some LogBatchHostEmpty
      else if length (lb_entries b) = 0 then Some LogBatchEmpty
      else if length (lb_entries b) > 1000 then Some LogBatchTooLarge
      else map_option (\<lambda>(i, e). LogBatchEntry i e) (first_error log_entry_validate (lb_entries b)))"

section \<open>The contract of a validation\<close>

text \<open>
  \<open>ok\<close> is the specification of a well-formed value; the contract is that the check returns no error
  on exactly the well-formed values.  What a batch validation does with the check follows from it.
\<close>

locale checked =
  fixes check :: "'a \<Rightarrow> 'e err"
    and ok :: "'a \<Rightarrow> bool"
  assumes check_None: "check x = None \<longleftrightarrow> ok x"
begin

lemma all_ok: "first_error check xs = None \<longleftrightarrow> (\<forall>x\<in>set xs. ok x)"
  by (simp add: first_error_from_None check_None)

lemma first_bad:
  "first_error check xs = Some (i, e) \<Longrightarrow>
     i < length xs \<and> \<not> ok (xs ! i) \<and> check (xs ! i) = Some e \<and> (\<forall>k<i. ok (xs ! k))"
  by (auto simp: first_error_from_Some check_None [symmetric])

lemma some_bad: "\<not> (\<forall>x\<in>set xs. ok x) \<Longrightarrow> \<exists>i e. first_error check xs = Some (i, e)"
  using all_ok [of xs] by (cases "first_error check xs") auto

end

definition metric_ok :: "metric \<Rightarrow> bool" where
  "metric_ok m \<longleftrightarrow>
     trim_space (m_host m) \<noteq> [] \<and> m_name m \<in> set valid_metric_names \<and> m_time m \<noteq> zero_time \<and>
     is_finite (m_value m) \<and> (\<forall>(k, v)\<in>set (m_labels m). k \<noteq> [] \<and> v \<noteq> [])"

definition log_entry_ok :: "log_entry \<Rightarrow> bool" where
  "log_entry_ok e \<longleftrightarrow>
     trim_space (e_host e) \<noteq> [] \<and> trim_space (e_message e) \<noteq> [] \<and> e_time e \<noteq> zero_time \<and>
     e_level e \<in> set valid_log_levels"

interpretation metric_check: checked metric_validate metric_ok
  by unfold_locales (auto simp: metric_validate_def metric_ok_def is_finite_def list_ex_iff)

interpretation entry_check: checked log_entry_validate log_entry_ok
  by unfold_locales (auto simp: log_entry_validate_def log_entry_ok_def)

section \<open>What the validations accept\<close>

lemma metric_batch_validate_None:
  "metric_batch_validate b = None \<longleftrightarrow>
     trim_space (mb_host b) \<noteq> [] \<and> (\<forall>m\<in>set (mb_metrics b). metric_ok m)"
  using metric_check.all_ok [of "mb_metrics b"]
  by (auto simp: metric_batch_validate_def)

lemma log_batch_validate_None:
  "log_batch_validate b = None \<longleftrightarrow>
     trim_space (lb_host b) \<noteq> [] \<and> lb_entries b \<noteq> [] \<and> length (lb_entries b) \<le> 1000 \<and>
     (\<forall>e\<in>set (lb_entries b). log_entry_ok e)"
  using entry_check.all_ok [of "lb_entries b"]
  by (auto simp: log_batch_validate_def)

lemma log_batch_validate_entry:
  "log_batch_validate b = Some (LogBatchEntry i e) \<Longrightarrow>
     first_error log_entry_validate (lb_entries b) = Some (i, e)"
  by (auto simp: log_batch_validate_def split: if_splits)

text \<open>
  C38. A metric batch is accepted exactly when its host is not blank and every metric is well formed:
  a host, a known name, a time, a finite value and no empty label key or value.  Otherwise, under a
  host that is not blank, the error names the first metric that is not well formed.
\<close>

theorem metric_batch_accepts:
  "(metric_batch_validate b = None \<longleftrightarrow>
      trim_space (mb_host b) \<noteq> [] \<and> (\<forall>m\<in>set (mb_metrics b). metric_ok m)) \<and>
   (metric_batch_validate b = Some (BatchMetric i e) \<longleftrightarrow>
      trim_space (mb_host b) \<noteq> [] \<and> i < length (mb_metrics b) \<and>
      metric_validate (mb_metrics b ! i) = Some e \<and> (\<forall>k<i. metric_ok (mb_metrics b ! k)))"
  using metric_batch_validate_None [of b]
  by (auto simp: metric_batch_validate_def first_error_from_Some metric_check.check_None)

lemma metric_batch_accepts_witness:
  "metric_batch_validate \<lparr>mb_host = ''h'', mb_metrics =
      [\<lparr>m_time = 1, m_host = ''h'', m_name = ''cpu.usage_pct'', m_value = 1, m_labels = [(''core'', ''0'')]\<rparr>,
       \<lparr>m_time = 2, m_host = ''h'', m_name = ''cpu.usage_pct'', m_value = NaN, m_labels = []\<rparr>]\<rparr>
    = Some (BatchMetric 1 MetricValueNotFinite)"
proof -
  have h: "trim_space ''h'' \<noteq> []" by code_simp
  show ?thesis
    by (subst conjunct2 [OF metric_batch_accepts])
      (simp add: h metric_ok_def metric_validate_def valid_metric_names_def zero_time_def is_finite_def one_f64_def)
qed

text \<open>
  C39. A log batch is accepted exactly when its host is not blank, it has between 1 and 1000 entries
  and every entry has a host and a message that are not blank, a time and a known level.  Otherwise,
  once host and size are fine, the error names the first entry that is not well formed.
\<close>

theorem log_batch_accepts:
  "(log_batch_validate b = None \<longleftrightarrow>
      trim_space (lb_host b) \<noteq> [] \<and> lb_entries b \<noteq> [] \<and> length (lb_entries b) \<le> 1000 \<and>
      (\<forall>e\<in>set (lb_entries b). log_entry_ok e)) \<and>
   (log_batch_validate b = Some (LogBatchEntry i e) \<longleftrightarrow>
      trim_space (lb_host b) \<noteq> [] \<and> length (lb_entries b) \<le> 1000 \<and> i < length (lb_entries b) \<and>
      log_entry_validate (lb_entries b ! i) = Some e \<and> (\<forall>k<i. log_entry_ok (lb_entries b ! k)))"
  using log_batch_validate_None [of b]
  by (auto simp: log_batch_validate_def first_error_from_Some entry_check.check_None)

lemma log_batch_accepts_witness:
  "log_batch_validate \<lparr>lb_host = ''h'', lb_entries =
      [\<lparr>e_time = 1, e_host = ''h'', e_path = ''/l'', e_level = ''info'', e_message = ''m''\<rparr>,
       \<lparr>e_time = 1, e_host = ''h'', e_path = ''/l'', e_level = ''info'', e_message = ''  ''\<rparr>]\<rparr>
    = Some (LogBatchEntry 1 LogMessageEmpty)"
proof -
  have h: "trim_space ''h'' \<noteq> []" "trim_space ''m'' \<noteq> []" "trim_space ''  '' = []" by code_simp+
  show ?thesis
    by (subst conjunct2 [OF log_batch_accepts])
      (simp add: h log_entry_ok_def log_entry_validate_def valid_log_levels_def zero_time_def)
qed

end
