(* ===== verification/Go_Time.thy ===== *)
theory Go_Time
  imports Go_Std "HOL-Library.Monad_Syntax"
begin

text \<open>
  \<open>time.Parse(time.RFC3339, s)\<close> and \<open>t.UTC().Format(time.RFC3339)\<close> of Go 1.23, with the calendar under
  them.  A time is a number of nanoseconds since the zero time, 1 January of year 1; the year 0 is before
  it.  The fast path of \<open>time.Parse\<close> accepts a part of what the general one accepts, with the same
  results, so only the general one is written out.
\<close>

section \<open>The calendar\<close>

definition leap_year :: "int \<Rightarrow> bool" where
  "leap_year y \<longleftrightarrow> y mod 4 = 0 \<and> (y mod 100 \<noteq> 0 \<or> y mod 400 = 0)"

definition month_lengths :: "int \<Rightarrow> int list" where
  "month_lengths y = [31, if leap_year y then 29 else 28, 31, 30, 31, 30, 31, 31, 30, 31, 30, 31]"

definition days_in :: "nat \<Rightarrow> int \<Rightarrow> int" where
  "days_in m y = month_lengths y ! (m - 1)"

definition days_before_year :: "int \<Rightarrow> int" where
  "days_before_year y = 365 * (y - 1) + (y - 1) div 4 - (y - 1) div 100 + (y - 1) div 400"

text \<open>The days from 1 January of year 1 to a date.\<close>

definition date_days :: "int \<Rightarrow> nat \<Rightarrow> nat \<Rightarrow> int" where
  "date_days y m d = days_before_year y + sum_list (take (m - 1) (month_lengths y)) + int d - 1"

text \<open>Back: cycles of 400, 100, 4 and 1 years, where the last day of a cycle belongs to its last year.\<close>

definition year_split :: "int \<Rightarrow> int \<times> int" where
  "year_split d =
     (let a = d div 146097; d1 = d mod 146097;
          b = min 3 (d1 div 36524); d2 = d1 - 36524 * b;
          c = d2 div 1461; d3 = d2 mod 1461;
          e = min 3 (d3 div 365)
      in (400 * a + 100 * b + 4 * c + e + 1, d3 - 365 * e))"

fun month_split :: "nat \<Rightarrow> int list \<Rightarrow> int \<Rightarrow> nat \<times> nat" where
  "month_split m [] d = (m, nat d + 1)"
| "month_split m (l # ls) d = (if d < l then (m, nat d + 1) else month_split (Suc m) ls (d - l))"

definition civil_date :: "int \<Rightarrow> int \<times> nat \<times> nat" where
  "civil_date d = (let (y, yday) = year_split d; (m, mday) = month_split 1 (month_lengths y) yday in (y, m, mday))"

section \<open>Formatting\<close>

definition pad_left :: "nat \<Rightarrow> nat \<Rightarrow> string" where
  "pad_left w n = replicate (w - length (itoa n)) (CHR ''0'') @ itoa n"

definition append_int :: "int \<Rightarrow> nat \<Rightarrow> string" where
  "append_int x w = (if x < 0 then CHR ''-'' # pad_left w (nat (- x)) else pad_left w (nat x))"

text \<open>The common part of the layouts, to the seconds.\<close>

definition date_clock :: "gotime \<Rightarrow> string" where
  "date_clock t =
     (let secs = t div second; sod = nat (secs mod 86400); (y, m, d) = civil_date (secs div 86400)
      in append_int y 4 @ ''-'' @ pad_left 2 m @ ''-'' @ pad_left 2 d @ ''T'' @
         pad_left 2 (sod div 3600) @ '':'' @ pad_left 2 (sod mod 3600 div 60) @ '':'' @ pad_left 2 (sod mod 60))"

definition format_rfc3339 :: "gotime \<Rightarrow> string" where
  "format_rfc3339 t = date_clock t @ ''Z''"

text \<open>\<open>RFC3339Nano\<close>: as many digits of the second as are needed.\<close>

definition strip_zeros :: "string \<Rightarrow> string" where
  "strip_zeros s = rev (dropWhile (\<lambda>d. d = CHR ''0'') (rev s))"

definition fraction_text :: "nat \<Rightarrow> string" where
  "fraction_text ns = (if ns = 0 then [] else CHR ''.'' # strip_zeros (pad_left 9 ns))"

definition format_rfc3339_nano :: "gotime \<Rightarrow> string" where
  "format_rfc3339_nano t = date_clock t @ fraction_text (nat (t mod second)) @ ''Z''"

text \<open>A time in a zone \<open>offset\<close> seconds east of Greenwich; the offset is cut to minutes.\<close>

definition zone_text :: "int \<Rightarrow> string" where
  "zone_text offset =
     (if offset = 0 then ''Z''
      else let m = nat (\<bar>offset\<bar> div 60)
           in (if offset \<le> -60 then ''-'' else ''+'') @ pad_left 2 (m div 60) @ '':'' @ pad_left 2 (m mod 60))"

definition format_zoned :: "int \<Rightarrow> gotime \<Rightarrow> string" where
  "format_zoned offset t = date_clock (t + offset * second) @ fraction_text (nat (t mod second)) @ zone_text offset"

section \<open>Parsing\<close>

definition guarded :: "bool \<Rightarrow> unit option" where
  "guarded b = (if b then Some () else None)"

definition skip_char :: "char \<Rightarrow> string \<Rightarrow> string option" where
  "skip_char c s = (case s of [] \<Rightarrow> None | d # t \<Rightarrow> if d = c then Some t else None)"

text \<open>\<open>getnum\<close>: two digits, or one when the layout does not fix the width.\<close>

definition getnum :: "bool \<Rightarrow> string \<Rightarrow> (nat \<times> string) option" where
  "getnum fixed s =
     (case s of
        [] \<Rightarrow> None
      | a # t \<Rightarrow>
        if \<not> is_digit a then None
        else if t \<noteq> [] \<and> is_digit (hd t) then Some (10 * digit_val a + digit_val (hd t), tl t)
        else if fixed then None else Some (digit_val a, t))"

definition get_year :: "string \<Rightarrow> (nat \<times> string) option" where
  "get_year s =
     (if length s \<ge> 4 \<and> list_all is_digit (take 4 s) then Some (digits_val (take 4 s), drop 4 s) else None)"

text \<open>A fraction after the seconds, which the layout need not have; digits beyond the ninth are dropped.\<close>

definition get_fraction :: "string \<Rightarrow> nat \<times> string" where
  "get_fraction s =
     (if length s \<ge> 2 \<and> (hd s = CHR ''.'' \<or> hd s = CHR '','') \<and> is_digit (s ! 1)
      then let ds = takeWhile is_digit (tl s)
           in (digits_val (take 9 ds) * 10 ^ (9 - length ds), dropWhile is_digit (tl s))
      else (0, s))"

text \<open>\<open>Z07:00\<close>; an offset of 24 hours or 60 minutes is let through.\<close>

definition get_zone :: "string \<Rightarrow> (int \<times> string) option" where
  "get_zone s =
     (if s \<noteq> [] \<and> hd s = CHR ''Z'' then Some (0, tl s)
      else if length s < 6 \<or> s ! 3 \<noteq> CHR '':'' then None
      else do {
        (h, _) \<leftarrow> getnum True (take 2 (drop 1 s));
        (m, _) \<leftarrow> getnum True (take 2 (drop 4 s));
        guarded (h \<le> 24 \<and> m \<le> 60);
        guarded (hd s = CHR ''+'' \<or> hd s = CHR ''-'');
        let z = int ((h * 60 + m) * 60);
        Some (if hd s = CHR ''-'' then - z else z, drop 6 s)
      })"

definition parse_rfc3339 :: "string \<Rightarrow> gotime option" where
  "parse_rfc3339 s = do {
     (y, s) \<leftarrow> get_year s;
     s \<leftarrow> skip_char (CHR ''-'') s;
     (m, s) \<leftarrow> getnum True s;
     guarded (1 \<le> m \<and> m \<le> 12);
     s \<leftarrow> skip_char (CHR ''-'') s;
     (d, s) \<leftarrow> getnum True s;
     s \<leftarrow> skip_char (CHR ''T'') s;
     (hh, s) \<leftarrow> getnum False s;
     guarded (hh < 24);
     s \<leftarrow> skip_char (CHR '':'') s;
     (mm, s) \<leftarrow> getnum True s;
     guarded (mm < 60);
     s \<leftarrow> skip_char (CHR '':'') s;
     (ss, s) \<leftarrow> getnum True s;
     guarded (ss < 60);
     let (ns, s) = get_fraction s;
     (z, s) \<leftarrow> get_zone s;
     guarded (s = []);
     guarded (1 \<le> d \<and> int d \<le> days_in m (int y));
     Some ((date_days (int y) m d * 86400 + int (hh * 3600 + mm * 60 + ss) - z) * second + int ns)
   }"

section \<open>The calendar is a bijection\<close>

lemma year_length: "sum_list (month_lengths y) = (if leap_year y then 366 else 365)"
  by (simp add: month_lengths_def)

lemma mod_top: "0 < x \<Longrightarrow> x \<le> n \<Longrightarrow> x mod n = 0 \<longleftrightarrow> x = (n :: int)"
  by (cases "x = n") auto

text \<open>Three cycles of \<open>n\<close> days and a last one that may have a day more.\<close>

lemma last_cycle:
  assumes "0 \<le> d" "d \<le> 4 * n" "0 < n" "b = min 3 (d div n)"
  shows "0 \<le> b \<and> b \<le> 3 \<and> 0 \<le> d - n * b \<and> d - n * b \<le> n \<and> (b < 3 \<longrightarrow> d - n * b < (n :: int))"
proof (cases "d div n < 3")
  case True
  then have "d - n * b = d mod n" using assms(4) by (simp add: minus_mult_div_eq_mod)
  with True assms show ?thesis by (simp add: pos_imp_zdiv_nonneg_iff order.strict_implies_order)
next
  case False
  then have "b = 3" "n * 3 \<le> n * (d div n)" using assms by simp_all
  moreover have "n * (d div n) + d mod n = d" "0 \<le> d mod n" using assms(3) by simp_all
  ultimately have "n * 3 \<le> d" by linarith
  with \<open>b = 3\<close> assms(2) show ?thesis by simp
qed

lemma year_split_correct:
  assumes "year_split d = (y, r)"
  shows "days_before_year y + r = d \<and> 0 \<le> r \<and> r < sum_list (month_lengths y)"
proof -
  define a d1 where "a = d div 146097" and "d1 = d mod 146097"
  define b d2 where "b = min 3 (d1 div 36524)" and "d2 = d1 - 36524 * b"
  define c d3 where "c = d2 div 1461" and "d3 = d2 mod 1461"
  define e where "e = min 3 (d3 div 365)"
  have d: "d = 146097 * a + d1" "0 \<le> d1" "d1 < 146097" by (auto simp: a_def d1_def)
  have b: "0 \<le> b" "b \<le> 3" "0 \<le> d2" "d2 \<le> 36524" "b < 3 \<Longrightarrow> d2 < 36524" "d1 = 36524 * b + d2"
    using last_cycle [OF d(2) _ _ b_def] d(3) by (simp_all add: d2_def)
  have c: "0 \<le> d3" "d3 < 1461" "d2 = 1461 * c + d3" by (simp_all add: c_def d3_def)
  then have c': "0 \<le> c" "c \<le> 24" using b(3,4) by simp_all
  have e: "0 \<le> e" "e \<le> 3" "0 \<le> d3 - 365 * e" "d3 - 365 * e \<le> 365" "e < 3 \<Longrightarrow> d3 - 365 * e < 365"
    using last_cycle [OF c(1) _ _ e_def] c(2) by simp_all
  have y: "y = 400 * a + 100 * b + 4 * c + e + 1" "r = d3 - 365 * e"
  proof -
    have "year_split d = (400 * a + 100 * b + 4 * c + e + 1, d3 - 365 * e)"
      by (simp only: year_split_def Let_def a_def d1_def b_def d2_def c_def d3_def e_def)
    with assms show "y = 400 * a + 100 * b + 4 * c + e + 1" "r = d3 - 365 * e" by simp_all
  qed
  have "y - 1 = e + 4 * (100 * a + 25 * b + c)" by (simp add: y(1))
  then have q4: "(y - 1) div 4 = 100 * a + 25 * b + c" using e(1,2) by (simp only: div_mult_self2)
  have "y - 1 = (4 * c + e) + 100 * (4 * a + b)" by (simp add: y(1))
  then have q100: "(y - 1) div 100 = 4 * a + b" using e(1,2) c' by (simp only: div_mult_self2)
  have "y - 1 = (100 * b + 4 * c + e) + 400 * a" by (simp add: y(1))
  then have q400: "(y - 1) div 400 = a" using e(1,2) c' b(1,2) by (simp only: div_mult_self2)
  have "y = (e + 1) + 4 * (100 * a + 25 * b + c)" by (simp add: y(1))
  then have m4: "y mod 4 = (e + 1) mod 4" by (simp only: mod_mult_self2)
  have "y = (4 * c + e + 1) + 100 * (4 * a + b)" by (simp add: y(1))
  then have m100: "y mod 100 = (4 * c + e + 1) mod 100" by (simp only: mod_mult_self2)
  have "y = (100 * b + 4 * c + e + 1) + 400 * a" by (simp add: y(1))
  then have m400: "y mod 400 = (100 * b + 4 * c + e + 1) mod 400" by (simp only: mod_mult_self2)
  have "(e + 1) mod 4 = 0 \<longleftrightarrow> e = 3" using e(1,2) mod_top [of "e + 1" 4] by auto
  moreover have "(4 * c + e + 1) mod 100 = 0 \<longleftrightarrow> c = 24 \<and> e = 3"
    using e(1,2) c' mod_top [of "4 * c + e + 1" 100] by auto
  moreover have "(100 * b + 4 * c + e + 1) mod 400 = 0 \<longleftrightarrow> b = 3 \<and> c = 24 \<and> e = 3"
    using e(1,2) c' b(1,2) mod_top [of "100 * b + 4 * c + e + 1" 400] by auto
  ultimately have leap: "leap_year y \<longleftrightarrow> e = 3 \<and> (c \<noteq> 24 \<or> b = 3)"
    unfolding leap_year_def m4 m100 m400 by auto
  have "r < 365" if "\<not> leap_year y"
  proof (cases "e = 3")
    case True
    then have "c = 24" "b < 3" using that leap b(2) by auto
    with b(5) c(3) True show ?thesis by (simp add: y(2))
  qed (use e(2,5) in \<open>simp add: y(2)\<close>)
  moreover have "days_before_year y + r = d"
    unfolding days_before_year_def q4 q100 q400 using d(1) b(6) c(3) by (simp add: y)
  ultimately show ?thesis using e(3,4) by (simp add: year_length y(2))
qed

lemma month_split_correct:
  assumes "month_split m ls d = (m', k)" "0 \<le> d" "d < sum_list ls" "\<forall>l\<in>set ls. 0 \<le> l"
  shows "m \<le> m' \<and> m' < m + length ls \<and> sum_list (take (m' - m) ls) + int k - 1 = d \<and> 1 \<le> k \<and>
    int k \<le> ls ! (m' - m)"
  using assms
proof (induction m ls d rule: month_split.induct)
  case (2 m l ls d)
  show ?case
  proof (cases "d < l")
    case False
    with 2 have "Suc m \<le> m' \<and> m' < Suc m + length ls \<and> sum_list (take (m' - Suc m) ls) + int k - 1 = d - l \<and>
      1 \<le> k \<and> int k \<le> ls ! (m' - Suc m)" by auto
    moreover from this have "m' - m = Suc (m' - Suc m)" by (simp add: Suc_diff_Suc Suc_le_eq)
    ultimately show ?thesis by simp
  qed (use 2 in auto)
qed simp

lemma civil_date_correct:
  assumes "civil_date n = (y, m, d)"
  shows "date_days y m d = n \<and> 1 \<le> m \<and> m \<le> 12 \<and> 1 \<le> d \<and> int d \<le> days_in m y"
proof -
  obtain r where r: "year_split n = (y, r)" "month_split 1 (month_lengths y) r = (m, d)"
    using assms by (auto simp: civil_date_def split: prod.splits)
  have "\<forall>l\<in>set (month_lengths y). 0 \<le> l" "length (month_lengths y) = 12" by (auto simp: month_lengths_def)
  with year_split_correct [OF r(1)] month_split_correct [OF r(2)] show ?thesis
    by (auto simp: date_days_def days_in_def)
qed

lemma days_in_le: "1 \<le> m \<Longrightarrow> m \<le> 12 \<Longrightarrow> days_in m y \<le> 31"
  by (auto simp: days_in_def month_lengths_def le_Suc_eq numeral_eq_Suc nth_Cons split: nat.splits)

text \<open>The years 0 to 9999, which the layout can write in four digits.\<close>

definition four_digit_year :: "gotime \<Rightarrow> bool" where
  "four_digit_year t \<longleftrightarrow> - (366 * 24 * hour) \<le> t \<and> t < 3652059 * 24 * hour"

lemma div_bracket:
  assumes "0 < (k :: int)"
  shows "k * (x div k) \<le> x \<and> x - k < k * (x div k)"
proof -
  have "k * (x div k) = x - x mod k" by (simp add: minus_mod_eq_mult_div)
  with pos_mod_bound [OF assms, of x] pos_mod_sign [OF assms, of x] show ?thesis by linarith
qed

lemma days_before_year_bounds:
  "146097 * (y - 1) - 699 \<le> 400 * days_before_year y" "400 * days_before_year y \<le> 146097 * (y - 1) + 396"
proof -
  note q = div_bracket [of 4 "y - 1"] div_bracket [of 100 "y - 1"] div_bracket [of 400 "y - 1"]
  show "146097 * (y - 1) - 699 \<le> 400 * days_before_year y"
    using q unfolding days_before_year_def by simp
  show "400 * days_before_year y \<le> 146097 * (y - 1) + 396"
    using q unfolding days_before_year_def by simp
qed

lemma year_range:
  assumes "civil_date n = (y, m, d)" "-366 \<le> n" "n < 3652059"
  shows "0 \<le> y \<and> y < 10000"
proof -
  obtain r where r: "year_split n = (y, r)" using assms by (auto simp: civil_date_def split: prod.splits)
  have n: "days_before_year y \<le> n" "n < days_before_year y + (if leap_year y then 366 else 365)"
    using year_split_correct [OF r] by (auto simp: year_length)
  have "y \<noteq> -1" using n assms(2) by (auto simp: days_before_year_def leap_year_def)
  moreover have "\<not> y \<le> -2" using n(2) assms(2) days_before_year_bounds(2) [of y] by (auto split: if_splits)
  moreover have "days_before_year y \<le> 3652058" using n(1) assms(3) by simp
  then have "146097 * (y - 1) < 146097 * 9999" using days_before_year_bounds(1) [of y] by simp
  then have "y < 10000" by simp
  ultimately show ?thesis by linarith
qed

section \<open>Reading back what was written\<close>

lemma length_itoa: "n < 10 ^ k \<Longrightarrow> 0 < k \<Longrightarrow> length (itoa n) \<le> k"
proof (induction n arbitrary: k rule: itoa.induct)
  case (1 n)
  show ?case
  proof (cases "n < 10")
    case True
    with 1 show ?thesis by (simp add: itoa.simps)
  next
    case False
    then obtain j where k: "k = Suc j" "0 < j" using 1(2,3) by (cases k; cases "k - 1") auto
    then have "length (itoa (n div 10)) \<le> j" using 1 False by auto
    with False k show ?thesis by (subst itoa.simps) simp
  qed
qed

lemma zero_digit: "is_digit (CHR ''0'') \<and> digit_val (CHR ''0'') = 0"
  by (simp add: is_digit_def digit_val_def less_eq_char_def)

lemma digits_val_zeros: "digits_val (replicate k (CHR ''0'') @ s) = digits_val s"
  by (induction k) (auto simp: digits_val_def zero_digit)

lemma pad_left_facts:
  assumes "n < 10 ^ w" "0 < w"
  shows "length (pad_left w n) = w" "list_all is_digit (pad_left w n)" "digits_val (pad_left w n) = n"
  using length_itoa [OF assms] itoa_digits [of n]
  by (auto simp: pad_left_def digits_val_zeros digits_val_itoa zero_digit list_all_iff)

lemma get_year_pad [simp]: "n < 10000 \<Longrightarrow> get_year (pad_left 4 n @ s) = Some (n, s)"
  using pad_left_facts [of n 4] by (simp add: get_year_def)

lemma getnum_pad [simp]:
  assumes "n < 100"
  shows "getnum fixed (pad_left 2 n @ s) = Some (n, s)"
proof -
  have "length (pad_left 2 n) = 2" "list_all is_digit (pad_left 2 n)" "digits_val (pad_left 2 n) = n"
    using pad_left_facts [of n 2] assms by simp_all
  moreover from this(1) obtain a b where "pad_left 2 n = [a, b]" by (auto simp: numeral_2_eq_2 length_Suc_conv)
  ultimately show ?thesis by (auto simp: getnum_def digits_val_def)
qed

lemma skip_char_Cons [simp]: "skip_char c (d # s) = (if d = c then Some s else None)"
  by (simp add: skip_char_def)

lemma get_zone_Z: "get_zone ''Z'' = Some (0, [])"
  by (simp add: get_zone_def)

text \<open>Trailing zeros.\<close>

lemma takeWhile_same: "takeWhile (\<lambda>d. d = c) s = replicate (length (takeWhile (\<lambda>d. d = c) s)) c"
  by (induction s) auto

lemma strip_zeros_split: "\<exists>z. s = strip_zeros s @ replicate z (CHR ''0'')"
proof -
  let ?z = "length (takeWhile (\<lambda>d. d = CHR ''0'') (rev s))"
  have "rev s = replicate ?z (CHR ''0'') @ dropWhile (\<lambda>d. d = CHR ''0'') (rev s)"
    by (simp flip: takeWhile_same)
  then have "rev (rev s) = rev (replicate ?z (CHR ''0'') @ dropWhile (\<lambda>d. d = CHR ''0'') (rev s))"
    by (rule arg_cong)
  then show ?thesis unfolding strip_zeros_def by (auto simp only: rev_append rev_replicate rev_rev_ident)
qed

lemma set_strip_zeros: "set (strip_zeros s) \<subseteq> set s"
  unfolding strip_zeros_def by (metis set_dropWhileD set_rev subsetI)

lemma digits_val_snoc_zeros: "digits_val (s @ replicate z (CHR ''0'')) = digits_val s * 10 ^ z"
proof (induction z)
  case (Suc z)
  have "s @ replicate (Suc z) (CHR ''0'') = (s @ replicate z (CHR ''0'')) @ [CHR ''0'']"
    by (simp add: replicate_append_same)
  then show ?case using Suc zero_digit by (simp only: digits_val_snoc) simp
qed simp

text \<open>What can follow the fraction.\<close>

definition ends_fraction :: "string \<Rightarrow> bool" where
  "ends_fraction v \<longleftrightarrow> v \<noteq> [] \<and> \<not> is_digit (hd v) \<and> hd v \<noteq> CHR ''.'' \<and> hd v \<noteq> CHR '',''"

lemma get_fraction_text:
  assumes "ns < 10 ^ 9" "ends_fraction v"
  shows "get_fraction (fraction_text ns @ v) = (ns, v)"
proof (cases "ns = 0")
  case True
  then show ?thesis using assms(2) by (simp add: fraction_text_def get_fraction_def ends_fraction_def)
next
  case False
  note p = pad_left_facts [OF assms(1), simplified]
  obtain z where z: "pad_left 9 ns = strip_zeros (pad_left 9 ns) @ replicate z (CHR ''0'')"
    using strip_zeros_split by blast
  define ds where "ds = strip_zeros (pad_left 9 ns)"
  note z = z [folded ds_def]
  have len: "length ds + z = 9" using arg_cong [OF z, of length] p(1) by simp
  have dig: "list_all is_digit ds" using p(2) by (subst (asm) z) simp
  have val: "digits_val ds * 10 ^ z = ns" using p(3) by (subst (asm) z) (simp add: digits_val_snoc_zeros)
  then have ne: "ds \<noteq> []" using False by (auto simp: digits_val_def)
  have nz: "takeWhile is_digit v = []" "dropWhile is_digit v = v"
    using assms(2) by (cases v; simp add: ends_fraction_def)+
  have "takeWhile is_digit (ds @ v) = ds" "dropWhile is_digit (ds @ v) = v"
    using dig nz by (auto simp: list_all_iff)
  moreover have "is_digit (ds ! 0)" "ds ! 0 = (ds @ v) ! 0" using dig ne by (auto simp: list_all_iff nth_append)
  moreover have "z = 9 - length ds" "length ds \<le> 9" using len by simp_all
  moreover have v: "Suc 0 \<le> length ds + length v" using ne by (cases ds) simp_all
  ultimately show ?thesis
    using False ne val unfolding fraction_text_def ds_def [symmetric] by (auto simp: get_fraction_def)
qed

lemma ends_Z: "ends_fraction ''Z''"
  by (simp add: ends_fraction_def is_digit_def less_eq_char_def)

lemma guarded_True [simp]: "guarded True = Some ()"
  by (simp add: guarded_def)

lemma guarded_bind: "b \<Longrightarrow> guarded b \<bind> f = f ()"
  by (simp add: guarded_def)

lemma parse_written:
  assumes "y < 10000" "1 \<le> m" "m \<le> 12" "1 \<le> d" "int d \<le> days_in m (int y)" "h < 24" "mi < 60" "s < 60"
    and "get_fraction u = (ns, v)" "get_zone v = Some (z, [])"
  shows "parse_rfc3339 (pad_left 4 y @ ''-'' @ pad_left 2 m @ ''-'' @ pad_left 2 d @ ''T'' @
      pad_left 2 h @ '':'' @ pad_left 2 mi @ '':'' @ pad_left 2 s @ u) =
    Some ((date_days (int y) m d * 86400 + int (h * 3600 + mi * 60 + s) - z) * second + int ns)"
proof -
  have "m < 100" "d < 100" "h < 100" "mi < 100" "s < 100" using assms days_in_le [of m "int y"] by auto
  moreover note assms
  ultimately show ?thesis
    by (simp only: parse_rfc3339_def append.simps append_Cons append_Nil get_year_pad getnum_pad skip_char_Cons guarded_bind
        bind.bind_lunit Let_def prod.case if_True simp_thms)
qed

lemma clock_split:
  assumes "n < 86400"
  obtains h m s where "h < 24" "m < 60" "s < (60 :: nat)" "n = h * 3600 + m * 60 + s"
    "n div 3600 = h" "n mod 3600 div 60 = m" "n mod 60 = s"
proof -
  have "n div 3600 < 24" using assms by (simp add: div_less_iff_less_mult)
  moreover have "n mod 3600 div 60 < 60" by (simp add: div_less_iff_less_mult)
  moreover have "n mod 3600 mod 60 = n mod 60" by (simp add: mod_mod_cancel)
  moreover have "n = n div 3600 * 3600 + n mod 3600 div 60 * 60 + n mod 3600 mod 60"
    by (metis add.assoc div_mult_mod_eq)
  moreover have "n mod 60 < 60" by simp
  ultimately show thesis using that by metis
qed

lemma parse_date_clock:
  assumes "four_digit_year t" "get_fraction u = (ns, v)" "get_zone v = Some (z, [])"
  shows "parse_rfc3339 (date_clock t @ u) = Some ((t div second - z) * second + int ns)"
proof -
  define days where "days = t div second div 86400"
  define sod where "sod = nat (t div second mod 86400)"
  obtain y m d where ymd: "civil_date days = (y, m, d)" by (cases "civil_date days") auto
  have "-366 \<le> days" "days < 3652059"
    using assms(1) unfolding four_digit_year_def days_def hour_def second_def by auto
  then have "0 \<le> y" "y < 10000" using year_range [OF ymd] by auto
  then have y: "nat y < 10000" "int (nat y) = y" "append_int y 4 = pad_left 4 (nat y)"
    by (auto simp: append_int_def)
  have md: "date_days y m d = days" "1 \<le> m" "m \<le> 12" "1 \<le> d" "int d \<le> days_in m y"
    using civil_date_correct [OF ymd] by auto
  have "sod < 86400" by (simp add: sod_def nat_less_iff)
  then obtain h mi s where c: "h < 24" "mi < 60" "s < 60" "sod = h * 3600 + mi * 60 + s"
    "sod div 3600 = h" "sod mod 3600 div 60 = mi" "sod mod 60 = s" by (rule clock_split)
  have "int sod = t div second mod 86400" by (simp add: sod_def)
  then have "days * 86400 + int (h * 3600 + mi * 60 + s) = t div second" unfolding days_def c(4) [symmetric] by simp
  moreover have "date_clock t @ u = pad_left 4 (nat y) @ ''-'' @ pad_left 2 m @ ''-'' @ pad_left 2 d @ ''T'' @
      pad_left 2 h @ '':'' @ pad_left 2 mi @ '':'' @ pad_left 2 s @ u"
    unfolding date_clock_def Let_def sod_def [symmetric] days_def [symmetric] ymd prod.case y(3) c(5-7) by simp
  ultimately show ?thesis
    using parse_written [of "nat y" m d h mi s u ns v z] y(1,2) md c(1-3) assms(2,3) by simp
qed

text \<open>
  An instant of the years 0 to 9999 that is written in RFC 3339 and read back comes back to the second:
  what the example client sends as \<open>from\<close> and \<open>to\<close> is what the server queries.  Written with the
  digits of the second it comes back unchanged.
\<close>

lemma parse_format:
  assumes "four_digit_year t"
  shows "parse_rfc3339 (format_rfc3339 t) = Some (t div second * second)"
  using parse_date_clock [OF assms _ get_zone_Z, of "''Z''" 0] get_fraction_text [OF _ ends_Z, of 0]
  by (simp add: format_rfc3339_def fraction_text_def)

lemma get_zone_text:
  assumes "\<bar>offset\<bar> < 86400" "60 dvd offset"
  shows "get_zone (zone_text offset) = Some (offset, []) \<and> ends_fraction (zone_text offset)"
proof (cases "offset = 0")
  case True
  then show ?thesis using get_zone_Z ends_Z by (simp add: zone_text_def)
next
  case False
  define m where "m = nat (\<bar>offset\<bar> div 60)"
  have "60 \<le> \<bar>offset\<bar>" using zdvd_imp_le [of 60 "\<bar>offset\<bar>"] assms(2) False by simp
  then have neg: "offset \<le> -60 \<longleftrightarrow> offset < 0" by auto
  have "0 \<le> \<bar>offset\<bar> div 60" by (simp add: pos_imp_zdiv_nonneg_iff)
  then have m: "int m * 60 = \<bar>offset\<bar>" using assms(2) by (simp add: m_def)
  then have "m < 1440" using assms(1) by simp
  then have h: "m div 60 < 24" "m mod 60 < 60" by (simp_all add: div_less_iff_less_mult)
  obtain a b where ab: "pad_left 2 (m div 60) = [a, b]" "getnum True [a, b] = Some (m div 60, [])"
    using pad_left_facts(1) [of "m div 60" 2] getnum_pad [of "m div 60" True "[]"] h(1)
    by (auto simp: numeral_2_eq_2 length_Suc_conv)
  obtain c d where cd: "pad_left 2 (m mod 60) = [c, d]" "getnum True [c, d] = Some (m mod 60, [])"
    using pad_left_facts(1) [of "m mod 60" 2] getnum_pad [of "m mod 60" True "[]"] h(2)
    by (auto simp: numeral_2_eq_2 length_Suc_conv)
  have "60 * int (m div 60) + int (m mod 60) = int m"
    by (metis mult_div_mod_eq of_nat_add of_nat_mult of_nat_numeral)
  then have v: "3600 * int (m div 60) + int (m mod 60) * 60 = \<bar>offset\<bar>" using m by linarith
  have "zone_text offset = (if offset < 0 then CHR ''-'' else CHR ''+'') # [a, b, CHR '':'', c, d]"
    using False by (simp add: zone_text_def Let_def neg flip: m_def) (simp add: ab cd)
  then show ?thesis using ab(2) cd(2) h v
    by (auto simp: get_zone_def ends_fraction_def guarded_def is_digit_def less_eq_char_def Let_def)
qed

text \<open>A time in a zone of whole minutes comes back unchanged.\<close>

lemma parse_format_zoned:
  assumes "four_digit_year (t + offset * second)" "\<bar>offset\<bar> < 86400" "60 dvd offset"
  shows "parse_rfc3339 (format_zoned offset t) = Some t"
proof -
  have ns: "nat (t mod second) < 10 ^ 9" "int (nat (t mod second)) = t mod second"
    by (simp_all add: second_def nat_less_iff)
  have "(t + offset * second) div second - offset = t div second" by (simp add: second_def)
  moreover have "t div second * second + t mod second = t" by simp
  ultimately show ?thesis
    using parse_date_clock [OF assms(1) get_fraction_text [OF ns(1)], of "zone_text offset" offset]
      get_zone_text [OF assms(2,3)] ns(2)
    by (simp add: format_zoned_def)
qed

text \<open>The bytes of a written time.\<close>

definition time_char :: "char \<Rightarrow> bool" where
  "time_char c \<longleftrightarrow> is_digit c \<or> c \<in> set ''-T:.Z+''"

lemma time_chars: "list_all time_char (format_zoned offset t)" "list_all time_char (format_rfc3339 t)"
proof -
  have itoa: "list_all time_char (itoa n)" for n
    using itoa_digits [of n] by (auto simp: list_all_iff time_char_def)
  have p: "list_all time_char (pad_left w n)" for w n
    using itoa zero_digit by (auto simp: pad_left_def list_all_iff time_char_def)
  have a: "list_all time_char (append_int x w)" for x w
    using p by (auto simp: append_int_def time_char_def)
  have d: "list_all time_char (date_clock t)" for t
    using p a by (auto simp: date_clock_def Let_def time_char_def split: prod.splits)
  have f: "list_all time_char (fraction_text n)" for n
    using set_strip_zeros [of "pad_left 9 n"] p [of 9 n] by (auto simp: fraction_text_def list_all_iff time_char_def)
  have z: "list_all time_char (zone_text offset)"
    using p by (auto simp: zone_text_def Let_def time_char_def)
  show "list_all time_char (format_zoned offset t)" using d f z by (simp add: format_zoned_def)
  show "list_all time_char (format_rfc3339 t)" using d by (simp add: format_rfc3339_def time_char_def)
qed

lemma format_zoned_0: "format_zoned 0 = format_rfc3339_nano"
  by (auto simp: format_zoned_def format_rfc3339_nano_def zone_text_def)

lemma parse_format_nano: "four_digit_year t \<Longrightarrow> parse_rfc3339 (format_rfc3339_nano t) = Some t"
  using parse_format_zoned [of t 0] by (simp add: format_zoned_0)

end
