(* ===== verification/Go_Fmt.thy ===== *)
theory Go_Fmt
  imports Go_Time
begin

text \<open>
  \<open>fmt\<close>'s verb \<open>%g\<close> without a precision: the shortest decimal that reads back as the same
  \<open>float64\<close>, in positional notation for decimal exponents from -4 to 5 and in scientific notation
  outside.  Seventeen digits are always enough for a \<open>float64\<close>.  A negative zero, which the model
  does not distinguish from zero, is printed as \<open>-0\<close> by Go and as \<open>0\<close> here.
\<close>

definition pow10 :: "int \<Rightarrow> rat" where
  "pow10 k = (if 0 \<le> k then 10 ^ nat k else 1 / 10 ^ nat (- k))"

text \<open>The position of the decimal point: \<open>10 ^ (p - 1) \<le> x < 10 ^ p\<close>.\<close>

definition point_pos :: "rat \<Rightarrow> int" where
  "point_pos x =
     (let (a, b) = quotient_of x; e = int (length (itoa (nat a))) - int (length (itoa (nat b)))
      in if x < pow10 e then e else e + 1)"

text \<open>The integer of \<open>n\<close> digits that stands for \<open>x\<close>, if one reads back as \<open>x\<close>.\<close>

definition digits_at :: "rat \<Rightarrow> int \<Rightarrow> nat \<Rightarrow> int option" where
  "digits_at x p n =
     (let u = pow10 (p - int n); lo = \<lfloor>x / u\<rfloor>; hi = lo + 1;
          down = (f64_of_rat (of_int lo * u) = Fin x); up = (f64_of_rat (of_int hi * u) = Fin x)
      in if down \<and> up then Some (round_even (x / u))
         else if down then Some lo else if up then Some hi else None)"

fun shortest_from :: "rat \<Rightarrow> int \<Rightarrow> nat \<Rightarrow> nat \<Rightarrow> int \<times> nat" where
  "shortest_from x p n 0 = (round_even (x / pow10 (p - int n)), n)"
| "shortest_from x p n (Suc fuel) =
     (case digits_at x p n of Some c \<Rightarrow> (c, n) | None \<Rightarrow> shortest_from x p (Suc n) fuel)"

text \<open>The digits without trailing zeros and the position of the decimal point.\<close>

definition shortest :: "rat \<Rightarrow> string \<times> int" where
  "shortest x =
     (let p = point_pos x; (c, n) = shortest_from x p 1 16; ds = itoa (nat c)
      in (strip_zeros ds, p + int (length ds) - int n))"

definition zeros :: "int \<Rightarrow> string" where
  "zeros n = replicate (nat n) (CHR ''0'')"

definition fmt_positional :: "string \<Rightarrow> int \<Rightarrow> string" where
  "fmt_positional ds p =
     (if p \<le> 0 then ''0.'' @ zeros (- p) @ ds
      else if int (length ds) \<le> p then ds @ zeros (p - int (length ds))
      else take (nat p) ds @ ''.'' @ drop (nat p) ds)"

definition fmt_scientific :: "string \<Rightarrow> int \<Rightarrow> string" where
  "fmt_scientific ds p =
     (let e = p - 1; es = itoa (nat \<bar>e\<bar>)
      in take 1 ds @ (if length ds > 1 then ''.'' @ drop 1 ds else []) @ ''e'' @
         (if e < 0 then ''-'' else ''+'') @ (if length es < 2 then ''0'' @ es else es))"

definition fmt_g_pos :: "rat \<Rightarrow> string" where
  "fmt_g_pos x =
     (let (ds, p) = shortest x
      in if p - 1 < - 4 \<or> p - 1 \<ge> 6 then fmt_scientific ds p else fmt_positional ds p)"

fun fmt_g :: "f64 \<Rightarrow> string" where
  "fmt_g NaN = ''NaN''"
| "fmt_g (Inf neg) = (if neg then ''-Inf'' else ''+Inf'')"
| "fmt_g (Fin x) =
     (if x = 0 then ''0'' else if x < 0 then ''-'' @ fmt_g_pos (- x) else fmt_g_pos x)"

text \<open>\<open>%d\<close> of an integer.\<close>

definition fmt_d :: "int \<Rightarrow> string" where
  "fmt_d n = (if n < 0 then ''-'' @ itoa (nat (- n)) else itoa (nat n))"

section \<open>Reading back what was written\<close>

lemma pow10_powi: "pow10 k = 10 powi k"
  by (simp add: pow10_def power_int_def field_simps)

lemma itoa_bounds: "0 < n \<Longrightarrow> 10 ^ (length (itoa n) - 1) \<le> n \<and> n < 10 ^ length (itoa n)"
proof (induction n rule: itoa.induct)
  case (1 n)
  show ?case
  proof (cases "n < 10")
    case False
    let ?l = "length (itoa (n div 10))"
    have "itoa (n div 10) \<noteq> []" using itoa_digits by blast
    then obtain j where j: "?l = Suc j" by (cases ?l) auto
    have "10 ^ (?l - 1) \<le> n div 10" "n div 10 < 10 ^ ?l" using 1 False by auto
    then have "10 ^ j * 10 \<le> n" "n < 10 ^ Suc j * 10" using j by (simp_all add: less_eq_div_iff_mult_less_eq div_less_iff_less_mult)
    then show ?thesis using False j by (subst (1 2) itoa.simps) (simp add: mult.commute)
  qed (use 1 in \<open>simp add: itoa.simps\<close>)
qed

lemma itoa_bounds_rat:
  assumes "0 < a"
  shows "10 powi (int (length (itoa (nat a))) - 1) \<le> (of_int a :: rat) \<and> (of_int a :: rat) < 10 powi int (length (itoa (nat a)))"
proof -
  obtain j where j: "length (itoa (nat a)) = Suc j"
    using itoa_digits [of "nat a"] by (cases "length (itoa (nat a))") auto
  have "10 ^ j \<le> nat a" "nat a < 10 ^ Suc j" using itoa_bounds [of "nat a"] assms j by simp_all
  then have "of_nat (10 ^ j) \<le> (of_nat (nat a) :: rat)" "(of_nat (nat a) :: rat) < of_nat (10 ^ Suc j)"
    by (simp_all only: of_nat_le_iff of_nat_less_iff)
  then show ?thesis using assms j by (simp add: power_int_add)
qed

lemma point_pos_bounds:
  assumes "0 < x"
  shows "10 powi (point_pos x - 1) \<le> x \<and> x < 10 powi point_pos x"
proof -
  obtain a b where ab: "quotient_of x = (a, b)" by (cases "quotient_of x") auto
  then have b: "0 < b" and x: "x = of_int a / of_int b"
    by (auto dest: quotient_of_denom_pos quotient_of_div)
  with assms have a: "0 < a" by (simp add: zero_less_divide_iff)
  define la lb where "la = int (length (itoa (nat a)))" and "lb = int (length (itoa (nat b)))"
  note A = itoa_bounds_rat [OF a, folded la_def] and B = itoa_bounds_rat [OF b, folded lb_def]
  have pos: "0 < (of_int b :: rat)" "0 < (10::rat) powi (lb - 1)" "0 < (10::rat) powi lb" using b by simp_all
  have "10 powi (la - 1) / 10 powi lb \<le> x" unfolding x
    using A B pos a b by (intro frac_le) auto
  then have lo: "10 powi (la - lb - 1) \<le> x" by (simp add: power_int_diff)
  have "x < 10 powi la / 10 powi (lb - 1)" unfolding x
    using A B pos a by (intro frac_less) auto
  then have hi: "x < 10 powi (la - lb + 1)" by (simp add: power_int_diff power_int_add)
  show ?thesis
    using lo hi by (auto simp: point_pos_def ab Let_def la_def [symmetric] lb_def [symmetric] pow10_powi)
qed

lemma digits_at_reads:
  "digits_at x p n = Some c \<Longrightarrow> f64_of_rat (of_int c * pow10 (p - int n)) = Fin x"
  using round_even_floor_or_Suc [of "x / pow10 (p - int n)"]
  by (auto simp: digits_at_def Let_def split: if_splits)

lemma f64_of_rat_close:
  assumes "0 < x" "is_f64 (Fin x)" "0 < y" "\<bar>y - x\<bar> \<le> x / (2 * 10 ^ 16)"
  shows "f64_of_rat y = Fin x"
proof -
  have "rnd_pos x = x" using assms(1,2) by (simp add: is_f64_Fin rnd_def)
  from rnd_pos_close [OF assms(1) this assms(3,4)] have "rnd y = x" using assms(3) by (simp add: rnd_def)
  with assms(2) show ?thesis by (simp add: is_f64_Fin f64_of_rat_Fin)
qed

text \<open>Seventeen digits determine a value.\<close>

lemma seventeen_digits:
  assumes x: "0 < x" "is_f64 (Fin x)" and u: "u = pow10 (point_pos x - 17)"
  shows "f64_of_rat (of_int (round_even (x / u)) * u) = Fin x"
proof (rule f64_of_rat_close [OF x])
  have pos: "0 < u" by (simp add: u pow10_powi)
  let ?c = "of_int (round_even (x / u)) :: rat"
  have "(10::rat) powi ((point_pos x - 17) + 16) = 10 powi (point_pos x - 17) * 10 powi 16"
    by (rule power_int_add) simp
  moreover have "point_pos x - 17 + 16 = point_pos x - 1" by simp
  ultimately have "10 powi (point_pos x - 1) = u * 10 ^ 16" by (simp add: u pow10_powi)
  then have ux: "u * 10 ^ 16 \<le> x" using point_pos_bounds [OF x(1)] by simp
  have "\<bar>?c - x / u\<bar> \<le> 1 / 2" using round_even_near [of "x / u"] by linarith
  then have "\<bar>?c - x / u\<bar> * u \<le> 1 / 2 * u" using pos by (intro mult_right_mono) auto
  moreover have "\<bar>?c - x / u\<bar> * u = \<bar>?c * u - x\<bar>"
    using pos by (subst abs_of_pos [OF pos, symmetric], subst abs_mult [symmetric]) (simp add: algebra_simps)
  ultimately have d: "\<bar>?c * u - x\<bar> \<le> u / 2" by simp
  also have "\<dots> \<le> x / (2 * 10 ^ 16)" using ux by simp
  finally show "\<bar>?c * u - x\<bar> \<le> x / (2 * 10 ^ 16)" .
  have "x - ?c * u \<le> u / 2" using d unfolding abs_le_iff by linarith
  moreover have "u < u * 10 ^ 16" using pos by simp
  ultimately show "0 < ?c * u" using ux pos by linarith
qed

lemma shortest_from_reads:
  assumes x: "0 < x" "is_f64 (Fin x)"
  shows "n + fuel = 17 \<Longrightarrow> shortest_from x (point_pos x) n fuel = (c, m) \<Longrightarrow>
    f64_of_rat (of_int c * pow10 (point_pos x - int m)) = Fin x"
proof (induction fuel arbitrary: n)
  case 0
  then show ?case using seventeen_digits [OF x refl] by auto
next
  case (Suc fuel)
  then show ?case using Suc.IH [of "Suc n"] Suc.prems by (auto split: option.splits dest: digits_at_reads)
qed

lemma pow10_add: "pow10 (a + b) = pow10 a * pow10 b"
  by (simp add: pow10_powi power_int_add)

lemma pow10_nat [simp]: "pow10 (int n) = 10 ^ n"
  by (simp add: pow10_def)

lemma hd_itoa: "0 < n \<Longrightarrow> hd (itoa n) \<noteq> CHR ''0''"
proof (induction n rule: itoa.induct)
  case (1 n)
  show ?case
  proof (cases "n < 10")
    case True
    have "digit_char n \<noteq> CHR ''0''"
    proof
      assume e: "digit_char n = CHR ''0''"
      have "digit_val (digit_char n) = n" using True by simp
      then have "digit_val (CHR ''0'') = n" by (simp only: e)
      with zero_digit 1(2) show False by simp
    qed
    then show ?thesis using True by (simp add: itoa.simps)
  next
    case False
    then show ?thesis using 1 itoa_digits [of "n div 10"] by (subst itoa.simps) simp
  qed
qed

text \<open>What \<open>shortest\<close> returns is the value it was given, without leading zeros.\<close>

lemma shortest_reads:
  assumes x: "0 < x" "is_f64 (Fin x)" and s: "shortest x = (ds, p)"
  shows "ds \<noteq> []" "list_all is_digit ds" "hd ds \<noteq> CHR ''0''"
    "f64_of_rat (of_nat (digits_val ds) * pow10 (p - int (length ds))) = Fin x"
proof -
  obtain c n where cn: "shortest_from x (point_pos x) 1 16 = (c, n)" by (cases "shortest_from x (point_pos x) 1 16") auto
  then have reads: "f64_of_rat (of_int c * pow10 (point_pos x - int n)) = Fin x"
    using shortest_from_reads [OF x, of 1 16] by simp
  have c: "0 < c"
  proof (rule ccontr)
    assume "\<not> 0 < c"
    then have "(of_int c :: rat) * pow10 (point_pos x - int n) \<le> 0" by (simp add: mult_nonpos_nonneg pow10_powi)
    then have "rnd (of_int c * pow10 (point_pos x - int n)) \<le> 0" by (rule rnd_nonpos)
    with reads x(1) show False by (simp add: f64_of_rat_def Let_def split: if_splits)
  qed
  let ?s = "itoa (nat c)"
  obtain z where z: "?s = ds @ replicate z (CHR ''0'')"
    using s cn strip_zeros_split [of ?s] by (auto simp: shortest_def Let_def)
  have p: "p = point_pos x + int (length ?s) - int n" using s cn by (simp add: shortest_def Let_def)
  have dig: "list_all is_digit ?s" "?s \<noteq> []" using itoa_digits by auto
  show "list_all is_digit ds" using dig(1) by (simp add: z)
  have hd: "hd ?s \<noteq> CHR ''0''" using hd_itoa [of "nat c"] c by simp
  show ne: "ds \<noteq> []"
  proof
    assume "ds = []"
    with z hd dig(2) show False by (cases z) auto
  qed
  then show "hd ds \<noteq> CHR ''0''" using hd z by simp
  have "digits_val ?s = digits_val ds * 10 ^ z" by (simp add: z digits_val_snoc_zeros)
  then have "(of_int c :: rat) = of_nat (digits_val ds) * 10 ^ z"
    using c by (simp add: digits_val_itoa) (metis of_nat_mult of_nat_numeral of_nat_power of_nat_nat order_less_imp_le of_int_of_nat_eq)
  moreover have "p - int (length ds) = int z + (point_pos x - int n)" by (simp add: p z)
  ultimately have "of_nat (digits_val ds) * pow10 (p - int (length ds)) = of_int c * pow10 (point_pos x - int n)"
    by (simp add: pow10_add)
  with reads show "f64_of_rat (of_nat (digits_val ds) * pow10 (p - int (length ds))) = Fin x" by simp
qed

end
