(* ===== verification/Go_Url.thy ===== *)
theory Go_Url
  imports Prelude
begin

text \<open>
  Query strings of \<open>net/url\<close>: \<open>url.Values.Encode\<close> as the example client calls it, and
  \<open>r.URL.Query().Get\<close> as the handlers do.
\<close>

section \<open>Escaping\<close>

text \<open>Letters, digits and the four marks, by their byte values.\<close>

definition unreserved :: "char \<Rightarrow> bool" where
  "unreserved c \<longleftrightarrow>
     (let n = of_char c :: nat
      in n = 45 \<or> n = 46 \<or> n = 95 \<or> n = 126 \<or> 48 \<le> n \<and> n \<le> 57 \<or> 65 \<le> n \<and> n \<le> 90 \<or> 97 \<le> n \<and> n \<le> 122)"

definition upper_hex :: "nat \<Rightarrow> char" where
  "upper_hex n = (if n < 10 then char_of (48 + n) else char_of (55 + n))"

definition hex_value :: "char \<Rightarrow> nat option" where
  "hex_value c =
     (if CHR ''0'' \<le> c \<and> c \<le> CHR ''9'' then Some (of_char c - 48)
      else if CHR ''a'' \<le> c \<and> c \<le> CHR ''f'' then Some (of_char c - 87)
      else if CHR ''A'' \<le> c \<and> c \<le> CHR ''F'' then Some (of_char c - 55)
      else None)"

definition escape_byte :: "char \<Rightarrow> string" where
  "escape_byte c =
     (if unreserved c then [c]
      else if c = CHR '' '' then ''+''
      else [CHR ''%'', upper_hex (of_char c div 16), upper_hex (of_char c mod 16)])"

definition query_escape :: "string \<Rightarrow> string" where
  "query_escape s = concat (map escape_byte s)"

fun query_unescape :: "string \<Rightarrow> string option" where
  "query_unescape [] = Some []"
| "query_unescape (c # s) =
     (if c = CHR ''%''
      then case s of
             a # b # t \<Rightarrow>
               (case (hex_value a, hex_value b) of
                  (Some x, Some y) \<Rightarrow> map_option (Cons (char_of (16 * x + y))) (query_unescape t)
                | _ \<Rightarrow> None)
           | _ \<Rightarrow> None
      else map_option (Cons (if c = CHR ''+'' then CHR '' '' else c)) (query_unescape s))"

section \<open>Queries\<close>

text \<open>\<open>Encode\<close> for one value per key; the keys are given in their sorted order.\<close>

fun encode_values :: "(string \<times> string) list \<Rightarrow> string" where
  "encode_values [] = []"
| "encode_values [(k, v)] = query_escape k @ ''='' @ query_escape v"
| "encode_values ((k, v) # kvs) = query_escape k @ ''='' @ query_escape v @ ''&'' @ encode_values kvs"

text \<open>\<open>strings.Cut\<close> at a byte.\<close>

definition cut_at :: "char \<Rightarrow> string \<Rightarrow> string \<times> string" where
  "cut_at c s = (takeWhile (\<lambda>d. d \<noteq> c) s, drop 1 (dropWhile (\<lambda>d. d \<noteq> c) s))"

text \<open>One \<open>&\<close>-separated piece: pieces that are empty, hold a semicolon or do not unescape are skipped.\<close>

definition query_pair :: "string \<Rightarrow> (string \<times> string) option" where
  "query_pair s =
     (if CHR '';'' \<in> set s \<or> s = [] then None
      else let (k, v) = cut_at (CHR ''='') s
           in case (query_unescape k, query_unescape v) of
                (Some k', Some v') \<Rightarrow> Some (k', v')
              | _ \<Rightarrow> None)"

definition parse_query :: "string \<Rightarrow> (string \<times> string) list" where
  "parse_query raw = List.map_filter query_pair (split_on (CHR ''&'') raw)"

definition query_get :: "string \<Rightarrow> string \<Rightarrow> string" where
  "query_get raw key = (case map_of (parse_query raw) key of Some v \<Rightarrow> v | None \<Rightarrow> [])"

section \<open>Reading back an encoded query\<close>

lemma hex_value_upper [simp]: "n < 16 \<Longrightarrow> hex_value (upper_hex n) = Some n"
proof -
  assume "n < 16"
  moreover have "list_all (\<lambda>n. hex_value (upper_hex n) = Some n) [0..<16]" by code_simp
  ultimately show ?thesis by (simp add: list_all_iff del: upt_rec_numeral upt_Suc)
qed

lemma of_char_split: "(of_char c :: nat) div 16 < 16" "16 * (of_char c div 16) + of_char c mod 16 = (of_char c :: nat)"
  using nat_of_char_less_256 [of c] by (auto intro: less_mult_imp_div_less)

lemma unreserved_plain: "unreserved c \<Longrightarrow> c \<noteq> CHR ''%'' \<and> c \<noteq> CHR ''+'' \<and> c \<noteq> CHR ''&'' \<and> c \<noteq> CHR ''='' \<and> c \<noteq> CHR '';''"
proof -
  have "\<not> unreserved (CHR ''%'')" "\<not> unreserved (CHR ''+'')" "\<not> unreserved (CHR ''&'')"
    "\<not> unreserved (CHR ''='')" "\<not> unreserved (CHR '';'')" by code_simp+
  then show "unreserved c \<Longrightarrow> ?thesis" by blast
qed

lemma upper_hex_plain: "n < 16 \<Longrightarrow> unreserved (upper_hex n)"
  by (cases "n < 10") (simp_all add: unreserved_def upper_hex_def Let_def)

lemma unescape_byte: "query_unescape (escape_byte c @ s) = map_option (Cons c) (query_unescape s)"
  using unreserved_plain [of c] of_char_split [of c]
  by (auto simp: escape_byte_def split: option.split)

lemma unescape_escape [simp]: "query_unescape (query_escape s) = Some s"
  by (induction s) (auto simp: query_escape_def unescape_byte)

lemma escape_clean: "c \<in> set (query_escape s) \<Longrightarrow> c \<noteq> CHR ''&'' \<and> c \<noteq> CHR ''='' \<and> c \<noteq> CHR '';''"
proof -
  assume "c \<in> set (query_escape s)"
  then obtain d where "c \<in> set (escape_byte d)" by (auto simp: query_escape_def)
  moreover have "(of_char d :: nat) mod 16 < 16" by simp
  ultimately show ?thesis
    using unreserved_plain [of c] upper_hex_plain [of "of_char d div 16"] upper_hex_plain [of "of_char d mod 16"]
      of_char_split(1) [of d]
    by (auto simp: escape_byte_def split: if_splits)
qed

lemma split_on_plain: "c \<notin> set s \<Longrightarrow> split_on c s = [s]"
  by (induction s) auto

lemma split_on_append: "c \<notin> set s \<Longrightarrow> split_on c (s @ c # t) = s # split_on c t"
  by (induction s) auto

lemma query_pair_encoded [simp]: "query_pair (query_escape k @ ''='' @ query_escape v) = Some (k, v)"
proof -
  have "CHR ''='' \<notin> set (query_escape k)" "CHR '';'' \<notin> set (query_escape k @ ''='' @ query_escape v)"
    using escape_clean by fastforce+
  then show ?thesis by (simp add: query_pair_def cut_at_def takeWhile_tail takeWhile_append dropWhile_append)
qed

lemma parse_encoded: "kvs \<noteq> [] \<Longrightarrow> parse_query (encode_values kvs) = kvs"
proof (induction kvs rule: encode_values.induct)
  case (2 k v)
  have "CHR ''&'' \<notin> set (query_escape k @ ''='' @ query_escape v)" using escape_clean by fastforce
  then show ?case using query_pair_encoded [of k v]
    by (simp add: parse_query_def split_on_plain List.map_filter_simps del: query_pair_encoded)
next
  case (3 k v kv kvs)
  have "CHR ''&'' \<notin> set (query_escape k @ ''='' @ query_escape v)" using escape_clean by fastforce
  from split_on_append [OF this, of "encode_values (kv # kvs)"] 3 query_pair_encoded [of k v] show ?case
    by (simp add: parse_query_def List.map_filter_simps del: query_pair_encoded)
qed simp

lemma query_get_encoded: "map_of kvs k = Some v \<Longrightarrow> query_get (encode_values kvs) k = v"
  by (cases "kvs = []") (auto simp: query_get_def parse_encoded)

end
