(* ===== verification/Json_Strings.thy ===== *)
theory Json_Strings
  imports Go_Url
begin

text \<open>
  Strings as \<open>encoding/json\<close> of Go 1.23 writes and reads them: UTF-8, the escapes of the encoder (HTML
  escapes included, U+FFFD for every byte that is not UTF-8), the scanner's view of a quoted string and
  its unquoting with surrogate pairs.  Whatever the encoder writes is one string to the scanner
  (\<open>scan_escape\<close>) and unquotes to the UTF-8 part of the original (\<open>unquote_escape\<close>).
\<close>

section \<open>UTF-8\<close>

definition byte_in :: "nat \<Rightarrow> nat \<Rightarrow> char \<Rightarrow> bool" where
  "byte_in lo hi c \<longleftrightarrow> lo \<le> of_char c \<and> (of_char c :: nat) \<le> hi"

definition cont :: "char \<Rightarrow> bool" where
  "cont = byte_in 128 191"

text \<open>The range of the second byte and the number of bytes, by the first byte.\<close>

definition rune_shape :: "char \<Rightarrow> (nat \<times> nat \<times> nat) option" where
  "rune_shape c =
     (let b = (of_char c :: nat)
      in if b < 194 then None
         else if b < 224 then Some (2, 128, 191)
         else if b = 224 then Some (3, 160, 191)
         else if b = 237 then Some (3, 128, 159)
         else if b < 240 then Some (3, 128, 191)
         else if b = 240 then Some (4, 144, 191)
         else if b < 244 then Some (4, 128, 191)
         else if b = 244 then Some (4, 128, 143)
         else None)"

definition ascii :: "char \<Rightarrow> bool" where
  "ascii c \<longleftrightarrow> (of_char c :: nat) < 128"

text \<open>The size of the rune a string starts with, when its encoding is valid and has several bytes.\<close>

definition rune_size :: "string \<Rightarrow> nat option" where
  "rune_size s =
     (case s of
        c # d # t \<Rightarrow>
          (case rune_shape c of
             None \<Rightarrow> None
           | Some (n, lo, hi) \<Rightarrow>
             if byte_in lo hi d \<and> n - 2 \<le> length t \<and> list_all cont (take (n - 2) t) then Some n else None)
      | _ \<Rightarrow> None)"

lemma rune_shape_facts: "rune_shape c = Some (n, lo, hi) \<Longrightarrow> 2 \<le> n \<and> n \<le> 4 \<and> 128 \<le> lo \<and> \<not> ascii c"
  by (auto simp: rune_shape_def ascii_def Let_def split: if_splits)

lemma rune_size_facts:
  assumes "rune_size s = Some n"
  shows "2 \<le> n" "n \<le> 4" "n \<le> length s" "list_all (\<lambda>c. \<not> ascii c) (take n s)" "rune_size (take n s @ t) = Some n"
proof -
  obtain c d u lo hi where s: "s = c # d # u" "rune_shape c = Some (n, lo, hi)" "byte_in lo hi d"
    "n - 2 \<le> length u" "list_all cont (take (n - 2) u)"
    using assms by (auto simp: rune_size_def split: list.splits option.splits if_splits)
  note f = rune_shape_facts [OF s(2)]
  show "2 \<le> n" "n \<le> 4" using f by auto
  show len: "n \<le> length s" using s(1,4) f by simp
  obtain k where k: "n = Suc (Suc k)" using f by (metis add_2_eq_Suc le_Suc_ex)
  show "list_all (\<lambda>c. \<not> ascii c) (take n s)"
    using s f by (auto simp: k byte_in_def ascii_def cont_def list_all_iff)
  show "rune_size (take n s @ t) = Some n"
    using s f by (simp add: k rune_size_def)
qed

definition replacement :: string where
  "replacement = [CHR 0xEF, CHR 0xBF, CHR 0xBD]"

text \<open>A string with every byte that is not part of a valid encoding replaced by U+FFFD.\<close>

function to_valid :: "string \<Rightarrow> string" where
  "to_valid [] = []"
| "to_valid (c # s) =
     (if ascii c then c # to_valid s
      else case rune_size (c # s) of
             None \<Rightarrow> replacement @ to_valid s
           | Some n \<Rightarrow> take n (c # s) @ to_valid (drop n (c # s)))"
  by pat_completeness auto
termination by (relation "measure length") (auto dest: rune_size_facts(1))

definition valid_utf8 :: "string \<Rightarrow> bool" where
  "valid_utf8 s \<longleftrightarrow> to_valid s = s"

definition utf8_encode :: "nat \<Rightarrow> string" where
  "utf8_encode r =
     (if r < 128 then [char_of r]
      else if r < 2048 then [char_of (192 + r div 64), char_of (128 + r mod 64)]
      else if 55296 \<le> r \<and> r < 57344 \<or> 1114111 < r then replacement
      else if r < 65536 then [char_of (224 + r div 4096), char_of (128 + r div 64 mod 64), char_of (128 + r mod 64)]
      else [char_of (240 + r div 262144), char_of (128 + r div 4096 mod 64), char_of (128 + r div 64 mod 64), char_of (128 + r mod 64)])"

section \<open>Strings\<close>

definition dquote :: char where "dquote = CHR 0x22"
definition bslash :: char where "bslash = CHR 0x5C"

definition lower_hex :: "nat \<Rightarrow> char" where
  "lower_hex n = ''0123456789abcdef'' ! n"

text \<open>\<open>appendString\<close> with HTML escapes, without the quotes.\<close>

definition escape_ascii :: "char \<Rightarrow> string" where
  "escape_ascii c =
     (let b = (of_char c :: nat)
      in if c = dquote \<or> c = bslash then [bslash, c]
         else if b = 8 then bslash # ''b''
         else if b = 12 then bslash # ''f''
         else if b = 10 then bslash # ''n''
         else if b = 13 then bslash # ''r''
         else if b = 9 then bslash # ''t''
         else if b < 32 \<or> c = CHR ''<'' \<or> c = CHR ''>'' \<or> c = CHR ''&'' then
           bslash # ''u00'' @ [lower_hex (b div 16), lower_hex (b mod 16)]
         else [c])"

definition escape_rune :: "string \<Rightarrow> string" where
  "escape_rune r =
     (if r = [CHR 0xE2, CHR 0x80, CHR 0xA8] then bslash # ''u2028''
      else if r = [CHR 0xE2, CHR 0x80, CHR 0xA9] then bslash # ''u2029''
      else r)"

function escape_runes :: "(char \<Rightarrow> string) \<Rightarrow> string \<Rightarrow> string" where
  "escape_runes esc [] = []"
| "escape_runes esc (c # s) =
     (if ascii c then esc c @ escape_runes esc s
      else case rune_size (c # s) of
             None \<Rightarrow> bslash # ''ufffd'' @ escape_runes esc s
           | Some n \<Rightarrow> escape_rune (take n (c # s)) @ escape_runes esc (drop n (c # s)))"
  by pat_completeness auto
termination by (relation "measure (\<lambda>(_, s). length s)") (auto dest: rune_size_facts(1))

definition escape_string :: "string \<Rightarrow> string" where
  "escape_string = escape_runes escape_ascii"

text \<open>The copy of it in \<open>log/slog\<close>: no HTML escapes, and backspace and form feed in hexadecimal.\<close>

definition slog_ascii :: "char \<Rightarrow> string" where
  "slog_ascii c =
     (let b = (of_char c :: nat)
      in if c = dquote \<or> c = bslash then [bslash, c]
         else if b = 10 then bslash # ''n''
         else if b = 13 then bslash # ''r''
         else if b = 9 then bslash # ''t''
         else if b < 32 then bslash # ''u00'' @ [lower_hex (b div 16), lower_hex (b mod 16)]
         else [c])"

definition slog_string :: "string \<Rightarrow> string" where
  "slog_string = escape_runes slog_ascii"

fun hex_nat :: "nat \<Rightarrow> string \<Rightarrow> nat option" where
  "hex_nat acc [] = Some acc"
| "hex_nat acc (c # s) = (case hex_value c of None \<Rightarrow> None | Some v \<Rightarrow> hex_nat (16 * acc + v) s)"

text \<open>\<open>getu4\<close> after the letter \<open>u\<close>.\<close>

definition hex4 :: "string \<Rightarrow> nat option" where
  "hex4 s = (if 4 \<le> length s then hex_nat 0 (take 4 s) else None)"

text \<open>The scanner in a string: what stands before the closing quote, unchanged, and what follows it.\<close>

function scan_string :: "string \<Rightarrow> (string \<times> string) option" where
  "scan_string [] = None"
| "scan_string (c # s) =
     (if c = dquote then Some ([], s)
      else if c = bslash then
        (case s of
           [] \<Rightarrow> None
         | e # t \<Rightarrow>
           if e = CHR ''u'' then
             (if hex4 t = None then None
              else map_option (\<lambda>(r, u). (c # e # take 4 t @ r, u)) (scan_string (drop 4 t)))
           else if e \<in> set (dquote # bslash # ''/bfnrt'')
           then map_option (\<lambda>(r, u). (c # e # r, u)) (scan_string t)
           else None)
      else if (of_char c :: nat) < 32 then None
      else map_option (\<lambda>(r, u). (c # r, u)) (scan_string s))"
  by pat_completeness auto
termination by (relation "measure length") auto

definition unescape :: "char \<Rightarrow> char" where
  "unescape e =
     (if e = CHR ''b'' then CHR 0x08 else if e = CHR ''f'' then CHR 0x0C else if e = CHR ''n'' then CHR 0x0A
      else if e = CHR ''r'' then CHR 0x0D else if e = CHR ''t'' then CHR 0x09 else e)"

definition surrogate :: "nat \<Rightarrow> bool" where
  "surrogate r \<longleftrightarrow> 55296 \<le> r \<and> r < 57344"

text \<open>\<open>utf16.DecodeRune\<close> on the rune and the escape that follows.\<close>

definition surrogate_pair :: "nat \<Rightarrow> string \<Rightarrow> nat option" where
  "surrogate_pair r t =
     (case t of
        b # u # h \<Rightarrow>
          if b = bslash \<and> u = CHR ''u'' \<and> r < 56320 then
            (case hex4 h of
               None \<Rightarrow> None
             | Some r2 \<Rightarrow>
               if 56320 \<le> r2 \<and> r2 < 57344 then Some ((r - 55296) * 1024 + (r2 - 56320) + 65536) else None)
          else None
      | _ \<Rightarrow> None)"

text \<open>\<open>unquoteBytes\<close> on what stands between the quotes.\<close>

function unquote :: "string \<Rightarrow> string" where
  "unquote [] = []"
| "unquote (c # s) =
     (if c = bslash then
        (case s of
           [] \<Rightarrow> []
         | e # t \<Rightarrow>
           if e = CHR ''u'' then
             (case hex4 t of
                None \<Rightarrow> []
              | Some r \<Rightarrow>
                if surrogate r then
                  (case surrogate_pair r (drop 4 t) of
                     Some r2 \<Rightarrow> utf8_encode r2 @ unquote (drop 10 t)
                   | None \<Rightarrow> replacement @ unquote (drop 4 t))
                else utf8_encode r @ unquote (drop 4 t))
           else unescape e # unquote t)
      else if ascii c then c # unquote s
      else case rune_size (c # s) of
             None \<Rightarrow> replacement @ unquote s
           | Some n \<Rightarrow> take n (c # s) @ unquote (drop n (c # s)))"
  by pat_completeness auto
termination by (relation "measure length") (auto dest: rune_size_facts(1))

declare to_valid.simps(2) [simp del] escape_runes.simps(2) [simp del] scan_string.simps(2) [simp del] unquote.simps(2) [simp del]

lemma quote_chars [simp]: "bslash \<noteq> dquote" "dquote \<noteq> bslash" "CHR ''u'' \<noteq> dquote" "CHR ''u'' \<noteq> bslash"
  by (simp_all add: bslash_def dquote_def)

lemma hex4_append [simp]: "length h = 4 \<Longrightarrow> hex4 (h @ t) = hex4 h"
  by (simp add: hex4_def)

lemma hex_vals: "hex_value (CHR ''2'') = Some 2" "hex_value (CHR ''0'') = Some 0" "hex_value (CHR ''8'') = Some 8"
    "hex_value (CHR ''9'') = Some 9" "hex_value (CHR ''f'') = Some 15" "hex_value (CHR ''d'') = Some 13"
  by code_simp+

lemma hex4_consts: "hex4 ''2028'' = Some 8232" "hex4 ''2029'' = Some 8233" "hex4 ''fffd'' = Some 65533"
  by (simp_all add: hex4_def hex_vals)

lemma utf8_consts:
  "utf8_encode 8232 = [CHR 0xE2, CHR 0x80, CHR 0xA8]" "utf8_encode 8233 = [CHR 0xE2, CHR 0x80, CHR 0xA9]"
  "utf8_encode 65533 = replacement" "\<not> surrogate 8232" "\<not> surrogate 8233" "\<not> surrogate 65533"
  by (simp_all add: utf8_encode_def replacement_def char_of_def bit_0 surrogate_def)

lemma hex_val_digit: "n < 16 \<Longrightarrow> hex_value (lower_hex n) = Some n"
proof -
  have "list_all (\<lambda>n. hex_value (lower_hex n) = Some n) [0..<16]" by code_simp
  then show "n < 16 \<Longrightarrow> hex_value (lower_hex n) = Some n" by (simp add: list_all_iff)
qed

lemma of_char_eqD: "(of_char c :: nat) = n \<Longrightarrow> c = char_of n"
  by (metis char_of_char)

text \<open>
  The three forms of an escaped byte: itself, a backslash and a letter, or a backslash, \<open>u\<close> and four
  hexadecimal digits.
\<close>

definition escaped_as :: "char \<Rightarrow> string \<Rightarrow> bool" where
  "escaped_as c e \<longleftrightarrow>
     (e = [c] \<and> c \<noteq> dquote \<and> c \<noteq> bslash \<and> 32 \<le> (of_char c :: nat)) \<or>
     (\<exists>x. e = [bslash, x] \<and> x \<noteq> CHR ''u'' \<and> x \<in> set (dquote # bslash # ''/bfnrt'') \<and> unescape x = c) \<or>
     (\<exists>h. e = bslash # CHR ''u'' # h \<and> length h = 4 \<and> hex4 h = Some (of_char c))"

lemma escaped_hex:
  assumes "ascii c"
  shows "escaped_as c (bslash # ''u00'' @ [lower_hex (of_char c div 16), lower_hex (of_char c mod 16)])"
proof -
  let ?b = "of_char c :: nat"
  have "?b div 16 < 16" "?b mod 16 < 16" using assms by (auto simp: ascii_def)
  then have "hex4 [CHR ''0'', CHR ''0'', lower_hex (?b div 16), lower_hex (?b mod 16)] = Some ?b"
    by (simp add: hex4_def hex_val_digit hex_vals)
  then show ?thesis unfolding escaped_as_def by simp
qed

lemma escaped_letter: "(of_char c :: nat) = n \<Longrightarrow> unescape x = char_of n \<Longrightarrow> x \<in> set ''bfnrt'' \<Longrightarrow> escaped_as c [bslash, x]"
  using of_char_eqD [of c n] by (auto simp: escaped_as_def)

lemma unescape_letters:
  "unescape (CHR ''b'') = char_of (8 :: nat)" "unescape (CHR ''f'') = char_of (12 :: nat)"
  "unescape (CHR ''n'') = char_of (10 :: nat)" "unescape (CHR ''r'') = char_of (13 :: nat)"
  "unescape (CHR ''t'') = char_of (9 :: nat)"
  by (simp_all add: unescape_def char_of_def bit_0)

lemma escaped_self: "c = dquote \<or> c = bslash \<Longrightarrow> escaped_as c [bslash, c]"
  by (auto simp: escaped_as_def unescape_def dquote_def bslash_def)

lemma escaped_plain: "c \<noteq> dquote \<Longrightarrow> c \<noteq> bslash \<Longrightarrow> 32 \<le> (of_char c :: nat) \<Longrightarrow> escaped_as c [c]"
  by (simp add: escaped_as_def)

lemma escape_ascii_escapes: "ascii c \<Longrightarrow> escaped_as c (escape_ascii c)"
  using escaped_hex [of c] escaped_self [of c] escaped_plain [of c] escaped_letter [OF _ unescape_letters(1), of c]
    escaped_letter [OF _ unescape_letters(2), of c] escaped_letter [OF _ unescape_letters(3), of c]
    escaped_letter [OF _ unescape_letters(4), of c] escaped_letter [OF _ unescape_letters(5), of c]
  by (simp add: escape_ascii_def Let_def)

lemma slog_ascii_escapes: "ascii c \<Longrightarrow> escaped_as c (slog_ascii c)"
  using escaped_hex [of c] escaped_self [of c] escaped_plain [of c] escaped_letter [OF _ unescape_letters(3), of c]
    escaped_letter [OF _ unescape_letters(4), of c] escaped_letter [OF _ unescape_letters(5), of c]
  by (simp add: slog_ascii_def Let_def)

lemma scan_string_plain:
  "list_all (\<lambda>c. \<not> ascii c) xs \<Longrightarrow> scan_string (xs @ t) = map_option (\<lambda>(r, u). (xs @ r, u)) (scan_string t)"
proof (induction xs)
  case (Cons c xs)
  then have "c \<noteq> dquote" "c \<noteq> bslash" "\<not> (of_char c :: nat) < 32" by (auto simp: ascii_def dquote_def bslash_def)
  then show ?case using Cons by (simp add: scan_string.simps(2)) (cases "scan_string t"; simp add: case_prod_unfold)
qed (cases "scan_string t"; simp)

lemma scan_string_u: "length h = 4 \<Longrightarrow> hex4 h \<noteq> None \<Longrightarrow>
  scan_string (bslash # CHR ''u'' # h @ t) = map_option (\<lambda>(r, u). (bslash # CHR ''u'' # h @ r, u)) (scan_string t)"
  by (auto simp: scan_string.simps(2) [of bslash])

lemma scan_escape_rune:
  assumes "list_all (\<lambda>c. \<not> ascii c) r"
  shows "scan_string (escape_rune r @ t) = map_option (\<lambda>(x, u). (escape_rune r @ x, u)) (scan_string t)"
proof -
  note u = scan_string_u [of "''2028''" t] scan_string_u [of "''2029''" t]
  consider "escape_rune r = r" | "escape_rune r = bslash # ''u2028''" | "escape_rune r = bslash # ''u2029''"
    unfolding escape_rune_def by argo
  then show ?thesis using scan_string_plain [OF assms] u by cases (simp_all add: hex4_consts)
qed

lemma unquote_u: "length h = 4 \<Longrightarrow> hex4 h = Some r \<Longrightarrow> \<not> surrogate r \<Longrightarrow>
  unquote (bslash # CHR ''u'' # h @ t) = utf8_encode r @ unquote t"
  by (simp add: unquote.simps(2) [of bslash] hex4_def)

lemma unquote_rune:
  assumes "rune_size s = Some n" "r = take n s"
  shows "unquote (r @ t) = r @ unquote t"
proof -
  note f = rune_size_facts [OF assms(1)]
  have len: "length r = n" using f(3) assms(2) by simp
  then obtain c u where r: "r = c # u" using f(1) by (cases r) auto
  have "list_all (\<lambda>c. \<not> ascii c) r" using f(4) unfolding assms(2) .
  then have na: "\<not> ascii c" by (simp add: r)
  moreover note r len
  moreover have "c \<noteq> bslash" using na by (auto simp: ascii_def bslash_def)
  moreover have "rune_size (r @ t) = Some n" using f(5) assms(2) by simp
  moreover have "take n (r @ t) = r" "drop n (r @ t) = t" using len by simp_all
  ultimately show ?thesis using unquote.simps(2) [of c "u @ t"] by simp
qed

lemma unquote_escape_rune:
  assumes "rune_size s = Some n" "r = take n s"
  shows "unquote (escape_rune r @ t) = r @ unquote t"
proof -
  consider "escape_rune r = r" | "escape_rune r = bslash # ''u2028''" "r = [CHR 0xE2, CHR 0x80, CHR 0xA8]"
    | "escape_rune r = bslash # ''u2029''" "r = [CHR 0xE2, CHR 0x80, CHR 0xA9]"
    unfolding escape_rune_def by argo
  then show ?thesis
    using unquote_rune [OF assms] unquote_u [of "''2028''" 8232 t] unquote_u [of "''2029''" 8233 t]
    by cases (simp_all add: hex4_consts utf8_consts)
qed

text \<open>A string of the grammar stays on its line.\<close>

lemma hex_nat_digits: "hex_nat n s \<noteq> None \<Longrightarrow> newline \<notin> set s"
proof (induction n s rule: hex_nat.induct)
  case (2 acc c s)
  have "hex_value newline = None" by code_simp
  with 2 show ?case by (auto split: option.splits)
qed simp

lemma scan_string_clean: "scan_string s = Some (r, t) \<Longrightarrow> newline \<notin> set r"
proof (induction s arbitrary: r rule: scan_string.induct)
  case (2 c s)
  have n: "newline \<notin> set (dquote # bslash # ''/bfnrt'')" "newline \<noteq> CHR ''u''" "newline \<noteq> bslash"
    by (simp_all add: newline_def dquote_def bslash_def)
  consider "c = dquote" | e u where "c = bslash" "s = e # u" "e = CHR ''u''" "hex4 u \<noteq> None"
    | e u where "c = bslash" "s = e # u" "e \<noteq> CHR ''u''" "e \<in> set (dquote # bslash # ''/bfnrt'')"
    | "c \<noteq> dquote" "c \<noteq> bslash" "\<not> (of_char c :: nat) < 32"
    using 2(4) unfolding scan_string.simps(2) [of c s] by (simp split: if_splits list.splits)
  then show ?case
  proof cases
    case 1
    then show ?thesis using 2(4) by (simp add: scan_string.simps(2))
  next
    case (2 e u)
    then obtain r' where r: "scan_string (drop 4 u) = Some (r', t)" "r = c # e # take 4 u @ r'"
      using \<open>scan_string (c # s) = Some (r, t)\<close> by (auto simp: scan_string.simps(2))
    then have "newline \<notin> set r'" using 2 by (intro "2.IH"(1) [of e u]) auto
    moreover have "newline \<notin> set (take 4 u)" using 2(4) hex_nat_digits [of 0 "take 4 u"] by (auto simp: hex4_def split: if_splits)
    ultimately show ?thesis using 2(1,3) n r(2) by simp
  next
    case (3 e u)
    then obtain r' where r: "scan_string u = Some (r', t)" "r = c # e # r'"
      using 2(4) by (auto simp: scan_string.simps(2))
    then have "newline \<notin> set r'" using 3 by (intro "2.IH"(2) [of e u]) auto
    then show ?thesis using 3(1,4) n r(2) by auto
  next
    case 4
    then obtain r' where r: "scan_string s = Some (r', t)" "r = c # r'"
      using 2(4) by (auto simp: scan_string.simps(2))
    then have "newline \<notin> set r'" using 4 by (intro "2.IH"(3)) auto
    moreover have "c \<noteq> newline" using 4(3) by (auto simp: newline_def)
    ultimately show ?thesis using r(2) by simp
  qed
qed simp

text \<open>What an escaper of ASCII bytes promises, and what then holds of whole strings.\<close>

locale string_escaper =
  fixes esc :: "char \<Rightarrow> string"
  assumes escapes: "ascii c \<Longrightarrow> escaped_as c (esc c)"
begin

lemma escape_cases:
  assumes "ascii c"
  obtains "esc c = [c]" "c \<noteq> dquote" "c \<noteq> bslash" "32 \<le> (of_char c :: nat)"
  | e where "esc c = [bslash, e]" "e \<noteq> CHR ''u''" "e \<in> set (dquote # bslash # ''/bfnrt'')" "unescape e = c"
  | h where "esc c = bslash # CHR ''u'' # h" "length h = 4" "hex4 h = Some (of_char c)"
  using escapes [OF assms] unfolding escaped_as_def by blast

lemma scan_ascii:
  assumes "ascii c"
  shows "scan_string (esc c @ t) = map_option (\<lambda>(r, u). (esc c @ r, u)) (scan_string t)"
  using assms
  by (cases rule: escape_cases [OF assms])
    (auto simp: scan_string.simps(2) scan_string_u)

lemma unquote_ascii:
  assumes "ascii c"
  shows "unquote (esc c @ t) = c # unquote t"
proof -
  have e: "utf8_encode (of_char c) = [c]" "\<not> surrogate (of_char c)"
    using assms by (auto simp: utf8_encode_def ascii_def surrogate_def)
  show ?thesis
  proof (cases rule: escape_cases [OF assms])
    case 1
    then show ?thesis using assms by (simp add: unquote.simps(2))
  next
    case (2 e)
    then show ?thesis by (simp add: unquote.simps(2) [of bslash])
  next
    case (3 h)
    then show ?thesis using unquote_u [of h] e by simp
  qed
qed

lemma rune_cases:
  obtains "ascii c" | "\<not> ascii c" "rune_size (c # s) = None" | n where "\<not> ascii c" "rune_size (c # s) = Some n"
  by (cases "ascii c"; cases "rune_size (c # s)") simp_all

lemma scan: "scan_string (escape_runes esc s @ dquote # t) = Some (escape_runes esc s, t)"
proof (induction s rule: to_valid.induct)
  case 1
  then show ?case by (simp add: scan_string.simps(2))
next
  case (2 c s)
  show ?case
  proof (cases rule: rune_cases [where c = c and s = s])
    case 1
    then show ?thesis using 2(1) by (simp add: escape_runes.simps(2) scan_ascii)
  next
    case u: 2
    then show ?thesis using 2(2) scan_string_u [of "''fffd''" "escape_runes esc s @ dquote # t"]
      by (simp add: escape_runes.simps(2) hex4_consts)
  next
    case (3 n)
    have "list_all (\<lambda>c. \<not> ascii c) (take n (c # s))" using rune_size_facts(4) [OF 3(2)] .
    then show ?thesis using 2(3) [OF 3] 3 by (simp add: escape_runes.simps(2) scan_escape_rune)
  qed
qed

lemma unquoted: "unquote (escape_runes esc s) = to_valid s"
proof (induction s rule: to_valid.induct)
  case (2 c s)
  show ?case
  proof (cases rule: rune_cases [where c = c and s = s])
    case 1
    then show ?thesis using 2(1) by (simp add: escape_runes.simps(2) to_valid.simps(2) unquote_ascii)
  next
    case u: 2
    then show ?thesis using 2(2) unquote_u [of "''fffd''" 65533 "escape_runes esc s"]
      by (simp add: escape_runes.simps(2) to_valid.simps(2) hex4_consts utf8_consts)
  next
    case (3 n)
    then show ?thesis using 2(3) [OF 3] unquote_escape_rune [OF 3(2) refl, of "escape_runes esc (drop n (c # s))"]
      by (simp add: escape_runes.simps(2) to_valid.simps(2))
  qed
qed simp

lemma one_line: "newline \<notin> set (escape_runes esc s)"
  using scan_string_clean [OF scan] .

end

interpretation json_escaper: string_escaper escape_ascii
  by unfold_locales (rule escape_ascii_escapes)

interpretation slog_escaper: string_escaper slog_ascii
  by unfold_locales (rule slog_ascii_escapes)

lemma scan_escape: "scan_string (escape_string s @ dquote # t) = Some (escape_string s, t)"
  unfolding escape_string_def by (rule json_escaper.scan)

lemma unquote_escape: "unquote (escape_string s) = to_valid s"
  unfolding escape_string_def by (rule json_escaper.unquoted)

end
