(* ===== verification/Go_Json.thy ===== *)
theory Go_Json
  imports Go_Fmt Json_Strings "HOL-Library.AList"
begin

text \<open>
  The package \<open>encoding/json\<close> of Go 1.23 as the program uses it.  Between a text and the Go values stands
  the syntax tree \<open>json\<close>, whose strings are still quoted: the encoder renders a tree without white space,
  the scanner reads one from any JSON text, at most 10000 levels deep, and what was rendered is read
  back (\<open>parse_render\<close>).  The decoders fill in a Go value from a tree; a finite \<open>float64\<close> comes back
  unchanged (\<open>json_of_f64_reads\<close>).  A negative zero, which \<open>f64\<close> does not have, is \<open>-0\<close> in Go.
\<close>

section \<open>Values\<close>

datatype json =
    JNull
  | JBool bool
  | JNum bool string "string option" "int option"
  | JStr string
  | JArr "json list"
  | JObj "(string \<times> json) list"

definition is_ws :: "char \<Rightarrow> bool" where
  "is_ws c \<longleftrightarrow> c \<in> {CHR 0x20, CHR 0x09, CHR 0x0D, CHR 0x0A}"

definition skip_ws :: "string \<Rightarrow> string" where
  "skip_ws = dropWhile is_ws"

definition read_sign :: "string \<Rightarrow> bool \<times> string" where
  "read_sign s = (case s of c # t \<Rightarrow> if c = CHR ''-'' then (True, t) else (False, s) | [] \<Rightarrow> (False, s))"

definition read_digits :: "string \<Rightarrow> (string \<times> string) option" where
  "read_digits s = (if takeWhile is_digit s = [] then None else Some (takeWhile is_digit s, dropWhile is_digit s))"

definition read_int_part :: "string \<Rightarrow> (string \<times> string) option" where
  "read_int_part s =
     (case s of c # t \<Rightarrow> if c = CHR ''0'' then Some (''0'', t) else read_digits s | [] \<Rightarrow> None)"

definition read_frac :: "string \<Rightarrow> (string option \<times> string) option" where
  "read_frac s =
     (case s of
        c # t \<Rightarrow> if c = CHR ''.'' then map_option (\<lambda>(f, u). (Some f, u)) (read_digits t) else Some (None, s)
      | [] \<Rightarrow> Some (None, s))"

definition read_exp :: "string \<Rightarrow> (int option \<times> string) option" where
  "read_exp s =
     (case s of
        c # t \<Rightarrow>
          if c = CHR ''e'' \<or> c = CHR ''E'' then
            let (neg, u) = (case t of d # v \<Rightarrow> if d = CHR ''+'' then (False, v) else read_sign t | [] \<Rightarrow> (False, t))
            in map_option (\<lambda>(ds, w). (Some (if neg then - int (digits_val ds) else int (digits_val ds)), w)) (read_digits u)
          else Some (None, s)
      | [] \<Rightarrow> Some (None, s))"

definition scan_number :: "string \<Rightarrow> (json \<times> string) option" where
  "scan_number s =
     do { let (neg, s) = read_sign s;
          (ip, s) \<leftarrow> read_int_part s;
          (fr, s) \<leftarrow> read_frac s;
          (ex, s) \<leftarrow> read_exp s;
          Some (JNum neg ip fr ex, s) }"

text \<open>\<open>maxNestingDepth\<close>.\<close>

definition max_nesting :: int where
  "max_nesting = 10000"

lemma skip_ws_length: "length (skip_ws s) \<le> length s"
  by (simp add: skip_ws_def length_dropWhile_le)

lemma skip_ws_Cons: "skip_ws s = c # t \<Longrightarrow> length t < length s"
  using skip_ws_length [of s] by simp

lemma scan_string_length: "scan_string s = Some (r, t) \<Longrightarrow> length t < length s"
proof (induction s arbitrary: r rule: scan_string.induct)
  case (2 c s)
  consider "c = dquote" | e u where "c = bslash" "s = e # u" "e = CHR ''u''" "hex4 u \<noteq> None"
    | e u where "c = bslash" "s = e # u" "e \<noteq> CHR ''u''" "e \<in> set (dquote # bslash # ''/bfnrt'')"
    | "c \<noteq> dquote" "c \<noteq> bslash" "\<not> (of_char c :: nat) < 32"
    using 2(4) unfolding scan_string.simps(2) [of c s] by (simp split: if_splits list.splits)
  then show ?case
  proof cases
    case 1
    then show ?thesis using 2(4) by (simp add: scan_string.simps(2))
  next
    case (2 e u)
    then obtain r' where "scan_string (drop 4 u) = Some (r', t)"
      using \<open>scan_string (c # s) = Some (r, t)\<close> by (auto simp: scan_string.simps(2))
    then have "length t < length (drop 4 u)" using 2 by (intro "2.IH"(1) [of e u]) auto
    then show ?thesis using 2 by simp
  next
    case (3 e u)
    then obtain r' where "scan_string u = Some (r', t)"
      using 2(4) by (auto simp: scan_string.simps(2))
    then have "length t < length u" using 3 by (intro "2.IH"(2) [of e u]) auto
    then show ?thesis using 3 by simp
  next
    case 4
    then obtain r' where "scan_string s = Some (r', t)"
      using 2(4) by (auto simp: scan_string.simps(2))
    then have "length t < length s" using 4 by (intro "2.IH"(3)) auto
    then show ?thesis by simp
  qed
qed simp

function (sequential)
  parse_value :: "int \<Rightarrow> string \<Rightarrow> (json \<times> string) option" and
  parse_members :: "int \<Rightarrow> string \<Rightarrow> ((string \<times> json) list \<times> string) option" and
  parse_elems :: "int \<Rightarrow> string \<Rightarrow> (json list \<times> string) option"
where
  "parse_value d s =
     (case skip_ws s of
        [] \<Rightarrow> None
      | c # t \<Rightarrow>
        if c = dquote then map_option (\<lambda>(r, u). (JStr r, u)) (scan_string t)
        else if c = CHR ''{'' then
          (if d \<ge> max_nesting then None
           else case skip_ws t of
                  [] \<Rightarrow> None
                | b # u \<Rightarrow>
                  if b = CHR ''}'' then Some (JObj [], u)
                  else map_option (\<lambda>(ms, v). (JObj ms, v)) (parse_members (d + 1) t))
        else if c = CHR ''['' then
          (if d \<ge> max_nesting then None
           else case skip_ws t of
                  [] \<Rightarrow> None
                | b # u \<Rightarrow>
                  if b = CHR '']'' then Some (JArr [], u)
                  else map_option (\<lambda>(js, v). (JArr js, v)) (parse_elems (d + 1) t))
        else if c = CHR ''t'' then map_option (\<lambda>u. (JBool True, u)) (drop_prefix ''rue'' t)
        else if c = CHR ''f'' then map_option (\<lambda>u. (JBool False, u)) (drop_prefix ''alse'' t)
        else if c = CHR ''n'' then map_option (\<lambda>u. (JNull, u)) (drop_prefix ''ull'' t)
        else scan_number (c # t))"
| "parse_members d s =
     (case skip_ws s of
        [] \<Rightarrow> None
      | c # t \<Rightarrow>
        if c = dquote then
          (case scan_string t of
             None \<Rightarrow> None
           | Some (k, u) \<Rightarrow>
             (case skip_ws u of
                [] \<Rightarrow> None
              | b # v \<Rightarrow>
                if b = CHR '':'' then
                  (case parse_value d v of
                     None \<Rightarrow> None
                   | Some (j, w) \<Rightarrow>
                     (case skip_ws w of
                        [] \<Rightarrow> None
                      | e # x \<Rightarrow>
                        if e = CHR ''}'' then Some ([(k, j)], x)
                        else if e = CHR '','' \<and> length x < length s
                        then map_option (\<lambda>(ms, y). ((k, j) # ms, y)) (parse_members d x)
                        else None))
                else None))
        else None)"
| "parse_elems d s =
     (case parse_value d s of
        None \<Rightarrow> None
      | Some (j, w) \<Rightarrow>
        (case skip_ws w of
           [] \<Rightarrow> None
         | e # x \<Rightarrow>
           if e = CHR '']'' then Some ([j], x)
           else if e = CHR '','' \<and> length x < length s
           then map_option (\<lambda>(js, y). (j # js, y)) (parse_elems d x)
           else None))"
  by pat_completeness auto
termination
  by (relation "measure (\<lambda>a. case a of Inl (d, s) \<Rightarrow> 2 * length s
      | Inr (Inl (d, s)) \<Rightarrow> 2 * length s | Inr (Inr (d, s)) \<Rightarrow> 2 * length s + 1)")
    (auto dest!: skip_ws_Cons scan_string_length)

declare parse_value.simps [simp del] parse_members.simps [simp del] parse_elems.simps [simp del]

fun commas :: "string list \<Rightarrow> string" where
  "commas [] = []"
| "commas [x] = x"
| "commas (x # y # xs) = x @ CHR '','' # commas (y # xs)"

definition quoted :: "string \<Rightarrow> string" where
  "quoted r = dquote # r @ [dquote]"

definition number_text :: "bool \<Rightarrow> string \<Rightarrow> string option \<Rightarrow> int option \<Rightarrow> string" where
  "number_text neg ip fr ex =
     (if neg then ''-'' else []) @ ip @ (case fr of None \<Rightarrow> [] | Some f \<Rightarrow> CHR ''.'' # f) @
     (case ex of None \<Rightarrow> [] | Some n \<Rightarrow> CHR ''e'' # (if n < 0 then CHR ''-'' else CHR ''+'') # itoa (nat \<bar>n\<bar>))"

fun render :: "json \<Rightarrow> string" where
  "render JNull = ''null''"
| "render (JBool b) = (if b then ''true'' else ''false'')"
| "render (JNum neg ip fr ex) = number_text neg ip fr ex"
| "render (JStr r) = quoted r"
| "render (JArr js) = CHR ''['' # commas (map render js) @ '']''"
| "render (JObj ms) = CHR ''{'' # commas (map (\<lambda>(k, j). quoted k @ CHR '':'' # render j) ms) @ ''}''"

text \<open>What the encoder writes: raw strings that come from \<open>escape_string\<close>, numbers of the grammar, at most
  \<open>max_nesting\<close> levels.\<close>

definition raw_string :: "string \<Rightarrow> bool" where
  "raw_string r \<longleftrightarrow> (\<forall>t. scan_string (r @ dquote # t) = Some (r, t))"

definition number_ok :: "string \<Rightarrow> string option \<Rightarrow> bool" where
  "number_ok ip fr \<longleftrightarrow>
     ip \<noteq> [] \<and> list_all is_digit ip \<and> (ip = ''0'' \<or> hd ip \<noteq> CHR ''0'') \<and>
     (case fr of None \<Rightarrow> True | Some f \<Rightarrow> f \<noteq> [] \<and> list_all is_digit f)"

fun well_formed :: "int \<Rightarrow> json \<Rightarrow> bool" where
  "well_formed d JNull = True"
| "well_formed d (JBool b) = True"
| "well_formed d (JNum neg ip fr ex) = number_ok ip fr"
| "well_formed d (JStr r) = raw_string r"
| "well_formed d (JArr js) = (d < max_nesting \<and> (\<forall>j\<in>set js. well_formed (d + 1) j))"
| "well_formed d (JObj ms) = (d < max_nesting \<and> (\<forall>(k, j)\<in>set ms. raw_string k \<and> well_formed (d + 1) j))"

lemma raw_string_escape [simp]: "raw_string (escape_string s)"
  by (simp add: raw_string_def scan_escape)

definition ends_number :: "string \<Rightarrow> bool" where
  "ends_number t \<longleftrightarrow> (case t of [] \<Rightarrow> True | c # u \<Rightarrow> \<not> is_digit c \<and> c \<noteq> CHR ''.'' \<and> c \<noteq> CHR ''e'' \<and> c \<noteq> CHR ''E'')"

lemma read_digits_append:
  assumes "ds \<noteq> []" "list_all is_digit ds" "t = [] \<or> \<not> is_digit (hd t)"
  shows "read_digits (ds @ t) = Some (ds, t)"
proof -
  have "takeWhile is_digit t = []" "dropWhile is_digit t = t" using assms(3) by (cases t; simp)+
  then show ?thesis using assms(1,2) by (simp add: read_digits_def list_all_iff)
qed

lemma not_digits: "\<not> is_digit (CHR ''.'')" "\<not> is_digit (CHR ''e'')" "\<not> is_digit (CHR '','')" "\<not> is_digit (CHR ''}'')"
  "\<not> is_digit (CHR '']'')" "\<not> is_digit (CHR ''-'')" "\<not> is_digit (CHR ''+'')" "\<not> is_digit (CHR 0x0A)"
  by code_simp+

lemma ends_number_hd: "ends_number t \<Longrightarrow> t = [] \<or> \<not> is_digit (hd t)"
  by (auto simp: ends_number_def split: list.splits)

lemma read_exp_text:
  assumes "ends_number t"
  shows "read_exp ((case ex of None \<Rightarrow> [] | Some n \<Rightarrow> CHR ''e'' # (if n < 0 then CHR ''-'' else CHR ''+'') # itoa (nat \<bar>n\<bar>)) @ t) = Some (ex, t)"
proof (cases ex)
  case None
  then show ?thesis using assms by (auto simp: read_exp_def ends_number_def split: list.splits)
next
  case (Some n)
  have "read_digits (itoa (nat \<bar>n\<bar>) @ t) = Some (itoa (nat \<bar>n\<bar>), t)"
    using itoa_digits ends_number_hd [OF assms] by (intro read_digits_append) auto
  then show ?thesis using Some by (auto simp: read_exp_def read_sign_def digits_val_itoa)
qed

lemma read_frac_text:
  assumes "case fr of None \<Rightarrow> True | Some f \<Rightarrow> f \<noteq> [] \<and> list_all is_digit f"
    "t = [] \<or> \<not> is_digit (hd t) \<and> hd t \<noteq> CHR ''.''"
  shows "read_frac ((case fr of None \<Rightarrow> [] | Some f \<Rightarrow> CHR ''.'' # f) @ t) = Some (fr, t)"
  using assms read_digits_append [of _ t] by (cases fr; cases t) (auto simp: read_frac_def)

lemma read_int_part_text:
  assumes "ip \<noteq> []" "list_all is_digit ip" "ip = ''0'' \<or> hd ip \<noteq> CHR ''0''" "t = [] \<or> \<not> is_digit (hd t)"
  shows "read_int_part (ip @ t) = Some (ip, t)"
  using assms read_digits_append [of ip t] by (cases ip) (auto simp: read_int_part_def)

lemma scan_number_text:
  assumes n: "number_ok ip fr" and t: "ends_number t"
  shows "scan_number (number_text neg ip fr ex @ t) = Some (JNum neg ip fr ex, t)"
proof -
  let ?e = "(case ex of None \<Rightarrow> [] | Some n \<Rightarrow> CHR ''e'' # (if n < 0 then CHR ''-'' else CHR ''+'') # itoa (nat \<bar>n\<bar>)) @ t"
  let ?f = "(case fr of None \<Rightarrow> [] | Some f \<Rightarrow> CHR ''.'' # f) @ ?e"
  have e: "?e = [] \<or> \<not> is_digit (hd ?e) \<and> hd ?e \<noteq> CHR ''.''"
    using t by (cases ex; cases t) (auto simp: ends_number_def not_digits)
  then have f: "?f = [] \<or> \<not> is_digit (hd ?f)" by (cases fr) (auto simp: not_digits)
  have "read_sign (number_text neg ip fr ex @ t) = (neg, ip @ ?f)"
    using n by (cases ip) (auto simp: read_sign_def number_text_def number_ok_def not_digits)
  moreover have "read_int_part (ip @ ?f) = Some (ip, ?f)" using n f by (intro read_int_part_text) (auto simp: number_ok_def)
  moreover have "read_frac ?f = Some (fr, ?e)" using n e by (intro read_frac_text) (auto simp: number_ok_def)
  moreover have "read_exp ?e = Some (ex, t)" by (rule read_exp_text [OF t])
  ultimately show ?thesis by (simp add: scan_number_def)
qed

lemma number_start:
  assumes "number_ok ip fr"
  obtains c s where "number_text neg ip fr ex = c # s" "is_digit c \<or> c = CHR ''-''"
  using assms by (cases neg; cases ip) (auto simp: number_text_def number_ok_def)

lemma digit_start: "is_digit c \<or> c = CHR ''-'' \<Longrightarrow> \<not> is_ws c \<and> c \<noteq> dquote \<and> c \<noteq> CHR ''{'' \<and> c \<noteq> CHR ''['' \<and> c \<noteq> CHR ''t'' \<and>
  c \<noteq> CHR ''f'' \<and> c \<noteq> CHR ''n'' \<and> c \<noteq> CHR '']''"
  by (auto simp: is_ws_def dquote_def is_digit_def less_eq_char_def)

lemma ws_consts [simp]: "\<not> is_ws dquote" "\<not> is_ws (CHR ''{'')" "\<not> is_ws (CHR ''}'')" "\<not> is_ws (CHR ''['')" "\<not> is_ws (CHR '']'')"
  "\<not> is_ws (CHR '','')" "\<not> is_ws (CHR '':'')" "\<not> is_ws (CHR ''t'')" "\<not> is_ws (CHR ''f'')" "\<not> is_ws (CHR ''n'')"
  by (simp_all add: is_ws_def dquote_def)

lemma dquote_consts [simp]: "CHR ''{'' \<noteq> dquote" "CHR ''['' \<noteq> dquote" "dquote \<noteq> CHR ''}''" "dquote \<noteq> CHR '']''"
  "CHR ''t'' \<noteq> dquote" "CHR ''f'' \<noteq> dquote" "CHR ''n'' \<noteq> dquote"
  by (simp_all add: dquote_def)

lemma skip_ws_stop [simp]: "\<not> is_ws c \<Longrightarrow> skip_ws (c # t) = c # t"
  by (simp add: skip_ws_def)

lemma ends_number_sep [simp]: "ends_number (CHR '','' # t)" "ends_number (CHR ''}'' # t)" "ends_number (CHR '']'' # t)"
  by (simp_all add: ends_number_def not_digits)

lemma render_start: "well_formed d j \<Longrightarrow> \<exists>c s. render j = c # s \<and> \<not> is_ws c \<and> c \<noteq> CHR '']''"
proof (cases j)
  case (JNum neg ip fr ex)
  assume "well_formed d j"
  with JNum have "number_ok ip fr" by simp
  then obtain c s where "number_text neg ip fr ex = c # s" "is_digit c \<or> c = CHR ''-''" by (rule number_start)
  then show ?thesis using JNum digit_start [of c] by simp
qed (auto simp: quoted_def)

lemma commas_Cons: "commas (x # xs) = x @ (if xs = [] then [] else CHR '','' # commas xs)"
  by (cases xs) auto

lemma parse_elems_text:
  assumes "js \<noteq> []" "\<forall>j\<in>set js. \<forall>t. ends_number t \<longrightarrow> parse_value d (render j @ t) = Some (j, t)"
  shows "parse_elems d (commas (map render js) @ CHR '']'' # t) = Some (js, t)"
  using assms
proof (induction js rule: induct_list012)
  case (2 j)
  then show ?case by (subst parse_elems.simps) simp
next
  case (3 j k js)
  then show ?case by (subst parse_elems.simps) simp
qed simp

lemma parse_members_text:
  assumes "ms \<noteq> []" "\<forall>(k, j)\<in>set ms. raw_string k \<and> (\<forall>t. ends_number t \<longrightarrow> parse_value d (render j @ t) = Some (j, t))"
  shows "parse_members d (commas (map (\<lambda>(k, j). quoted k @ CHR '':'' # render j) ms) @ CHR ''}'' # t) = Some (ms, t)"
  using assms
proof (induction ms rule: induct_list012)
  case (2 m)
  then show ?case by (subst parse_members.simps) (auto simp: quoted_def raw_string_def)
next
  case (3 m m' ms)
  then show ?case by (subst parse_members.simps) (auto simp: quoted_def raw_string_def)
qed simp

lemma parse_render: "well_formed d j \<Longrightarrow> ends_number t \<Longrightarrow> parse_value d (render j @ t) = Some (j, t)"
proof (induction j arbitrary: d t)
  case JNull
  then show ?case by (subst parse_value.simps) simp
next
  case (JBool b)
  then show ?case by (subst parse_value.simps) simp
next
  case (JNum neg ip fr ex)
  then have ok: "number_ok ip fr" by simp
  then obtain c s where cs: "number_text neg ip fr ex = c # s" "is_digit c \<or> c = CHR ''-''" by (rule number_start)
  have "scan_number (c # s @ t) = Some (JNum neg ip fr ex, t)"
    using scan_number_text [OF ok JNum(2), of neg ex] cs(1) by simp
  then show ?case using cs(1) digit_start [OF cs(2)] by (subst parse_value.simps) simp
next
  case (JStr r)
  then show ?case by (subst parse_value.simps) (simp add: quoted_def raw_string_def)
next
  case (JArr js)
  then have "d < max_nesting" "\<forall>j\<in>set js. \<forall>t. ends_number t \<longrightarrow> parse_value (d + 1) (render j @ t) = Some (j, t)" by auto
  note this(1) parse_elems_text [OF _ this(2), of t]
  moreover have "\<exists>c s. commas (map render js) = c # s \<and> \<not> is_ws c \<and> c \<noteq> CHR '']''" if ne: "js \<noteq> []"
  proof -
    obtain k ks where js: "js = k # ks" using ne by (cases js) auto
    then show ?thesis using JArr(2) render_start [of "d + 1" k] by (auto simp: commas_Cons)
  qed
  ultimately show ?case by (cases "js = []") (subst parse_value.simps, force)+
next
  case (JObj ms)
  then have "d < max_nesting" "\<forall>(k, j)\<in>set ms. raw_string k \<and> (\<forall>t. ends_number t \<longrightarrow> parse_value (d + 1) (render j @ t) = Some (j, t))" by fastforce+
  note this(1) parse_members_text [OF _ this(2), of t]
  moreover have "\<exists>s. commas (map (\<lambda>(k, j). quoted k @ CHR '':'' # render j) ms) = dquote # s" if "ms \<noteq> []"
    using that by (cases ms) (auto simp: commas_Cons quoted_def)
  ultimately show ?case by (cases "ms = []") (subst parse_value.simps, force)+
qed

section \<open>Floating-point numbers\<close>

definition num_rat :: "bool \<Rightarrow> string \<Rightarrow> string option \<Rightarrow> int option \<Rightarrow> rat" where
  "num_rat neg ip fr ex =
     (let f = (case fr of None \<Rightarrow> [] | Some f \<Rightarrow> f); e = (case ex of None \<Rightarrow> 0 | Some e \<Rightarrow> e);
          x = of_nat (digits_val (ip @ f)) * pow10 (e - int (length f))
      in if neg then - x else x)"

text \<open>\<open>strconv.ParseFloat\<close> on a number of the grammar; an overflow is an error.\<close>

definition parse_number :: "bool \<Rightarrow> string \<Rightarrow> string option \<Rightarrow> int option \<Rightarrow> f64 option" where
  "parse_number neg ip fr ex =
     (case f64_of_rat (num_rat neg ip fr ex) of Fin x \<Rightarrow> Some (Fin x) | _ \<Rightarrow> None)"

text \<open>\<open>floatEncoder\<close>.\<close>

definition json_of_pos :: "bool \<Rightarrow> rat \<Rightarrow> json" where
  "json_of_pos neg x =
     (let (ds, p) = shortest x
      in if Fin x < f64_of_rat (1 / 10 ^ 6) \<or> \<not> Fin x < f64_of_rat (10 ^ 21) then
           JNum neg (take 1 ds) (if length ds > 1 then Some (drop 1 ds) else None) (Some (p - 1))
         else if p \<le> 0 then JNum neg ''0'' (Some (zeros (- p) @ ds)) None
         else if int (length ds) \<le> p then JNum neg (ds @ zeros (p - int (length ds))) None None
         else JNum neg (take (nat p) ds) (Some (drop (nat p) ds)) None)"

fun json_of_f64 :: "f64 \<Rightarrow> json option" where
  "json_of_f64 (Fin x) =
     Some (if x = 0 then JNum False ''0'' None None else json_of_pos (x < 0) \<bar>x\<bar>)"
| "json_of_f64 _ = None"

definition digits_rat :: "string \<Rightarrow> int \<Rightarrow> rat" where
  "digits_rat ds p = of_nat (digits_val ds) * pow10 (p - int (length ds))"

lemma digits_val_lead_zeros: "digits_val (CHR ''0'' # replicate k (CHR ''0'') @ s) = digits_val s"
  using digits_val_zeros [of "Suc k" s] by simp

lemma json_of_pos_value:
  assumes s: "shortest x = (ds, p)" and ds: "ds \<noteq> []" "list_all is_digit ds" "hd ds \<noteq> CHR ''0''"
  obtains ip fr ex where "json_of_pos neg x = JNum neg ip fr ex" "number_ok ip fr"
    "num_rat neg ip fr ex = (if neg then - digits_rat ds p else digits_rat ds p)"
proof -
  obtain c cs where c: "ds = c # cs" using ds(1) by (cases ds) auto
  have dd: "list_all is_digit (take n ds)" "list_all is_digit (drop n ds)" for n
    using ds(2) by (metis append_take_drop_id list_all_append)+
  have zd: "list_all is_digit (zeros n)" for n by (simp add: zeros_def list_all_iff zero_digit)
  consider "Fin x < f64_of_rat (1 / 10 ^ 6) \<or> \<not> Fin x < f64_of_rat (10 ^ 21)"
    | "Fin x < f64_of_rat (10 ^ 21)" "\<not> Fin x < f64_of_rat (1 / 10 ^ 6)" "p \<le> 0"
    | "Fin x < f64_of_rat (10 ^ 21)" "\<not> Fin x < f64_of_rat (1 / 10 ^ 6)" "0 < p" "int (length ds) \<le> p"
    | "Fin x < f64_of_rat (10 ^ 21)" "\<not> Fin x < f64_of_rat (1 / 10 ^ 6)" "0 < p" "p < int (length ds)"
    by linarith
  then show thesis
  proof cases
    case 1
    show thesis
    proof (rule that)
      show "json_of_pos neg x = JNum neg [c] (if cs \<noteq> [] then Some cs else None) (Some (p - 1))"
        using 1 c by (simp add: json_of_pos_def s)
      show "number_ok [c] (if cs \<noteq> [] then Some cs else None)"
        using ds c by (auto simp: number_ok_def)
      show "num_rat neg [c] (if cs \<noteq> [] then Some cs else None) (Some (p - 1)) =
          (if neg then - digits_rat ds p else digits_rat ds p)"
        by (simp add: num_rat_def digits_rat_def c algebra_simps)
    qed
  next
    case 2
    show thesis
    proof (rule that)
      show "json_of_pos neg x = JNum neg ''0'' (Some (zeros (- p) @ ds)) None"
        using 2 by (simp add: json_of_pos_def s)
      show "number_ok ''0'' (Some (zeros (- p) @ ds))" using ds zd by (auto simp: number_ok_def zero_digit)
      show "num_rat neg ''0'' (Some (zeros (- p) @ ds)) None = (if neg then - digits_rat ds p else digits_rat ds p)"
        using 2 by (simp add: num_rat_def digits_rat_def zeros_def digits_val_lead_zeros)
    qed
  next
    case 3
    show thesis
    proof (rule that)
      show "json_of_pos neg x = JNum neg (ds @ zeros (p - int (length ds))) None None"
        using 3 by (simp add: json_of_pos_def s)
      show "number_ok (ds @ zeros (p - int (length ds))) None" using ds zd by (auto simp: number_ok_def)
      have "pow10 (p - int (length ds)) = 10 ^ nat (p - int (length ds))" using 3 by (simp add: pow10_def)
      then show "num_rat neg (ds @ zeros (p - int (length ds))) None None = (if neg then - digits_rat ds p else digits_rat ds p)"
        by (simp add: num_rat_def digits_rat_def zeros_def digits_val_snoc_zeros) (simp add: pow10_def)
    qed
  next
    case 4
    show thesis
    proof (rule that)
      show "json_of_pos neg x = JNum neg (take (nat p) ds) (Some (drop (nat p) ds)) None"
        using 4 by (simp add: json_of_pos_def s)
      show "number_ok (take (nat p) ds) (Some (drop (nat p) ds))" using ds dd 4 by (auto simp: number_ok_def)
      show "num_rat neg (take (nat p) ds) (Some (drop (nat p) ds)) None = (if neg then - digits_rat ds p else digits_rat ds p)"
        using 4 by (simp add: num_rat_def digits_rat_def)
    qed
  qed
qed

lemma f64_of_rat_minus: "f64_of_rat (- x) = - f64_of_rat x"
  by (auto simp: f64_of_rat_def Let_def rnd_minus max_exact_def)

text \<open>A finite \<open>float64\<close> is written as a number of the grammar that reads back as the same value.\<close>

lemma json_of_f64_reads:
  assumes "is_f64 (Fin x)"
  obtains neg ip fr ex where "json_of_f64 (Fin x) = Some (JNum neg ip fr ex)" "number_ok ip fr"
    "parse_number neg ip fr ex = Some (Fin x)"
proof (cases "x = 0")
  case True
  have "f64_of_rat 0 = Fin 0" by (simp add: f64_of_rat_def max_exact_def)
  with True show thesis
    by (intro that [of False "''0''" None None])
      (auto simp: number_ok_def zero_digit parse_number_def num_rat_def digits_val_def)
next
  case False
  obtain ds p where s: "shortest \<bar>x\<bar> = (ds, p)" by (cases "shortest \<bar>x\<bar>") auto
  have "is_f64 (Fin \<bar>x\<bar>)" using assms by (auto simp: is_f64_Fin abs_if rnd_minus)
  note r = shortest_reads [OF _ this s]
  have "digits_rat ds p = of_nat (digits_val ds) * pow10 (p - int (length ds))" by (simp add: digits_rat_def)
  then have v: "f64_of_rat (digits_rat ds p) = Fin \<bar>x\<bar>" using r(4) False by simp
  obtain ip fr ex where j: "json_of_pos (x < 0) \<bar>x\<bar> = JNum (x < 0) ip fr ex" "number_ok ip fr"
    "num_rat (x < 0) ip fr ex = (if x < 0 then - digits_rat ds p else digits_rat ds p)"
    using json_of_pos_value [OF s, of "x < 0"] r False by auto
  have "f64_of_rat (num_rat (x < 0) ip fr ex) = Fin x"
    using v by (auto simp: j(3) f64_of_rat_minus)
  then show thesis using that [of "x < 0" ip fr ex] j(1,2) False by (simp add: parse_number_def)
qed

section \<open>Encoding\<close>

datatype json_error = UnsupportedFloat | YearOutOfRange | ZoneHourOutOfRange

definition json_of_string :: "string \<Rightarrow> json" where
  "json_of_string s = JStr (escape_string s)"

definition json_field :: "string \<Rightarrow> json \<Rightarrow> string \<times> json" where
  "json_field n j = (escape_string n, j)"

definition json_of_float :: "f64 \<Rightarrow> (json_error, json) result" where
  "json_of_float x = (case json_of_f64 x of Some j \<Rightarrow> Inr j | None \<Rightarrow> Inl UnsupportedFloat)"

definition json_of_int :: "int \<Rightarrow> json" where
  "json_of_int n = JNum (n < 0) (itoa (nat \<bar>n\<bar>)) None None"

text \<open>\<open>Time.MarshalJSON\<close>: an error outside the years 0 to 9999.\<close>

definition json_of_time :: "gotime \<Rightarrow> (json_error, json) result" where
  "json_of_time t = (if four_digit_year t then Inr (JStr (format_rfc3339_nano t)) else Inl YearOutOfRange)"

text \<open>A time in the zone of the process, \<open>offset\<close> seconds east of Greenwich at that time.\<close>

definition json_of_zoned :: "int \<Rightarrow> gotime \<Rightarrow> (json_error, json) result" where
  "json_of_zoned offset t =
     (if \<not> four_digit_year (t + offset * second) then Inl YearOutOfRange
      else if \<bar>offset\<bar> \<ge> 86400 then Inl ZoneHourOutOfRange
      else Inr (JStr (format_zoned offset t)))"

text \<open>A map from strings to strings, in the order of the keys.\<close>

definition json_of_map :: "(string \<times> string) list \<Rightarrow> json" where
  "json_of_map m = JObj (map (\<lambda>(k, v). json_field k (json_of_string v)) (sort_key fst m))"

fun encode_all :: "('a \<Rightarrow> ('e, 'b) result) \<Rightarrow> 'a list \<Rightarrow> ('e, 'b list) result" where
  "encode_all f [] = Inr []"
| "encode_all f (x # xs) =
     (case f x of Inl e \<Rightarrow> Inl e | Inr y \<Rightarrow> map_sum id (Cons y) (encode_all f xs))"

definition json_array :: "('a \<Rightarrow> ('e, json) result) \<Rightarrow> 'a list \<Rightarrow> ('e, json) result" where
  "json_array f xs = map_sum id JArr (encode_all f xs)"

text \<open>A slice without elements is the nil slice here, written as \<open>null\<close>.\<close>

definition json_of_slice :: "('a \<Rightarrow> ('e, json) result) \<Rightarrow> 'a list \<Rightarrow> ('e, json) result" where
  "json_of_slice f xs = (if xs = [] then Inr JNull else json_array f xs)"

section \<open>Decoding\<close>

text \<open>
  A decoder takes the value to fill in and a tree; \<open>None\<close> is an error.  \<open>null\<close> leaves a value alone, but
  sets a map or a slice to nil.
\<close>

type_synonym 'a decoder = "'a \<Rightarrow> json \<Rightarrow> 'a option"

definition decode_string :: "string decoder" where
  "decode_string old j = (case j of JNull \<Rightarrow> Some old | JStr r \<Rightarrow> Some (unquote r) | _ \<Rightarrow> None)"

definition decode_float :: "f64 decoder" where
  "decode_float old j = (case j of JNull \<Rightarrow> Some old | JNum neg ip fr ex \<Rightarrow> parse_number neg ip fr ex | _ \<Rightarrow> None)"

text \<open>\<open>strconv.ParseInt\<close> takes neither a fraction nor an exponent.\<close>

definition decode_int64 :: "int decoder" where
  "decode_int64 old j =
     (case j of
        JNull \<Rightarrow> Some old
      | JNum neg ip None None \<Rightarrow>
          let n = (if neg then - int (digits_val ip) else int (digits_val ip))
          in if - (2 ^ 63) \<le> n \<and> n < 2 ^ 63 then Some n else None
      | _ \<Rightarrow> None)"

text \<open>\<open>Time.UnmarshalJSON\<close> reads what stands between the quotes as it is, escapes included.\<close>

definition decode_time :: "gotime decoder" where
  "decode_time old j = (case j of JNull \<Rightarrow> Some old | JStr r \<Rightarrow> parse_rfc3339 r | _ \<Rightarrow> None)"

fun decode_entries :: "(string \<times> string) list \<Rightarrow> (string \<times> json) list \<Rightarrow> (string \<times> string) list option" where
  "decode_entries m [] = Some m"
| "decode_entries m ((k, j) # ms) =
     (case decode_string [] j of None \<Rightarrow> None | Some v \<Rightarrow> decode_entries (AList.update (unquote k) v m) ms)"

definition decode_map :: "(string \<times> string) list decoder" where
  "decode_map old j = (case j of JNull \<Rightarrow> Some [] | JObj ms \<Rightarrow> decode_entries old ms | _ \<Rightarrow> None)"

text \<open>
  A slice with the elements that are left behind its end: an array is decoded into the elements that are
  there, so a key that occurs twice gets the second array with the first one's values where it is silent.
\<close>

type_synonym 'a slice = "'a list \<times> nat"

definition slice_list :: "'a slice \<Rightarrow> 'a list" where
  "slice_list s = take (snd s) (fst s)"

fun decode_elems :: "'a decoder \<Rightarrow> 'a \<Rightarrow> 'a list \<Rightarrow> json list \<Rightarrow> 'a list option" where
  "decode_elems f z back [] = Some back"
| "decode_elems f z back (j # js) =
     (case f (case back of [] \<Rightarrow> z | b # _ \<Rightarrow> b) j of
        None \<Rightarrow> None
      | Some x \<Rightarrow> map_option (Cons x) (decode_elems f z (drop 1 back) js))"

definition decode_slice :: "'a decoder \<Rightarrow> 'a \<Rightarrow> 'a slice decoder" where
  "decode_slice f z s j =
     (case j of
        JNull \<Rightarrow> Some ([], 0)
      | JArr js \<Rightarrow>
          if js = [] then Some ([], 0)
          else map_option (\<lambda>back. (back, length js)) (decode_elems f z (fst s) js)
      | _ \<Rightarrow> None)"

text \<open>
  The field a key names: the one with that name, or the first one that matches without regard to case.
  Two runes outside ASCII fold to a letter, U+017F to s and U+212A to k; names are ASCII.
\<close>

fun fold_name :: "string \<Rightarrow> string" where
  "fold_name [] = []"
| "fold_name (c # s) =
     (case drop_prefix [CHR 0xC5, CHR 0xBF] (c # s) of
        Some t \<Rightarrow> CHR ''s'' # fold_name (drop 1 s)
      | None \<Rightarrow>
        (case drop_prefix [CHR 0xE2, CHR 0x84, CHR 0xAA] (c # s) of
           Some t \<Rightarrow> CHR ''k'' # fold_name (drop 2 s)
         | None \<Rightarrow> lower_char c # fold_name s))"

definition find_field :: "(string \<times> 'a decoder) list \<Rightarrow> string \<Rightarrow> 'a decoder option" where
  "find_field fields key =
     (case map_of fields key of
        Some f \<Rightarrow> Some f
      | None \<Rightarrow> map_option snd (find (\<lambda>(n, f). fold_name n = fold_name key) fields))"

fun decode_fields :: "(string \<times> 'a decoder) list \<Rightarrow> 'a \<Rightarrow> (string \<times> json) list \<Rightarrow> 'a option" where
  "decode_fields fields x [] = Some x"
| "decode_fields fields x ((k, j) # ms) =
     (case find_field fields (unquote k) of
        None \<Rightarrow> decode_fields fields x ms
      | Some f \<Rightarrow> (case f x j of None \<Rightarrow> None | Some y \<Rightarrow> decode_fields fields y ms))"

definition decode_struct :: "(string \<times> 'a decoder) list \<Rightarrow> 'a decoder" where
  "decode_struct fields x j = (case j of JNull \<Rightarrow> Some x | JObj ms \<Rightarrow> decode_fields fields x ms | _ \<Rightarrow> None)"

text \<open>
  \<open>json.NewDecoder(r).Decode\<close> reads one value and ignores what follows it; \<open>json.Unmarshal\<close> allows
  nothing but white space there.
\<close>

definition decode_body :: "(json \<Rightarrow> 'a option) \<Rightarrow> string \<Rightarrow> 'a option" where
  "decode_body f s = (case parse_value 0 s of None \<Rightarrow> None | Some (j, rest) \<Rightarrow> f j)"

definition unmarshal_with :: "(json \<Rightarrow> 'a option) \<Rightarrow> string \<Rightarrow> 'a option" where
  "unmarshal_with f s =
     (case parse_value 0 s of None \<Rightarrow> None | Some (j, rest) \<Rightarrow> if skip_ws rest = [] then f j else None)"

section \<open>Decoding what was encoded\<close>

lemma decode_render:
  "well_formed 0 j \<Longrightarrow> decode_body f (render j) = f j" "well_formed 0 j \<Longrightarrow> unmarshal_with f (render j) = f j"
  using parse_render [of 0 j "[]"] by (simp_all add: decode_body_def unmarshal_with_def ends_number_def skip_ws_def)

text \<open>\<open>json.NewEncoder(w).Encode\<close> ends the text with a newline.\<close>

lemma decode_encoded_line:
  "well_formed 0 j \<Longrightarrow> unmarshal_with f (render j @ [newline]) = f j"
  using parse_render [of 0 j "[newline]"]
  by (simp add: unmarshal_with_def ends_number_def skip_ws_def is_ws_def newline_def not_digits)

lemma decode_string_json [simp]: "decode_string old (json_of_string s) = Some (to_valid s)"
  by (simp add: decode_string_def json_of_string_def unquote_escape)

lemma well_formed_string [simp]: "well_formed d (json_of_string s)"
  by (simp add: json_of_string_def)

lemma number_ok_itoa: "number_ok (itoa n) None"
proof (cases "n = 0")
  case True
  then show ?thesis using itoa_digits [of 0] by (simp add: number_ok_def itoa.simps digit_char_def)
next
  case False
  then show ?thesis using itoa_digits [of n] hd_itoa [of n] by (simp add: number_ok_def)
qed

lemma well_formed_int [simp]: "well_formed d (json_of_int n)"
  by (simp add: json_of_int_def number_ok_itoa)

lemma decode_int64_json: "- (2 ^ 63) \<le> n \<Longrightarrow> n < 2 ^ 63 \<Longrightarrow> decode_int64 old (json_of_int n) = Some n"
  by (auto simp: decode_int64_def json_of_int_def digits_val_itoa Let_def)

lemma json_of_float_reads:
  "is_f64 x \<Longrightarrow> json_of_float x = Inr j \<Longrightarrow> decode_float old j = Some x \<and> well_formed d j"
proof (cases x)
  case (Fin r)
  assume "is_f64 x" and j: "json_of_float x = Inr j"
  then obtain neg ip fr ex where "json_of_f64 (Fin r) = Some (JNum neg ip fr ex)" "number_ok ip fr"
    "parse_number neg ip fr ex = Some (Fin r)"
    using Fin by (auto elim: json_of_f64_reads)
  with j Fin show ?thesis by (auto simp: json_of_float_def decode_float_def)
qed (auto simp: json_of_float_def)

lemma json_of_float_finite: "is_finite x \<Longrightarrow> \<exists>j. json_of_float x = Inr j"
  by (auto simp: json_of_float_def is_finite_iff)

text \<open>A string of bytes that need no escape.\<close>

definition plain_char :: "char \<Rightarrow> bool" where
  "plain_char c \<longleftrightarrow> c \<noteq> dquote \<and> c \<noteq> bslash \<and> 32 \<le> (of_char c :: nat)"

lemma raw_string_plain: "list_all plain_char s \<Longrightarrow> raw_string s"
proof (induction s)
  case (Cons c s)
  then show ?case by (auto simp: raw_string_def plain_char_def scan_string.simps(2))
qed (simp add: raw_string_def scan_string.simps(2))

lemma plain_digit: "is_digit c \<Longrightarrow> plain_char c"
  by (auto simp: is_digit_def plain_char_def dquote_def bslash_def less_eq_char_def)

lemma plain_zoned: "list_all plain_char (format_zoned offset t)"
proof -
  have "list_all plain_char ''-T:.Z+''" by (simp add: plain_char_def dquote_def bslash_def)
  then have "time_char c \<Longrightarrow> plain_char c" for c
    unfolding time_char_def list_all_iff using plain_digit by blast
  with time_chars(1) [of offset t] show ?thesis unfolding list_all_iff by blast
qed

lemma json_of_zoned_0: "json_of_zoned 0 = json_of_time"
  by (auto simp: json_of_zoned_def json_of_time_def format_zoned_0)

lemma json_of_zoned_well_formed: "json_of_zoned offset t = Inr j \<Longrightarrow> well_formed d j"
  by (auto simp: json_of_zoned_def raw_string_plain plain_zoned split: if_splits)

lemma json_of_zoned_reads:
  "json_of_zoned offset t = Inr j \<Longrightarrow> 60 dvd offset \<Longrightarrow> decode_time old j = Some t"
  by (auto simp: json_of_zoned_def decode_time_def parse_format_zoned split: if_splits)

lemma json_of_time_reads:
  "json_of_time t = Inr j \<Longrightarrow> decode_time old j = Some t \<and> well_formed d j"
  using json_of_zoned_reads [of 0 t j] json_of_zoned_well_formed [of 0 t j] by (simp add: json_of_zoned_0)

lemma escape_plain: "\<forall>c\<in>set s. ascii c \<and> escape_ascii c = [c] \<Longrightarrow> escape_string s = s"
  by (induction s) (auto simp: escape_string_def escape_runes.simps(2))

lemma digit_plain: "is_digit c \<Longrightarrow> ascii c \<and> escape_ascii c = [c]"
  by (auto simp: is_digit_def ascii_def escape_ascii_def Let_def dquote_def bslash_def less_eq_char_def)

lemma time_char_plain: "time_char c \<Longrightarrow> ascii c \<and> escape_ascii c = [c]"
proof -
  have "list_all (\<lambda>c. ascii c \<and> escape_ascii c = [c]) ''-T:.Z+''" by code_simp
  then show "time_char c \<Longrightarrow> ascii c \<and> escape_ascii c = [c]"
    using digit_plain [of c] unfolding time_char_def list_all_iff by blast
qed

lemma to_valid_ascii: "\<forall>c\<in>set s. ascii c \<Longrightarrow> to_valid s = s"
  by (induction s) (auto simp: to_valid.simps(2))

lemma to_valid_time: "to_valid (format_zoned offset t) = format_zoned offset t"
  using time_chars(1) [of offset t] time_char_plain unfolding list_all_iff by (blast intro: to_valid_ascii)

text \<open>A time that was sent as a string.\<close>

lemma escape_time: "escape_string (format_zoned offset t) = format_zoned offset t"
  "escape_string (format_rfc3339 t) = format_rfc3339 t"
  using time_chars time_char_plain unfolding list_all_iff by (blast intro!: escape_plain)+

lemma decode_time_string: "four_digit_year t \<Longrightarrow>
    decode_time old (json_of_string (format_rfc3339 t)) = Some (t div second * second)"
  by (simp add: decode_time_def json_of_string_def escape_time parse_format)

lemma map_sum_Cons: "map_sum id (Cons y) r = Inr js \<longleftrightarrow> (\<exists>ks. r = Inr ks \<and> js = y # ks)"
  by (cases r) auto

lemma encode_all_Inr: "encode_all f xs = Inr js \<longleftrightarrow> list_all2 (\<lambda>x j. f x = Inr j) xs js"
proof (induction xs arbitrary: js)
  case (Cons x xs)
  then show ?case by (cases "f x") (auto simp: map_sum_Cons list_all2_Cons1)
qed auto

text \<open>A slice that was encoded elementwise is decoded elementwise.\<close>

lemma decode_elems_encoded:
  assumes "list_all2 (\<lambda>x j. dec z j = Some (wire x)) xs js"
  shows "decode_elems dec z [] js = Some (map wire xs)"
  using assms by (induction xs js rule: list_all2_induct) auto

lemma decode_array_encoded:
  assumes "json_array enc xs = Inr j"
    and "\<And>x j d. x \<in> set xs \<Longrightarrow> enc x = Inr j \<Longrightarrow> dec z j = Some (wire x)"
  obtains b where "decode_slice dec z ([], 0) j = Some b" "slice_list b = map wire xs"
proof -
  obtain js where js: "list_all2 (\<lambda>x j. enc x = Inr j) xs js" "j = JArr js"
    using assms(1) by (cases "encode_all enc xs") (auto simp: json_array_def encode_all_Inr)
  then have "list_all2 (\<lambda>x j. dec z j = Some (wire x)) xs js"
    using assms(2) by (auto simp: list_all2_conv_all_nth)
  moreover have "length js = length xs" using list_all2_lengthD [OF js(1)] by simp
  ultimately show thesis
    using that [of "([], 0)"] that [of "(map wire xs, length xs)"] js(2)
    by (cases "js = []") (simp_all add: decode_slice_def decode_elems_encoded slice_list_def)
qed

lemma decode_slice_encoded:
  assumes "json_of_slice enc xs = Inr j"
    and "\<And>x j d. x \<in> set xs \<Longrightarrow> enc x = Inr j \<Longrightarrow> dec z j = Some (wire x)"
  obtains b where "decode_slice dec z ([], 0) j = Some b" "slice_list b = map wire xs"
proof (cases "xs = []")
  case True
  with assms(1) show thesis using that [of "([], 0)"] by (simp add: json_of_slice_def decode_slice_def slice_list_def)
next
  case False
  then have "json_array enc xs = Inr j" using assms(1) by (simp add: json_of_slice_def)
  with assms(2) that show thesis by (blast elim: decode_array_encoded [of enc xs j dec z wire])
qed

lemma well_formed_array:
  assumes "json_array enc xs = Inr j" "d < max_nesting"
    and "\<And>x j. x \<in> set xs \<Longrightarrow> enc x = Inr j \<Longrightarrow> well_formed (d + 1) j"
  shows "well_formed d j"
proof (cases "encode_all enc xs")
  case (Inr js)
  then have "list_all2 (\<lambda>x j. enc x = Inr j) xs js" by (simp add: encode_all_Inr)
  then have "\<forall>j\<in>set js. \<exists>x\<in>set xs. enc x = Inr j"
    by (induction rule: list_all2_induct) auto
  then have "\<forall>j\<in>set js. well_formed (d + 1) j" using assms(3) by blast
  then show ?thesis using assms(1,2) Inr by (auto simp: json_array_def)
qed (use assms in \<open>auto simp: json_array_def\<close>)

lemma well_formed_slice:
  assumes "json_of_slice enc xs = Inr j" "d < max_nesting"
    and "\<And>x j. x \<in> set xs \<Longrightarrow> enc x = Inr j \<Longrightarrow> well_formed (d + 1) j"
  shows "well_formed d j"
  using assms well_formed_array [of enc xs j d] by (auto simp: json_of_slice_def split: if_splits)

definition wire_map :: "(string \<times> string) list \<Rightarrow> (string \<times> string) list" where
  "wire_map m = foldl (\<lambda>acc (k, v). AList.update (to_valid k) (to_valid v) acc) [] (sort_key fst m)"

lemma decode_entries_encoded:
  "decode_entries acc (map (\<lambda>(k, v). json_field k (json_of_string v)) m) =
     Some (foldl (\<lambda>acc (k, v). AList.update (to_valid k) (to_valid v) acc) acc m)"
  by (induction m arbitrary: acc) (auto simp: json_field_def unquote_escape)

lemma decode_map_encoded: "decode_map [] (json_of_map m) = Some (wire_map m)"
  by (simp add: decode_map_def json_of_map_def wire_map_def decode_entries_encoded)

lemma well_formed_map: "d < max_nesting \<Longrightarrow> well_formed d (json_of_map m)"
  by (auto simp: json_of_map_def json_field_def)

lemma update_fresh: "k \<notin> fst ` set m \<Longrightarrow> AList.update k v m = m @ [(k, v)]"
  by (induction m) auto

lemma wire_map_valid:
  assumes "distinct (map fst m)" "\<forall>(k, v)\<in>set m. valid_utf8 k \<and> valid_utf8 v"
  shows "wire_map m = sort_key fst m"
proof -
  have "foldl (\<lambda>acc (k, v). AList.update (to_valid k) (to_valid v) acc) acc xs = acc @ xs"
    if "distinct (map fst (acc @ xs))" "\<forall>(k, v)\<in>set xs. valid_utf8 k \<and> valid_utf8 v" for acc xs
    using that
  proof (induction xs arbitrary: acc)
    case (Cons x xs)
    obtain k v where x: "x = (k, v)" by (cases x) auto
    have "AList.update (to_valid k) (to_valid v) acc = acc @ [(k, v)]"
      using Cons.prems x by (subst update_fresh) (auto simp: valid_utf8_def)
    then show ?case using Cons.IH [of "acc @ [(k, v)]"] Cons.prems x by simp
  qed simp
  moreover have "distinct (map fst (sort_key fst m))"
    using assms(1) by (simp add: distinct_map)
  ultimately show ?thesis using assms(2) by (simp add: wire_map_def)
qed

end
