(* ===== verification/Model_Json.thy ===== *)
theory Model_Json
  imports Model Go_Json
begin

text \<open>
  The batches on the wire: what \<open>json.Marshal\<close> makes of a \<open>MetricBatch\<close> or a \<open>LogBatch\<close> and what the
  server's decoder makes of a body, by the field tags of \<open>internal/model\<close>.  What is encoded comes back
  with its strings as UTF-8 and the labels of a metric in the order of their keys.
\<close>

section \<open>Metrics\<close>

definition encode_metric :: "metric \<Rightarrow> (json_error, json) result" where
  "encode_metric m =
     (case json_of_time (m_time m) of
        Inl e \<Rightarrow> Inl e
      | Inr t \<Rightarrow>
        (case json_of_float (m_value m) of
           Inl e \<Rightarrow> Inl e
         | Inr v \<Rightarrow>
           Inr (JObj
             ([json_field ''time'' t, json_field ''host'' (json_of_string (m_host m)),
               json_field ''name'' (json_of_string (m_name m)), json_field ''value'' v] @
              (if m_labels m = [] then [] else [json_field ''labels'' (json_of_map (m_labels m))])))))"

definition encode_metric_batch :: "metric_batch \<Rightarrow> (json_error, json) result" where
  "encode_metric_batch b =
     (case json_of_slice encode_metric (mb_metrics b) of
        Inl e \<Rightarrow> Inl e
      | Inr ms \<Rightarrow> Inr (JObj [json_field ''host'' (json_of_string (mb_host b)), json_field ''metrics'' ms]))"

definition marshal_metric_batch :: "metric_batch \<Rightarrow> (json_error, string) result" where
  "marshal_metric_batch b = map_sum id render (encode_metric_batch b)"

definition metric_fields :: "(string \<times> metric decoder) list" where
  "metric_fields =
     [(''time'', \<lambda>m j. map_option (\<lambda>t. m\<lparr>m_time := t\<rparr>) (decode_time (m_time m) j)),
      (''host'', \<lambda>m j. map_option (\<lambda>s. m\<lparr>m_host := s\<rparr>) (decode_string (m_host m) j)),
      (''name'', \<lambda>m j. map_option (\<lambda>s. m\<lparr>m_name := s\<rparr>) (decode_string (m_name m) j)),
      (''value'', \<lambda>m j. map_option (\<lambda>v. m\<lparr>m_value := v\<rparr>) (decode_float (m_value m) j)),
      (''labels'', \<lambda>m j. map_option (\<lambda>l. m\<lparr>m_labels := l\<rparr>) (decode_map (m_labels m) j))]"

definition zero_metric :: metric where
  "zero_metric = \<lparr>m_time = zero_time, m_host = [], m_name = [], m_value = 0, m_labels = []\<rparr>"

definition metric_batch_fields :: "(string \<times> (string \<times> metric slice) decoder) list" where
  "metric_batch_fields =
     [(''host'', \<lambda>(h, ms) j. map_option (\<lambda>s. (s, ms)) (decode_string h j)),
      (''metrics'', \<lambda>(h, ms) j. map_option (Pair h) (decode_slice (decode_struct metric_fields) zero_metric ms j))]"

definition decode_metric_batch :: "string \<Rightarrow> metric_batch option" where
  "decode_metric_batch =
     decode_body (\<lambda>j. map_option (\<lambda>(h, ms). \<lparr>mb_host = h, mb_metrics = slice_list ms\<rparr>)
       (decode_struct metric_batch_fields ([], ([], 0)) j))"

text \<open>\<open>json.Marshal(m.Labels)\<close> of the repository.\<close>

definition marshal_labels :: "(string \<times> string) list \<Rightarrow> ('e, string) result" where
  "marshal_labels l = Inr (render (json_of_map l))"

section \<open>Log entries\<close>

definition encode_log_entry :: "log_entry \<Rightarrow> (json_error, json) result" where
  "encode_log_entry e =
     (case json_of_time (e_time e) of
        Inl err \<Rightarrow> Inl err
      | Inr t \<Rightarrow>
        Inr (JObj
          [json_field ''time'' t, json_field ''host'' (json_of_string (e_host e)),
           json_field ''path'' (json_of_string (e_path e)), json_field ''level'' (json_of_string (e_level e)),
           json_field ''message'' (json_of_string (e_message e))]))"

definition encode_log_batch :: "log_batch \<Rightarrow> (json_error, json) result" where
  "encode_log_batch b =
     (case json_of_slice encode_log_entry (lb_entries b) of
        Inl e \<Rightarrow> Inl e
      | Inr es \<Rightarrow> Inr (JObj [json_field ''host'' (json_of_string (lb_host b)), json_field ''entries'' es]))"

definition marshal_log_batch :: "log_batch \<Rightarrow> (json_error, string) result" where
  "marshal_log_batch b = map_sum id render (encode_log_batch b)"

definition log_entry_fields :: "(string \<times> log_entry decoder) list" where
  "log_entry_fields =
     [(''time'', \<lambda>e j. map_option (\<lambda>t. e\<lparr>e_time := t\<rparr>) (decode_time (e_time e) j)),
      (''host'', \<lambda>e j. map_option (\<lambda>s. e\<lparr>e_host := s\<rparr>) (decode_string (e_host e) j)),
      (''path'', \<lambda>e j. map_option (\<lambda>s. e\<lparr>e_path := s\<rparr>) (decode_string (e_path e) j)),
      (''level'', \<lambda>e j. map_option (\<lambda>s. e\<lparr>e_level := s\<rparr>) (decode_string (e_level e) j)),
      (''message'', \<lambda>e j. map_option (\<lambda>s. e\<lparr>e_message := s\<rparr>) (decode_string (e_message e) j))]"

definition zero_log_entry :: log_entry where
  "zero_log_entry = \<lparr>e_time = zero_time, e_host = [], e_path = [], e_level = [], e_message = []\<rparr>"

definition log_batch_fields :: "(string \<times> (string \<times> log_entry slice) decoder) list" where
  "log_batch_fields =
     [(''host'', \<lambda>(h, es) j. map_option (\<lambda>s. (s, es)) (decode_string h j)),
      (''entries'', \<lambda>(h, es) j. map_option (Pair h) (decode_slice (decode_struct log_entry_fields) zero_log_entry es j))]"

definition decode_log_batch :: "string \<Rightarrow> log_batch option" where
  "decode_log_batch =
     decode_body (\<lambda>j. map_option (\<lambda>(h, es). \<lparr>lb_host = h, lb_entries = slice_list es\<rparr>)
       (decode_struct log_batch_fields ([], ([], 0)) j))"

section \<open>What arrives\<close>

definition wire_metric :: "metric \<Rightarrow> metric" where
  "wire_metric m = m\<lparr>m_host := to_valid (m_host m), m_name := to_valid (m_name m), m_labels := wire_map (m_labels m)\<rparr>"

definition wire_metric_batch :: "metric_batch \<Rightarrow> metric_batch" where
  "wire_metric_batch b = \<lparr>mb_host = to_valid (mb_host b), mb_metrics = map wire_metric (mb_metrics b)\<rparr>"

definition wire_log_entry :: "log_entry \<Rightarrow> log_entry" where
  "wire_log_entry e = e\<lparr>e_host := to_valid (e_host e), e_path := to_valid (e_path e),
     e_level := to_valid (e_level e), e_message := to_valid (e_message e)\<rparr>"

definition wire_log_batch :: "log_batch \<Rightarrow> log_batch" where
  "wire_log_batch b = \<lparr>lb_host = to_valid (lb_host b), lb_entries = map wire_log_entry (lb_entries b)\<rparr>"

lemma field_names [simp]:
  "to_valid ''time'' = ''time''" "to_valid ''host'' = ''host''" "to_valid ''name'' = ''name''"
  "to_valid ''value'' = ''value''" "to_valid ''labels'' = ''labels''" "to_valid ''metrics'' = ''metrics''"
  "to_valid ''path'' = ''path''" "to_valid ''level'' = ''level''" "to_valid ''message'' = ''message''"
  "to_valid ''entries'' = ''entries''"
  by code_simp+

lemma decode_fields_field [simp]:
  "map_of tbl (to_valid n) = Some f \<Longrightarrow>
     decode_fields tbl x (json_field n j # ms) = (case f x j of None \<Rightarrow> None | Some y \<Rightarrow> decode_fields tbl y ms)"
  by (simp add: json_field_def unquote_escape find_field_def)

lemma wire_map_Nil [simp]: "wire_map [] = []"
  by (simp add: wire_map_def)

lemma encode_metric_reads:
  assumes "is_f64 (m_value m)" "encode_metric m = Inr j"
  shows "decode_struct metric_fields zero_metric j = Some (wire_metric m)"
    and "d + 1 < max_nesting \<Longrightarrow> well_formed d j"
proof -
  obtain t v where tv: "json_of_time (m_time m) = Inr t" "json_of_float (m_value m) = Inr v"
    using assms(2) by (auto simp: encode_metric_def split: sum.splits)
  note t = json_of_time_reads [OF tv(1)] and v = json_of_float_reads [OF assms(1) tv(2)]
  show "decode_struct metric_fields zero_metric j = Some (wire_metric m)"
    using assms(2) tv t v
    by (auto simp: encode_metric_def decode_struct_def metric_fields_def zero_metric_def wire_metric_def decode_map_encoded)
  show "well_formed d j" if "d + 1 < max_nesting"
    using assms(2) tv t v that by (auto simp: encode_metric_def json_field_def well_formed_map)
qed

lemma marshal_metric_batch_reads:
  assumes "\<forall>m\<in>set (mb_metrics b). is_f64 (m_value m)" "marshal_metric_batch b = Inr body"
  shows "decode_metric_batch body = Some (wire_metric_batch b)"
proof -
  obtain ms where ms: "json_of_slice encode_metric (mb_metrics b) = Inr ms"
    and body: "body = render (JObj [json_field ''host'' (json_of_string (mb_host b)), json_field ''metrics'' ms])"
    using assms(2) by (auto simp: marshal_metric_batch_def encode_metric_batch_def split: sum.splits)
  have "well_formed 1 ms"
    using assms(1) by (intro well_formed_slice [OF ms]) (auto simp: max_nesting_def intro: encode_metric_reads(2))
  then have wf: "well_formed 0 (JObj [json_field ''host'' (json_of_string (mb_host b)), json_field ''metrics'' ms])"
    by (simp add: json_field_def max_nesting_def)
  obtain s where s: "decode_slice (decode_struct metric_fields) zero_metric ([], 0) ms = Some s"
    "slice_list s = map wire_metric (mb_metrics b)"
    by (rule decode_slice_encoded [OF ms, of "decode_struct metric_fields" zero_metric wire_metric])
      (use assms(1) encode_metric_reads(1) in blast)+
  then show ?thesis
    unfolding decode_metric_batch_def body decode_render(1) [OF wf]
    by (simp add: decode_struct_def metric_batch_fields_def wire_metric_batch_def)
qed

lemma encode_log_entry_reads:
  assumes "encode_log_entry e = Inr j"
  shows "decode_struct log_entry_fields zero_log_entry j = Some (wire_log_entry e)"
    and "d + 1 < max_nesting \<Longrightarrow> well_formed d j"
proof -
  obtain t where t: "json_of_time (e_time e) = Inr t"
    using assms by (auto simp: encode_log_entry_def split: sum.splits)
  note r = json_of_time_reads [OF t]
  show "decode_struct log_entry_fields zero_log_entry j = Some (wire_log_entry e)"
    using assms t r
    by (auto simp: encode_log_entry_def decode_struct_def log_entry_fields_def zero_log_entry_def wire_log_entry_def)
  show "well_formed d j" if "d + 1 < max_nesting"
    using assms t r that by (auto simp: encode_log_entry_def json_field_def)
qed

lemma marshal_log_batch_reads:
  assumes "marshal_log_batch b = Inr body"
  shows "decode_log_batch body = Some (wire_log_batch b)"
proof -
  obtain es where es: "json_of_slice encode_log_entry (lb_entries b) = Inr es"
    and body: "body = render (JObj [json_field ''host'' (json_of_string (lb_host b)), json_field ''entries'' es])"
    using assms by (auto simp: marshal_log_batch_def encode_log_batch_def split: sum.splits)
  have "well_formed 1 es"
    by (intro well_formed_slice [OF es]) (auto simp: max_nesting_def intro: encode_log_entry_reads(2))
  then have wf: "well_formed 0 (JObj [json_field ''host'' (json_of_string (lb_host b)), json_field ''entries'' es])"
    by (simp add: json_field_def max_nesting_def)
  obtain s where s: "decode_slice (decode_struct log_entry_fields) zero_log_entry ([], 0) es = Some s"
    "slice_list s = map wire_log_entry (lb_entries b)"
    by (rule decode_slice_encoded [OF es, of "decode_struct log_entry_fields" zero_log_entry wire_log_entry])
      (use encode_log_entry_reads(1) in blast)+
  then show ?thesis
    unfolding decode_log_batch_def body decode_render(1) [OF wf]
    by (simp add: decode_struct_def log_batch_fields_def wire_log_batch_def)
qed

section \<open>Validation and the wire\<close>

text \<open>Anything that is not UTF-8 leaves a byte of U+FFFD behind, which no white space has.\<close>

lemma to_valid_mark: "to_valid s \<noteq> s \<Longrightarrow> CHR 0xEF \<in> set (to_valid s)"
proof (induction s rule: to_valid.induct)
  case (2 c s)
  show ?case
  proof (cases "ascii c")
    case True
    then show ?thesis using 2 by (auto simp: to_valid.simps(2))
  next
    case False
    then show ?thesis
    proof (cases "rune_size (c # s)")
      case None
      then show ?thesis using False by (simp add: to_valid.simps(2) replacement_def)
    next
      case (Some n)
      have "to_valid (drop n (c # s)) \<noteq> drop n (c # s)"
        using 2(4) False Some by (auto simp: to_valid.simps(2))
      then show ?thesis using 2(3) [OF False Some] False Some by (simp add: to_valid.simps(2))
    qed
  qed
qed simp

lemma solid_mark: "solid (CHR 0xEF)"
  by (simp add: solid_def space_seqs_def)

lemma trim_to_valid: "trim_space s \<noteq> [] \<Longrightarrow> trim_space (to_valid s) \<noteq> []"
  using solid_trim_space_nonempty [OF to_valid_mark solid_mark, of s] by (cases "to_valid s = s") auto

lemma space_seqs_valid: "w \<in> set space_seqs \<Longrightarrow> to_valid (w @ t) = w @ to_valid t"
proof -
  assume w: "w \<in> set space_seqs"
  have "list_all (\<lambda>w. w \<noteq> [] \<and> (if ascii (hd w) then tl w = [] else rune_size w = Some (length w))) space_seqs"
    by (simp add: space_seqs_def ascii_def rune_size_def rune_shape_def byte_in_def cont_def)
  with w have e: "w \<noteq> []" "if ascii (hd w) then tl w = [] else rune_size w = Some (length w)"
    by (auto simp: list_all_iff)
  then obtain c u where c: "w = c # u" by (cases w) auto
  show ?thesis
  proof (cases "ascii c")
    case True
    then show ?thesis using e c by (simp add: to_valid.simps(2))
  next
    case False
    then have "rune_size (w @ t) = Some (length w)" using e c rune_size_facts(5) [of w "length w" t] by simp
    then show ?thesis using False c by (simp add: to_valid.simps(2))
  qed
qed

lemma blank_to_valid: "trim_space s = [] \<Longrightarrow> to_valid s = s"
proof (elim trim_space_blank)
  fix ws assume "set ws \<subseteq> set space_seqs" "s = concat ws"
  then show "to_valid s = s" by (induction ws arbitrary: s) (auto simp: space_seqs_valid)
qed

lemma to_valid_nonempty: "s \<noteq> [] \<Longrightarrow> to_valid s \<noteq> []"
  using to_valid_mark [of s] by (cases "to_valid s = s") auto

lemma valid_constants:
  "n \<in> set valid_metric_names \<Longrightarrow> to_valid n = n" "l \<in> set valid_log_levels \<Longrightarrow> to_valid l = l"
proof -
  have "list_all (\<lambda>n. to_valid n = n) valid_metric_names" "list_all (\<lambda>l. to_valid l = l) valid_log_levels" by code_simp+
  then show "n \<in> set valid_metric_names \<Longrightarrow> to_valid n = n" "l \<in> set valid_log_levels \<Longrightarrow> to_valid l = l"
    by (auto simp: list_all_iff)
qed

lemma wire_map_nonempty:
  assumes "\<forall>(k, v)\<in>set m. k \<noteq> [] \<and> v \<noteq> []"
  shows "\<forall>(k, v)\<in>set (wire_map m). k \<noteq> [] \<and> v \<noteq> []"
proof -
  have upd: "\<forall>(k, v)\<in>set (AList.update k' v' acc). k \<noteq> [] \<and> v \<noteq> []"
    if "\<forall>(k, v)\<in>set acc. k \<noteq> [] \<and> v \<noteq> []" "k' \<noteq> []" "v' \<noteq> []" for acc :: "(string \<times> string) list" and k' v'
    using that by (induction acc) auto
  have "\<forall>(k, v)\<in>set (foldl (\<lambda>acc (k, v). AList.update (to_valid k) (to_valid v) acc) acc xs). k \<noteq> [] \<and> v \<noteq> []"
    if "\<forall>(k, v)\<in>set xs. k \<noteq> [] \<and> v \<noteq> []" "\<forall>(k, v)\<in>set acc. k \<noteq> [] \<and> v \<noteq> []" for acc xs
    using that
  proof (induction xs arbitrary: acc)
    case (Cons x xs)
    obtain k v where "x = (k, v)" by (cases x) auto
    then show ?case using Cons upd [of acc "to_valid k" "to_valid v"] by (simp add: to_valid_nonempty)
  qed simp
  from this [of "sort_key fst m" "[]"] show ?thesis using assms by (simp add: wire_map_def)
qed

text \<open>What the agent's side accepts is accepted on the server's side.\<close>

lemma metric_ok_wire: "metric_ok m \<Longrightarrow> metric_ok (wire_metric m)"
  using wire_map_nonempty [of "m_labels m"] by (auto simp: metric_ok_def wire_metric_def trim_to_valid valid_constants)

lemma log_entry_ok_wire: "log_entry_ok e \<Longrightarrow> log_entry_ok (wire_log_entry e)"
  by (auto simp: log_entry_ok_def wire_log_entry_def trim_to_valid valid_constants)

lemma metric_batch_validate_wire: "metric_batch_validate b = None \<Longrightarrow> metric_batch_validate (wire_metric_batch b) = None"
  by (auto simp: metric_batch_validate_None wire_metric_batch_def trim_to_valid metric_ok_wire)

lemma log_batch_validate_wire: "log_batch_validate b = None \<Longrightarrow> log_batch_validate (wire_log_batch b) = None"
  by (auto simp: log_batch_validate_None wire_log_batch_def trim_to_valid log_entry_ok_wire)

text \<open>A batch of well-formed entries can be written.\<close>

lemma encode_all_total: "\<forall>x\<in>set xs. \<exists>y. f x = Inr y \<Longrightarrow> \<exists>ys. encode_all f xs = Inr ys"
  by (induction xs) auto

lemma json_array_total: "\<forall>x\<in>set xs. \<exists>y. f x = Inr y \<Longrightarrow> \<exists>j. json_array f xs = Inr j"
  using encode_all_total [of xs f] by (auto simp: json_array_def)

lemma json_of_slice_total: "\<forall>x\<in>set xs. \<exists>y. f x = Inr y \<Longrightarrow> \<exists>j. json_of_slice f xs = Inr j"
  using json_array_total [of xs f] by (simp add: json_of_slice_def)

lemma marshal_metric_batch_total:
  assumes "\<forall>m\<in>set (mb_metrics b). metric_ok m \<and> four_digit_year (m_time m)"
  shows "\<exists>body. marshal_metric_batch b = Inr body"
proof -
  have "\<exists>j. encode_metric m = Inr j" if "m \<in> set (mb_metrics b)" for m
  proof -
    have "is_finite (m_value m)" using assms that by (simp add: metric_ok_def)
    then obtain v where "json_of_float (m_value m) = Inr v" using json_of_float_finite by blast
    then show ?thesis using assms that by (simp add: encode_metric_def json_of_time_def)
  qed
  then obtain ms where "json_of_slice encode_metric (mb_metrics b) = Inr ms"
    using json_of_slice_total [of "mb_metrics b" encode_metric] by auto
  then show ?thesis by (simp add: marshal_metric_batch_def encode_metric_batch_def)
qed

lemma marshal_log_batch_total:
  assumes "\<forall>e\<in>set (lb_entries b). four_digit_year (e_time e)"
  shows "\<exists>body. marshal_log_batch b = Inr body"
proof -
  have "\<exists>j. encode_log_entry e = Inr j" if "e \<in> set (lb_entries b)" for e
    using assms that by (simp add: encode_log_entry_def json_of_time_def)
  then obtain es where "json_of_slice encode_log_entry (lb_entries b) = Inr es"
    using json_of_slice_total [of "lb_entries b" encode_log_entry] by auto
  then show ?thesis by (simp add: marshal_log_batch_def encode_log_batch_def)
qed

end
