(* ===== verification/Alert_Rules.thy ===== *)
theory Alert_Rules
  imports Model_Json
begin

text \<open>
  The alert rules of \<open>internal/server/alerting/alerting.go\<close>: their JSON shape, \<open>ParseRules\<close> and the key a
  rule has in the evaluator.
\<close>

section \<open>Rules\<close>

record rule =
  ru_host :: string
  ru_name :: string
  ru_op :: string
  ru_threshold :: f64
  ru_for :: duration

record rule_json =
  rj_host :: string
  rj_name :: string
  rj_op :: string
  rj_threshold :: f64
  rj_for :: string

datatype rules_error =
    RulesJSON
  | TooManyRules nat
  | RuleHostEmpty nat
  | RuleNameEmpty nat
  | RuleBadOp nat string
  | RuleBadFor nat string

text \<open>The loop of \<open>ParseRules\<close> from index \<open>i\<close>.\<close>

fun parse_rules_from :: "nat \<Rightarrow> rule_json list \<Rightarrow> (rules_error, rule list) result" where
  "parse_rules_from i [] = Inr []"
| "parse_rules_from i (rj # rjs) =
     (if rj_host rj = [] then Inl (RuleHostEmpty i)
      else if rj_name rj = [] then Inl (RuleNameEmpty i)
      else if rj_op rj \<noteq> ''>'' \<and> rj_op rj \<noteq> ''<'' then Inl (RuleBadOp i (rj_op rj))
      else case parse_duration (rj_for rj) of
        None \<Rightarrow> Inl (RuleBadFor i (rj_for rj))
      | Some d \<Rightarrow>
        if d \<le> 0 then Inl (RuleBadFor i (rj_for rj))
        else case parse_rules_from (Suc i) rjs of
          Inl e \<Rightarrow> Inl e
        | Inr rules \<Rightarrow>
          Inr (\<lparr>ru_host = rj_host rj, ru_name = rj_name rj, ru_op = rj_op rj,
                ru_threshold = rj_threshold rj, ru_for = d\<rparr> # rules))"

text \<open>\<open>json.Unmarshal\<close> into a slice of \<open>ruleJSON\<close>.\<close>

definition rule_json_fields :: "(string \<times> rule_json decoder) list" where
  "rule_json_fields =
     [(''host'', \<lambda>r j. map_option (\<lambda>s. r\<lparr>rj_host := s\<rparr>) (decode_string (rj_host r) j)),
      (''name'', \<lambda>r j. map_option (\<lambda>s. r\<lparr>rj_name := s\<rparr>) (decode_string (rj_name r) j)),
      (''op'', \<lambda>r j. map_option (\<lambda>s. r\<lparr>rj_op := s\<rparr>) (decode_string (rj_op r) j)),
      (''threshold'', \<lambda>r j. map_option (\<lambda>v. r\<lparr>rj_threshold := v\<rparr>) (decode_float (rj_threshold r) j)),
      (''for'', \<lambda>r j. map_option (\<lambda>s. r\<lparr>rj_for := s\<rparr>) (decode_string (rj_for r) j))]"

definition zero_rule_json :: rule_json where
  "zero_rule_json = \<lparr>rj_host = [], rj_name = [], rj_op = [], rj_threshold = 0, rj_for = []\<rparr>"

definition unmarshal_rules :: "string \<Rightarrow> rule_json list option" where
  "unmarshal_rules =
     unmarshal_with (\<lambda>j. map_option slice_list (decode_slice (decode_struct rule_json_fields) zero_rule_json ([], 0) j))"

definition parse_rules :: "string \<Rightarrow> (rules_error, rule list) result" where
  "parse_rules raw =
     (if raw = [] then Inr []
      else case unmarshal_rules raw of
        None \<Rightarrow> Inl RulesJSON
      | Some rjs \<Rightarrow>
        if length rjs > 20 then Inl (TooManyRules (length rjs)) else parse_rules_from 0 rjs)"

definition rule_key :: "string \<Rightarrow> string \<Rightarrow> string \<Rightarrow> f64 \<Rightarrow> string" where
  "rule_key host name op threshold = host @ ''/'' @ name @ ''/'' @ op @ ''/'' @ fmt_g threshold"

section \<open>Parsing\<close>

text \<open>What a rule of the configuration means.\<close>

definition rule_reads :: "rule_json \<Rightarrow> rule \<Rightarrow> bool" where
  "rule_reads rj r \<longleftrightarrow>
     rj_host rj \<noteq> [] \<and> rj_name rj \<noteq> [] \<and> (rj_op rj = ''>'' \<or> rj_op rj = ''<'') \<and>
     parse_duration (rj_for rj) = Some (ru_for r) \<and> 0 < ru_for r \<and>
     ru_host r = rj_host rj \<and> ru_name r = rj_name rj \<and> ru_op r = rj_op rj \<and>
     ru_threshold r = rj_threshold rj"

lemma rule_reads_Some:
  assumes "parse_duration (rj_for rj) = Some d"
  shows "rule_reads rj r \<longleftrightarrow>
    rj_host rj \<noteq> [] \<and> rj_name rj \<noteq> [] \<and> (rj_op rj = ''>'' \<or> rj_op rj = ''<'') \<and> 0 < d \<and>
    r = \<lparr>ru_host = rj_host rj, ru_name = rj_name rj, ru_op = rj_op rj, ru_threshold = rj_threshold rj,
         ru_for = d\<rparr>"
  by (cases r) (auto simp: rule_reads_def assms)

lemma parse_rules_from_Cons:
  assumes "tail = parse_rules_from (Suc i) rjs"
  shows "parse_rules_from i (rj # rjs) = Inr rules \<longleftrightarrow>
     (\<exists>r rs. rules = r # rs \<and> rule_reads rj r \<and> tail = Inr rs)"
proof (cases "parse_duration (rj_for rj)")
  case None
  then have "\<not> rule_reads rj r" for r by (simp add: rule_reads_def)
  with None show ?thesis by simp
next
  case (Some d)
  show ?thesis
    by (cases tail) (auto simp add: rule_reads_Some [OF Some] Some simp flip: assms)
qed

lemma parse_rules_from_ok: "parse_rules_from i rjs = Inr rules \<longleftrightarrow> list_all2 rule_reads rjs rules"
proof (induction rjs arbitrary: i rules)
  case (Cons rj rjs)
  show ?case unfolding parse_rules_from_Cons [OF refl] Cons.IH list_all2_Cons1 by blast
qed auto

text \<open>
  C34. The rules are accepted exactly when the JSON decodes, there are at most twenty of them and each
  has a host, a name, one of the two operators and a positive duration; the result is then those
  rules, in order.  The empty string means no rules.
\<close>

theorem parse_rules_accepts:
  "parse_rules raw = Inr rules \<longleftrightarrow>
     (raw = [] \<and> rules = []) \<or>
     (raw \<noteq> [] \<and> (\<exists>rjs. unmarshal_rules raw = Some rjs \<and> length rjs \<le> 20 \<and> list_all2 rule_reads rjs rules))"
  by (auto simp: parse_rules_def parse_rules_from_ok split: option.splits)

end
