(* ===== verification/Metric_Store.thy ===== *)
theory Metric_Store
  imports Model_Json
begin

text \<open>
  The metric repository, \<open>internal/server/storage/metrics.go\<close>, over a PostgreSQL pool.  The pool
  (pgx) and the database behind it are parameters: a record of the calls the repository makes, over a
  database state of any type.  The repository itself, that is the validation of query parameters,
  the statements and their arguments, and the loops over results, is modelled as written.
\<close>

section \<open>The pool\<close>

datatype sql_arg =
    ArgText string
  | ArgTime gotime
  | ArgInt int
  | ArgFloat f64
  | ArgBytes "string option"

type_synonym statement = "string \<times> sql_arg list"

text \<open>A result set: what each \<open>Scan\<close> gives while \<open>rows.Next()\<close> is true, and \<open>rows.Err()\<close> after it.\<close>

record ('e, 'row) rows =
  rows_scans :: "('e, 'row) result list"
  rows_err :: "'e err"

record query_point =
  qp_time :: gotime
  qp_value :: f64

record log_row =
  r_id :: int
  r_time :: gotime
  r_host :: string
  r_path :: string
  r_level :: string
  r_message :: string

record ('db, 'e) pool =
  send_batch :: "statement list \<Rightarrow> 'db \<Rightarrow> (nat \<Rightarrow> 'e err) \<times> 'db"
  query_points :: "statement \<Rightarrow> 'db \<Rightarrow> ('e, ('e, query_point) rows) result"
  query_hosts :: "statement \<Rightarrow> 'db \<Rightarrow> ('e, ('e, string) rows) result"
  query_logs :: "statement \<Rightarrow> 'db \<Rightarrow> ('e, ('e, log_row) rows) result"
  exec_sql :: "string \<Rightarrow> 'db \<Rightarrow> 'e err"

datatype 'e store_error =
    LabelsFailed 'e
  | InsertFailed nat 'e
  | QueryFailed 'e
  | ScanFailed 'e
  | RowsFailed 'e
  | IndexPanic

text \<open>\<open>for i := 0; i < b.Len(); i++ { if _, err := br.Exec(); err != nil { return i, err } }\<close>\<close>

definition exec_batch :: "(nat \<Rightarrow> 'e err) \<Rightarrow> nat \<Rightarrow> nat \<times> 'e store_error err" where
  "exec_batch results n =
     (case first_error results [0..<n] of
        Some (i, e) \<Rightarrow> (i, Some (InsertFailed i e))
      | None \<Rightarrow> (n, None))"

text \<open>\<open>for rows.Next() { if err := rows.Scan(...); err != nil { return nil, err }; append }\<close>\<close>

fun scan_rows :: "('e, 'row) result list \<Rightarrow> ('e store_error, 'row list) result" where
  "scan_rows [] = Inr []"
| "scan_rows (Inl e # rs) = Inl (ScanFailed e)"
| "scan_rows (Inr r # rs) = (case scan_rows rs of Inl e \<Rightarrow> Inl e | Inr xs \<Rightarrow> Inr (r # xs))"

definition read_rows :: "('e, ('e, 'row) rows) result \<Rightarrow> ('e store_error, 'row list) result" where
  "read_rows r =
     (case r of
        Inl e \<Rightarrow> Inl (QueryFailed e)
      | Inr rows \<Rightarrow>
        (case scan_rows (rows_scans rows) of
           Inl e \<Rightarrow> Inl e
         | Inr xs \<Rightarrow> (case rows_err rows of Some e \<Rightarrow> Inl (RowsFailed e) | None \<Rightarrow> Inr xs)))"

lemma scan_rows_Inr [simp]: "scan_rows (map Inr xs) = Inr xs"
  by (induction xs) auto

section \<open>Query parameters\<close>

definition valid_buckets :: "(string \<times> string) list" where
  "valid_buckets =
     [(''1m'', ''1 minute''), (''5m'', ''5 minutes''), (''15m'', ''15 minutes''),
      (''1h'', ''1 hour''), (''1d'', ''1 day'')]"

definition valid_aggs :: "(string \<times> string) list" where
  "valid_aggs = [(''avg'', ''avg''), (''max'', ''max''), (''min'', ''min'')]"

text \<open>The storage package's own copy of the names, kept apart from \<open>valid_metric_names\<close>.\<close>

definition storage_metric_names :: "string list" where
  "storage_metric_names =
     [''cpu.usage_pct'', ''mem.used_pct'', ''mem.used_bytes'', ''mem.total_bytes'',
      ''disk.used_pct'', ''disk.used_bytes'', ''disk.total_bytes'',
      ''net.bytes_in'', ''net.bytes_out'']"

record query_params =
  q_host :: string
  q_name :: string
  q_from :: gotime
  q_to :: gotime
  q_bucket :: string
  q_agg :: string

datatype query_error =
    HostRequired
  | NameRequired
  | QueryUnknownName string
  | InvalidBucket string
  | InvalidAgg string
  | FromNotBeforeTo
  | RangeTooLong

definition query_params_validate :: "query_params \<Rightarrow> query_error err" where
  "query_params_validate p =
     (if trim_space (q_host p) = [] then Some HostRequired
      else if trim_space (q_name p) = [] then Some NameRequired
      else if q_name p \<notin> set storage_metric_names then Some (QueryUnknownName (q_name p))
      else if map_of valid_buckets (q_bucket p) = None then Some (InvalidBucket (q_bucket p))
      else if map_of valid_aggs (q_agg p) = None then Some (InvalidAgg (q_agg p))
      else if \<not> q_from p < q_to p then Some FromNotBeforeTo
      else if time_sub (q_to p) (q_from p) > 30 * 24 * hour then Some RangeTooLong
      else None)"

section \<open>Statements\<close>

definition insert_metric_sql :: string where
  "insert_metric_sql = ''INSERT INTO metrics (time, host, name, value, labels) VALUES ($1,$2,$3,$4,$5)''"

definition quote :: char where
  "quote = CHR 0x27"

text \<open>A map lookup in Go gives the empty string for a missing key.\<close>

definition lookup_or_empty :: "(string \<times> string) list \<Rightarrow> string \<Rightarrow> string" where
  "lookup_or_empty m k = (case map_of m k of Some v \<Rightarrow> v | None \<Rightarrow> [])"

definition query_sql :: "string \<Rightarrow> string \<Rightarrow> string" where
  "query_sql bucket_literal agg_fn =
     newline # ''        SELECT time_bucket('' @ quote # bucket_literal @ quote # '', time) AS bucket,'' @
     newline # ''               '' @ agg_fn @ ''(value) AS value'' @
     newline # ''        FROM metrics'' @
     newline # ''        WHERE host = $1'' @
     newline # ''          AND name = $2'' @
     newline # ''          AND time >= $3'' @
     newline # ''          AND time <= $4'' @
     newline # ''        GROUP BY bucket'' @
     newline # ''        ORDER BY bucket DESC''"

definition metric_query_statement :: "query_params \<Rightarrow> statement" where
  "metric_query_statement p =
     (query_sql (lookup_or_empty valid_buckets (q_bucket p)) (lookup_or_empty valid_aggs (q_agg p)),
      [ArgText (q_host p), ArgText (q_name p), ArgTime (q_from p), ArgTime (q_to p)])"

definition hosts_sql :: string where
  "hosts_sql = ''SELECT DISTINCT host FROM metrics WHERE time > $1 ORDER BY host''"

section \<open>The repository\<close>

text \<open>The queueing loop of \<open>Insert\<close>; \<open>marshal\<close> is \<open>json.Marshal\<close> on the labels.\<close>

fun queue_metrics ::
  "((string \<times> string) list \<Rightarrow> ('e, string) result) \<Rightarrow> metric list \<Rightarrow> ('e store_error, statement list) result"
where
  "queue_metrics marshal [] = Inr []"
| "queue_metrics marshal (m # ms) =
     (case (if length (m_labels m) > 0 then map_sum id Some (marshal (m_labels m)) else Inr None) of
        Inl e \<Rightarrow> Inl (LabelsFailed e)
      | Inr labels \<Rightarrow>
        (case queue_metrics marshal ms of
           Inl e \<Rightarrow> Inl e
         | Inr b \<Rightarrow>
           Inr ((insert_metric_sql,
                 [ArgTime (m_time m), ArgText (m_host m), ArgText (m_name m), ArgFloat (m_value m),
                  ArgBytes labels]) # b)))"

definition insert_metrics ::
  "('db, 'e) pool \<Rightarrow> ((string \<times> string) list \<Rightarrow> ('e, string) result) \<Rightarrow> metric_batch \<Rightarrow> 'db \<Rightarrow>
     (nat \<times> 'e store_error err) \<times> 'db" where
  "insert_metrics pool marshal batch db =
     (case queue_metrics marshal (mb_metrics batch) of
        Inl e \<Rightarrow> ((0, Some e), db)
      | Inr b \<Rightarrow> let (results, db') = send_batch pool b db in (exec_batch results (length b), db'))"

definition query_metrics ::
  "('db, 'e) pool \<Rightarrow> query_params \<Rightarrow> 'db \<Rightarrow> ('e store_error, query_point list) result" where
  "query_metrics pool p db = read_rows (query_points pool (metric_query_statement p) db)"

definition ping_metrics :: "('db, 'e) pool \<Rightarrow> 'db \<Rightarrow> 'e err" where
  "ping_metrics pool db = exec_sql pool ''SELECT 1'' db"

text \<open>\<open>Hosts\<close> returns the hosts read so far together with \<open>rows.Err()\<close>.\<close>

definition metric_hosts ::
  "('db, 'e) pool \<Rightarrow> gotime \<Rightarrow> duration \<Rightarrow> 'db \<Rightarrow> string list \<times> 'e store_error err" where
  "metric_hosts pool now window db =
     (case query_hosts pool (hosts_sql, [ArgTime (now - window)]) db of
        Inl e \<Rightarrow> ([], Some (QueryFailed e))
      | Inr rows \<Rightarrow>
        (case scan_rows (rows_scans rows) of
           Inl e \<Rightarrow> ([], Some e)
         | Inr hosts \<Rightarrow> (hosts, map_option RowsFailed (rows_err rows))))"

section \<open>Facts\<close>

lemma exec_batch_ok: "exec_batch f n = (k, None) \<longleftrightarrow> k = n \<and> (\<forall>i<n. f i = None)"
  using first_error_upt [of f n]
  by (cases "first_error f [0..<n]") (auto simp: exec_batch_def)

lemma exec_batch_error:
  "exec_batch f n = (k, Some e) \<longleftrightarrow>
     k < n \<and> (\<exists>e'. e = InsertFailed k e' \<and> f k = Some e') \<and> (\<forall>i<k. f i = None)"
proof (cases "first_error f [0..<n]")
  case None
  then show ?thesis using first_error_upt(1) [of f n] by (auto simp: exec_batch_def)
next
  case (Some ie)
  then obtain i e' where ie: "ie = (i, e')" "i < n" "f i = Some e'" "\<forall>j<i. f j = None"
    using first_error_upt(2) [of f n] by (cases ie) auto
  then have "k = i" if "f k = Some x" "\<forall>j<k. f j = None" for x
    using that by (metis linorder_neqE_nat option.distinct(1))
  with Some ie show ?thesis by (auto simp: exec_batch_def)
qed

lemma queue_metrics_length: "queue_metrics marshal ms = Inr b \<Longrightarrow> length b = length ms"
  by (induction ms arbitrary: b) (auto split: sum.splits)

lemma queue_metrics_nth:
  "queue_metrics marshal ms = Inr b \<Longrightarrow> i < length ms \<Longrightarrow>
     \<exists>labels. b ! i = (insert_metric_sql,
       [ArgTime (m_time (ms ! i)), ArgText (m_host (ms ! i)), ArgText (m_name (ms ! i)),
        ArgFloat (m_value (ms ! i)), ArgBytes labels])"
  by (induction ms arbitrary: b i) (force simp: nth_Cons split: sum.splits nat.splits)+

lemma lookup_in_map: "map_of m k = Some v \<Longrightarrow> lookup_or_empty m k = v"
  by (simp add: lookup_or_empty_def)

text \<open>
  Inserting a batch reports success exactly when every row's statement succeeded, and then with
  the number of metrics; the rows go to the database one statement per metric, in the batch's order.
  A failure is reported with the index of the first row that failed.
\<close>

theorem insert_metrics_count:
  assumes "queue_metrics marshal (mb_metrics batch) = Inr b"
  shows "length b = length (mb_metrics batch) \<and>
    (fst (insert_metrics pool marshal batch db) = (n, None) \<longleftrightarrow>
       n = length (mb_metrics batch) \<and> (\<forall>i<n. fst (send_batch pool b db) i = None)) \<and>
    (fst (insert_metrics pool marshal batch db) = (n, Some e) \<longleftrightarrow>
       n < length (mb_metrics batch) \<and> (\<exists>e'. e = InsertFailed n e' \<and> fst (send_batch pool b db) n = Some e') \<and>
       (\<forall>i<n. fst (send_batch pool b db) i = None))"
  using queue_metrics_length [OF assms]
  by (auto simp: insert_metrics_def assms case_prod_unfold Let_def exec_batch_ok exec_batch_error)

lemma insert_metrics_count_witness:
  "fst (insert_metrics
      \<lparr>send_batch = (\<lambda>b db. (\<lambda>i. if i = 1 then Some ''conn lost'' else None, db)),
       query_points = (\<lambda>q db. Inl []), query_hosts = (\<lambda>q db. Inl []), query_logs = (\<lambda>q db. Inl []),
       exec_sql = (\<lambda>q db. None)\<rparr> (\<lambda>l. Inr ''{}'')
      \<lparr>mb_host = ''h'', mb_metrics =
        [\<lparr>m_time = 1, m_host = ''h'', m_name = ''n'', m_value = 1, m_labels = []\<rparr>,
         \<lparr>m_time = 2, m_host = ''h'', m_name = ''n'', m_value = 1, m_labels = [(''a'', ''b'')]\<rparr>]\<rparr> ())
    = (1, Some (InsertFailed 1 ''conn lost''))"
  using insert_metrics_count
    [of "\<lambda>l. Inr ''{}''"
      "\<lparr>mb_host = ''h'', mb_metrics =
        [\<lparr>m_time = 1, m_host = ''h'', m_name = ''n'', m_value = 1, m_labels = []\<rparr>,
         \<lparr>m_time = 2, m_host = ''h'', m_name = ''n'', m_value = 1, m_labels = [(''a'', ''b'')]\<rparr>]\<rparr>"
      "[(insert_metric_sql, [ArgTime 1, ArgText ''h'', ArgText ''n'', ArgFloat 1, ArgBytes None]),
        (insert_metric_sql, [ArgTime 2, ArgText ''h'', ArgText ''n'', ArgFloat 1, ArgBytes (Some ''{}'')])]"
      "\<lparr>send_batch = (\<lambda>b db. (\<lambda>i. if i = 1 then Some ''conn lost'' else None, db)),
       query_points = (\<lambda>q db. Inl []), query_hosts = (\<lambda>q db. Inl []), query_logs = (\<lambda>q db. Inl []),
       exec_sql = (\<lambda>q db. None)\<rparr>" "()" 1 "InsertFailed 1 ''conn lost''"]
  by simp

text \<open>
  Parameters pass validation exactly when host and name are not blank, name, bucket and
  aggregation are on their lists, and the range is not empty and at most 30 days long; the bound is
  on the true length of the range, although \<open>Sub\<close> saturates.
\<close>

theorem query_params_validate_iff:
  "query_params_validate p = None \<longleftrightarrow>
     trim_space (q_host p) \<noteq> [] \<and> q_name p \<in> set valid_metric_names \<and>
     q_bucket p \<in> set (map fst valid_buckets) \<and> q_agg p \<in> set (map fst valid_aggs) \<and>
     0 < q_to p - q_from p \<and> q_to p - q_from p \<le> 30 * 24 * hour"
proof -
  have gt: "30 * 24 * hour < time_sub (q_to p) (q_from p) \<longleftrightarrow> 30 * 24 * hour < q_to p - q_from p"
    by (rule time_sub_gt) (simp_all add: hour_def max_duration_def min_duration_def)
  have names: "q_name p \<in> set storage_metric_names \<Longrightarrow> trim_space (q_name p) \<noteq> []"
    using solid_trim_space_nonempty [of "CHR ''e''" "q_name p"] solid_trim_space_nonempty [of "CHR ''u''" "q_name p"]
    by (auto simp: storage_metric_names_def solid_def space_seqs_def)
  have sync: "storage_metric_names = valid_metric_names"
    by (simp add: storage_metric_names_def valid_metric_names_def)
  show ?thesis
    using gt names by (auto simp: query_params_validate_def sync map_of_eq_None_iff)
qed

text \<open>
  Of a validated query only the bucket and the aggregation reach the text of the statement, and
  those as entries of the two lists: the text is one of fifteen, and host, name and range travel as
  bound arguments \<open>$1\<close> to \<open>$4\<close>.
\<close>

lemma metric_query_text_closed:
  assumes "query_params_validate p = None"
  shows "fst (metric_query_statement p) \<in>
      {query_sql b a | b a. b \<in> set (map snd valid_buckets) \<and> a \<in> set (map snd valid_aggs)} \<and>
    snd (metric_query_statement p) =
      [ArgText (q_host p), ArgText (q_name p), ArgTime (q_from p), ArgTime (q_to p)]"
proof -
  obtain b a where "map_of valid_buckets (q_bucket p) = Some b" "map_of valid_aggs (q_agg p) = Some a"
    using assms by (auto simp: query_params_validate_def split: if_splits)
  moreover from this have "b \<in> set (map snd valid_buckets)" "a \<in> set (map snd valid_aggs)"
    by (blast dest: map_of_value)+
  ultimately show ?thesis by (auto simp: metric_query_statement_def lookup_in_map)
qed


end
