(* ===== verification/Alarm_Traces.thy ===== *)
theory Alarm_Traces
  imports Prelude
begin

text \<open>
  The contract shared by the host tracker and the alert evaluator: an alarm is raised on a
  transition only, so between two alarms of one key the key was cleared.  A component shows the law
  of the locale \<open>edge_trigger\<close> for a single step and obtains the property of whole runs.
\<close>

section \<open>Observations and their replay\<close>

datatype 'k obs = Raise 'k | Clear 'k

text \<open>\<open>replay F os\<close> follows the observations from the flagged keys \<open>F\<close>; raising a flagged key is
  illegal.\<close>

fun replay :: "'k set \<Rightarrow> 'k obs list \<Rightarrow> 'k set option" where
  "replay F [] = Some F"
| "replay F (Raise k # os) = (if k \<in> F then None else replay (insert k F) os)"
| "replay F (Clear k # os) = replay (F - {k}) os"

lemma replay_append:
  "replay F (xs @ ys) = (case replay F xs of None \<Rightarrow> None | Some G \<Rightarrow> replay G ys)"
  by (induction F xs rule: replay.induct) auto

lemma replay_kept:
  "replay F os = Some G \<Longrightarrow> k \<in> F \<Longrightarrow> Clear k \<notin> set os \<Longrightarrow> k \<in> G \<and> Raise k \<notin> set os"
  by (induction F os rule: replay.induct) (auto split: if_splits)

lemma replay_between:
  assumes "replay F (xs @ Raise k # ys @ Raise k # zs) = Some G"
  shows "Clear k \<in> set ys"
proof (rule ccontr)
  assume "Clear k \<notin> set ys"
  obtain F' where "replay F' (Raise k # ys @ Raise k # zs) = Some G"
    using assms by (auto simp: replay_append split: option.splits)
  then obtain H where "replay (insert k F') ys = Some H" "k \<notin> H"
    by (auto simp: replay_append split: if_splits option.splits)
  with replay_kept [of "insert k F'" ys H k] \<open>Clear k \<notin> set ys\<close> show False by simp
qed

text \<open>Conversely a key that ends up flagged, and was not flagged at the start, was raised.\<close>

lemma replay_raised: "replay F os = Some G \<Longrightarrow> k \<notin> F \<Longrightarrow> k \<in> G \<Longrightarrow> Raise k \<in> set os"
  by (induction F os rule: replay.induct) (auto split: if_splits)

lemma replay_count:
  assumes "replay F os = Some G" "Clear k \<notin> set os"
  shows "count_list os (Raise k) = (if k \<notin> F \<and> k \<in> G then 1 else 0)"
  using assms
proof (induction F os rule: replay.induct)
  case (2 F j os)
  then show ?case using replay_kept [of "insert j F" os G j] by (auto split: if_splits)
qed auto

section \<open>Runs\<close>

fun run_steps :: "('s \<Rightarrow> 'e \<Rightarrow> 's \<times> 'k obs list) \<Rightarrow> 's \<Rightarrow> 'e list \<Rightarrow> 's \<times> 'k obs list" where
  "run_steps step s [] = (s, [])"
| "run_steps step s (e # es) =
     (let (s', os) = step s e; (s'', os') = run_steps step s' es in (s'', os @ os'))"

lemma run_steps_append:
  "run_steps step s (xs @ ys) =
     (let (s', os) = run_steps step s xs; (s'', os') = run_steps step s' ys in (s'', os @ os'))"
  by (induction xs arbitrary: s) (auto simp: case_prod_unfold Let_def)

locale edge_trigger =
  fixes step :: "'s \<Rightarrow> 'e \<Rightarrow> 's \<times> 'k obs list"
    and flagged :: "'s \<Rightarrow> 'k set"
  assumes step_replay: "replay (flagged s) (snd (step s e)) = Some (flagged (fst (step s e)))"
begin

lemma run_replay:
  "replay (flagged s) (snd (run_steps step s es)) = Some (flagged (fst (run_steps step s es)))"
proof (induction es arbitrary: s)
  case (Cons e es)
  obtain s' os where e: "step s e = (s', os)" by (cases "step s e")
  obtain s'' os' where es: "run_steps step s' es = (s'', os')" by (cases "run_steps step s' es")
  show ?case
    using Cons [of s'] step_replay [of s e] by (simp add: e es replay_append)
qed simp

lemma cleared_between:
  "snd (run_steps step s es) = xs @ Raise k # ys @ Raise k # zs \<Longrightarrow> Clear k \<in> set ys"
  using run_replay [of s es] replay_between by metis

lemma raised_if_flagged:
  "k \<notin> flagged s \<Longrightarrow> k \<in> flagged (fst (run_steps step s es)) \<Longrightarrow> Raise k \<in> set (snd (run_steps step s es))"
  using run_replay [of s es] replay_raised by metis

end

end
