(* ===== verification/Alerting.thy ===== *)
theory Alerting
  imports Alert_Rules Metric_Store Alarm_Traces
begin

text \<open>
  The evaluator of \<open>internal/server/alerting/alerting.go\<close>.  The metric querier is a parameter; it
  threads a database state of any type, so two queries may see different data.  The map of
  alert states is a map on the key strings; iteration over it takes the order as an argument.
\<close>

section \<open>The evaluator\<close>

datatype alert_state = StateFiring | StateOK

record alert =
  al_rule :: rule
  al_state :: alert_state
  al_updated_at :: gotime
  al_value :: f64

datatype event_kind = Firing | Resolved

record notification =
  nt_event :: event_kind
  nt_rule :: rule
  nt_value :: f64
  nt_fired_at :: gotime

text \<open>The querier \<open>MetricQuerier\<close>; each call may change the state of the database.\<close>

record ('db, 'e) querier =
  qr_query :: "query_params \<Rightarrow> 'db \<Rightarrow> ('e, query_point list) result \<times> 'db"
  qr_hosts :: "duration \<Rightarrow> 'db \<Rightarrow> ('e, string list) result \<times> 'db"

record 'n evaluator =
  ev_rules :: "rule list"
  ev_state :: "string \<rightharpoonup> alert"
  ev_notifiers :: "'n list"

text \<open>\<open>notifiers\<close> is what the option \<open>WithNotifiers\<close> sets; without it the slice is nil.\<close>

definition new_evaluator :: "rule list \<Rightarrow> 'n list \<Rightarrow> 'n evaluator" where
  "new_evaluator rules notifiers =
     \<lparr>ev_rules = rules, ev_state = Map.empty, ev_notifiers = notifiers\<rparr>"

definition active_alerts :: "string list \<Rightarrow> 'n evaluator option \<Rightarrow> alert list" where
  "active_alerts order e =
     (case e of None \<Rightarrow> [] | Some ev \<Rightarrow> List.map_filter (ev_state ev) order)"

text \<open>
  \<open>notifyAll\<close> starts one goroutine per notifier; the result lists the calls it starts, by the index
  of the notifier.  They run concurrently, so nothing is said of the order in which they finish.
\<close>

type_synonym calls = "(nat \<times> notification) list"

definition notify_all :: "'n evaluator \<Rightarrow> event_kind \<Rightarrow> rule \<Rightarrow> f64 \<Rightarrow> gotime \<Rightarrow> calls" where
  "notify_all ev event r v t =
     (if length (ev_notifiers ev) = 0 then []
      else map (\<lambda>i. (i, \<lparr>nt_event = event, nt_rule = r, nt_value = v, nt_fired_at = t\<rparr>))
             [0..<length (ev_notifiers ev)])"

definition hosts_for ::
  "('db, 'e) querier \<Rightarrow> rule \<Rightarrow> 'db \<Rightarrow> string list \<times> 'db" where
  "hosts_for q r db =
     (if ru_host r \<noteq> ''*'' then ([ru_host r], db)
      else case qr_hosts q (30 * minute) db of
        (Inl e, db') \<Rightarrow> ([], db')
      | (Inr hosts, db') \<Rightarrow> (hosts, db'))"

definition mean_value :: "query_point list \<Rightarrow> f64" where
  "mean_value points =
     foldl (\<lambda>s p. s + qp_value p) (Fin 0) points div f64_of_int (int (length points))"

definition is_firing :: "rule \<Rightarrow> f64 \<Rightarrow> bool" where
  "is_firing r mean \<longleftrightarrow>
     (ru_op r = ''>'' \<and> ru_threshold r < mean) \<or> (ru_op r = ''<'' \<and> mean < ru_threshold r)"

definition alert_params :: "gotime \<Rightarrow> rule \<Rightarrow> string \<Rightarrow> query_params" where
  "alert_params now r host =
     \<lparr>q_host = host, q_name = ru_name r, q_from = now - ru_for r, q_to = now, q_bucket = ''1m'',
      q_agg = ''avg''\<rparr>"

text \<open>The part of the loop body after the query: record the new state and notify on a transition.\<close>

definition record_mean ::
  "gotime \<Rightarrow> rule \<Rightarrow> string \<Rightarrow> f64 \<Rightarrow> 'n evaluator \<Rightarrow> 'n evaluator \<times> calls" where
  "record_mean now r host mean ev =
     (let new_state = (if is_firing r mean then StateFiring else StateOK);
          key = rule_key host (ru_name r) (ru_op r) (ru_threshold r);
          prev = ev_state ev key;
          r' = \<lparr>ru_host = host, ru_name = ru_name r, ru_op = ru_op r, ru_threshold = ru_threshold r,
                ru_for = ru_for r\<rparr>;
          ev' = ev\<lparr>ev_state := (ev_state ev)(key \<mapsto>
                  \<lparr>al_rule = r', al_state = new_state, al_updated_at = now, al_value = mean\<rparr>)\<rparr>
      in if prev = None \<or> al_state (the prev) \<noteq> new_state
         then if new_state = StateFiring then (ev', notify_all ev' Firing r' mean now)
              else if prev \<noteq> None \<and> al_state (the prev) = StateFiring
                   then (ev', notify_all ev' Resolved r' mean now)
                   else (ev', [])
         else (ev', []))"

text \<open>One iteration of the inner loop.\<close>

definition eval_host ::
  "('db, 'e) querier \<Rightarrow> gotime \<Rightarrow> rule \<Rightarrow> string \<Rightarrow> 'n evaluator \<Rightarrow> 'db \<Rightarrow> ('n evaluator \<times> calls) \<times> 'db"
where
  "eval_host q now r host ev db =
     (case qr_query q (alert_params now r host) db of
        (Inl e, db') \<Rightarrow> ((ev, []), db')
      | (Inr points, db') \<Rightarrow>
        if length points = 0 then ((ev, []), db')
        else (record_mean now r host (mean_value points) ev, db'))"

fun eval_hosts ::
  "('db, 'e) querier \<Rightarrow> gotime \<Rightarrow> rule \<Rightarrow> string list \<Rightarrow> 'n evaluator \<Rightarrow> 'db \<Rightarrow>
     ('n evaluator \<times> calls) \<times> 'db" where
  "eval_hosts q now r [] ev db = ((ev, []), db)"
| "eval_hosts q now r (h # hs) ev db =
     (let ((ev1, cs1), db1) = eval_host q now r h ev db;
          ((ev2, cs2), db2) = eval_hosts q now r hs ev1 db1
      in ((ev2, cs1 @ cs2), db2))"

fun eval_rules ::
  "('db, 'e) querier \<Rightarrow> gotime \<Rightarrow> rule list \<Rightarrow> 'n evaluator \<Rightarrow> 'db \<Rightarrow> ('n evaluator \<times> calls) \<times> 'db" where
  "eval_rules q now [] ev db = ((ev, []), db)"
| "eval_rules q now (r # rs) ev db =
     (let (hosts, db0) = hosts_for q r db;
          ((ev1, cs1), db1) = eval_hosts q now r hosts ev db0;
          ((ev2, cs2), db2) = eval_rules q now rs ev1 db1
      in ((ev2, cs1 @ cs2), db2))"

definition evaluate ::
  "('db, 'e) querier \<Rightarrow> gotime \<Rightarrow> 'n evaluator \<Rightarrow> 'db \<Rightarrow> ('n evaluator \<times> calls) \<times> 'db" where
  "evaluate q now ev db = eval_rules q now (ev_rules ev) ev db"

definition notify_host_down :: "gotime \<Rightarrow> string \<Rightarrow> 'n evaluator option \<Rightarrow> calls" where
  "notify_host_down now host e =
     (case e of
        None \<Rightarrow> []
      | Some ev \<Rightarrow>
        notify_all ev Firing
          \<lparr>ru_host = host, ru_name = ''host.down'', ru_op = ''>'', ru_threshold = Fin 0, ru_for = 0\<rparr>
          (Fin 0) now)"

section \<open>Evaluation\<close>

definition notification_key :: "notification \<Rightarrow> string" where
  "notification_key n =
     rule_key (ru_host (nt_rule n)) (ru_name (nt_rule n)) (ru_op (nt_rule n)) (ru_threshold (nt_rule n))"

text \<open>What the notifier number \<open>i\<close> is told, by key.\<close>

definition alert_obs :: "nat \<Rightarrow> calls \<Rightarrow> string obs list" where
  "alert_obs i cs =
     map (\<lambda>(j, n). case nt_event n of Firing \<Rightarrow> Raise (notification_key n) | Resolved \<Rightarrow> Clear (notification_key n))
       (filter (\<lambda>(j, n). j = i) cs)"

definition told :: "nat \<Rightarrow> 'n evaluator \<Rightarrow> string set" where
  "told i ev =
     (if i < length (ev_notifiers ev)
      then {k. \<exists>a. ev_state ev k = Some a \<and> al_state a = StateFiring} else {})"

lemma alert_obs_append [simp]: "alert_obs i (cs @ ds) = alert_obs i cs @ alert_obs i ds"
  by (simp add: alert_obs_def)

lemma alert_obs_Nil [simp]: "alert_obs i [] = []"
  by (simp add: alert_obs_def)

lemma filter_index: "i < n \<Longrightarrow> filter (\<lambda>j. j = i) [0..<n] = [i]"
  by (induction n) (auto simp: less_Suc_eq filter_empty_conv)

lemma alert_obs_notify_all:
  "alert_obs i (notify_all ev event r v t) =
     (if i < length (ev_notifiers ev)
      then let k = rule_key (ru_host r) (ru_name r) (ru_op r) (ru_threshold r)
           in [case event of Firing \<Rightarrow> Raise k | Resolved \<Rightarrow> Clear k]
      else [])"
proof (cases "i < length (ev_notifiers ev)")
  case True
  then have "filter (\<lambda>j. j = i) [0..<length (ev_notifiers ev)] = [i]" by (rule filter_index)
  with True show ?thesis
    by (auto simp: alert_obs_def notify_all_def notification_key_def filter_map comp_def Let_def
        split: event_kind.split)
next
  case False
  then show ?thesis by (auto simp: alert_obs_def notify_all_def filter_empty_conv)
qed

lemma record_mean_replay:
  "replay (told i ev) (alert_obs i (snd (record_mean now r host mean ev))) =
     Some (told i (fst (record_mean now r host mean ev)))"
proof -
  let ?k = "rule_key host (ru_name r) (ru_op r) (ru_threshold r)"
  consider "ev_state ev ?k = None" | a where "ev_state ev ?k = Some a" by blast
  then show ?thesis
    by cases
      (auto simp: record_mean_def alert_obs_notify_all told_def Let_def split: alert_state.splits
        elim: alert_state.exhaust)
qed

lemma eval_host_replay:
  "eval_host q now r h ev db = ((ev', cs), db') \<Longrightarrow> replay (told i ev) (alert_obs i cs) = Some (told i ev')"
  using record_mean_replay [of i ev now r h]
  by (auto simp: eval_host_def split: prod.splits sum.splits if_splits) (metis fst_conv snd_conv)

lemma eval_hosts_replay:
  "eval_hosts q now r hs ev db = ((ev', cs), db') \<Longrightarrow> replay (told i ev) (alert_obs i cs) = Some (told i ev')"
proof (induction hs arbitrary: ev db ev' cs db')
  case (Cons h hs)
  obtain ev1 cs1 db1 where 1: "eval_host q now r h ev db = ((ev1, cs1), db1)" by (metis surj_pair)
  obtain ev2 cs2 db2 where 2: "eval_hosts q now r hs ev1 db1 = ((ev2, cs2), db2)" by (metis surj_pair)
  from Cons.prems 1 2 eval_host_replay [OF 1] Cons.IH [OF 2] show ?case by (auto simp: replay_append)
qed simp

lemma eval_rules_replay:
  "eval_rules q now rs ev db = ((ev', cs), db') \<Longrightarrow> replay (told i ev) (alert_obs i cs) = Some (told i ev')"
proof (induction rs arbitrary: ev db ev' cs db')
  case (Cons r rs)
  obtain hosts db0 where 0: "hosts_for q r db = (hosts, db0)" by (metis surj_pair)
  obtain ev1 cs1 db1 where 1: "eval_hosts q now r hosts ev db0 = ((ev1, cs1), db1)" by (metis surj_pair)
  obtain ev2 cs2 db2 where 2: "eval_rules q now rs ev1 db1 = ((ev2, cs2), db2)" by (metis surj_pair)
  from Cons.prems 0 1 2 eval_hosts_replay [OF 1] Cons.IH [OF 2] show ?case by (auto simp: replay_append)
qed simp

text \<open>Runs of \<open>evaluate\<close>, seen by notifier \<open>i\<close>; an event is the time of a tick.\<close>

definition evaluator_step ::
  "('db, 'e) querier \<Rightarrow> nat \<Rightarrow> 'n evaluator \<times> 'db \<Rightarrow> gotime \<Rightarrow> ('n evaluator \<times> 'db) \<times> string obs list" where
  "evaluator_step q i s now =
     (let ((ev', cs), db') = evaluate q now (fst s) (snd s) in ((ev', db'), alert_obs i cs))"

interpretation alert_alarms: edge_trigger "evaluator_step q i" "\<lambda>s. told i (fst s)" for q i
proof
  fix s now
  obtain ev' cs db' where e: "evaluate q now (fst s) (snd s) = ((ev', cs), db')" by (metis surj_pair)
  from eval_rules_replay [OF e [unfolded evaluate_def]]
  show "replay (told i (fst s)) (snd (evaluator_step q i s now)) =
      Some (told i (fst (fst (evaluator_step q i s now))))"
    by (simp add: evaluator_step_def e)
qed

text \<open>
  C6. In any run of evaluations, whatever the data, two \<open>firing\<close> notifications of one alert key to one
  notifier have a \<open>resolved\<close> notification of that key between them.
\<close>

theorem one_firing_per_incident:
  assumes "snd (run_steps (evaluator_step q i) (ev, db) nows) = xs @ Raise k # ys @ Raise k # zs"
  shows "Clear k \<in> set ys"
  using assms by (rule alert_alarms.cleared_between)

text \<open>
  What the table of alert states means: every entry stands under the key of its own rule, is firing
  exactly when its value passes the threshold, and comes from a configured rule.
\<close>

definition alert_ok :: "rule list \<Rightarrow> string \<Rightarrow> alert \<Rightarrow> bool" where
  "alert_ok rules k a \<longleftrightarrow>
     k = rule_key (ru_host (al_rule a)) (ru_name (al_rule a)) (ru_op (al_rule a)) (ru_threshold (al_rule a)) \<and>
     (al_state a = StateFiring \<longleftrightarrow> is_firing (al_rule a) (al_value a)) \<and>
     (\<exists>r\<in>set rules. al_rule a = r\<lparr>ru_host := ru_host (al_rule a)\<rparr> \<and>
        (ru_host r \<noteq> ''*'' \<longrightarrow> ru_host (al_rule a) = ru_host r))"

definition alerts_ok :: "'n evaluator \<Rightarrow> bool" where
  "alerts_ok ev \<longleftrightarrow> (\<forall>k a. ev_state ev k = Some a \<longrightarrow> alert_ok (ev_rules ev) k a)"

text \<open>An evaluation keeps the rules and the notifiers.\<close>

definition same_config :: "'n evaluator \<Rightarrow> 'n evaluator \<Rightarrow> bool" where
  "same_config ev ev' \<longleftrightarrow> ev_rules ev' = ev_rules ev \<and> ev_notifiers ev' = ev_notifiers ev"

lemma record_mean_ok:
  assumes "alerts_ok ev" "r \<in> set (ev_rules ev)" "ru_host r \<noteq> ''*'' \<longrightarrow> h = ru_host r"
  shows "alerts_ok (fst (record_mean now r h mean ev)) \<and> same_config ev (fst (record_mean now r h mean ev))"
proof -
  let ?r = "\<lparr>ru_host = h, ru_name = ru_name r, ru_op = ru_op r, ru_threshold = ru_threshold r, ru_for = ru_for r\<rparr>"
  let ?k = "rule_key h (ru_name r) (ru_op r) (ru_threshold r)"
  let ?a = "\<lparr>al_rule = ?r, al_state = if is_firing r mean then StateFiring else StateOK,
    al_updated_at = now, al_value = mean\<rparr>"
  have ev': "fst (record_mean now r h mean ev) = ev\<lparr>ev_state := (ev_state ev)(?k \<mapsto> ?a)\<rparr>"
    by (simp add: record_mean_def Let_def)
  have "alert_ok (ev_rules ev) ?k ?a"
    using assms(2,3) by (auto simp: alert_ok_def is_firing_def intro!: bexI [of _ r])
  with assms(1) show ?thesis by (auto simp: ev' alerts_ok_def same_config_def)
qed

lemma eval_host_ok:
  assumes "eval_host q now r h ev db = ((ev', cs), db')"
    and "alerts_ok ev" "r \<in> set (ev_rules ev)" "ru_host r \<noteq> ''*'' \<longrightarrow> h = ru_host r"
  shows "alerts_ok ev' \<and> same_config ev ev'"
proof -
  have "ev' = ev \<or> (\<exists>m. ev' = fst (record_mean now r h m ev))"
    using assms(1) by (auto simp: eval_host_def split: prod.splits sum.splits if_splits) (metis fst_conv)
  with record_mean_ok [OF assms(2-4)] assms(2) show ?thesis by (auto simp: same_config_def)
qed

lemma eval_hosts_ok:
  "eval_hosts q now r hs ev db = ((ev', cs), db') \<Longrightarrow> alerts_ok ev \<Longrightarrow> r \<in> set (ev_rules ev) \<Longrightarrow>
     \<forall>h\<in>set hs. ru_host r \<noteq> ''*'' \<longrightarrow> h = ru_host r \<Longrightarrow> alerts_ok ev' \<and> same_config ev ev'"
proof (induction hs arbitrary: ev db ev' cs db')
  case (Cons h hs)
  obtain ev1 cs1 db1 where 1: "eval_host q now r h ev db = ((ev1, cs1), db1)" by (metis surj_pair)
  obtain ev2 cs2 db2 where 2: "eval_hosts q now r hs ev1 db1 = ((ev2, cs2), db2)" by (metis surj_pair)
  have "alerts_ok ev1 \<and> same_config ev ev1" using eval_host_ok [OF 1] Cons.prems by simp
  with Cons.IH [OF 2] Cons.prems 1 2 show ?case by (auto simp: same_config_def)
qed (simp add: same_config_def)

lemma hosts_for_rule: "hosts_for q r db = (hosts, db') \<Longrightarrow> ru_host r \<noteq> ''*'' \<Longrightarrow> hosts = [ru_host r]"
  by (simp add: hosts_for_def)

lemma eval_rules_ok:
  "eval_rules q now rs ev db = ((ev', cs), db') \<Longrightarrow> alerts_ok ev \<Longrightarrow> set rs \<subseteq> set (ev_rules ev) \<Longrightarrow>
     alerts_ok ev' \<and> same_config ev ev'"
proof (induction rs arbitrary: ev db ev' cs db')
  case (Cons r rs)
  obtain hosts db0 where 0: "hosts_for q r db = (hosts, db0)" by (metis surj_pair)
  obtain ev1 cs1 db1 where 1: "eval_hosts q now r hosts ev db0 = ((ev1, cs1), db1)" by (metis surj_pair)
  obtain ev2 cs2 db2 where 2: "eval_rules q now rs ev1 db1 = ((ev2, cs2), db2)" by (metis surj_pair)
  have "alerts_ok ev1 \<and> same_config ev ev1"
    using eval_hosts_ok [OF 1] Cons.prems hosts_for_rule [OF 0] by auto
  with Cons.IH [OF 2] Cons.prems 0 1 2 show ?case by (auto simp: same_config_def)
qed (simp add: same_config_def)

lemma run_alerts_ok:
  "alerts_ok (fst s) \<Longrightarrow>
     alerts_ok (fst (fst (run_steps (evaluator_step q i) s nows))) \<and>
     same_config (fst s) (fst (fst (run_steps (evaluator_step q i) s nows)))"
proof (induction nows arbitrary: s)
  case (Cons now nows)
  obtain ev' cs db' where e: "evaluate q now (fst s) (snd s) = ((ev', cs), db')" by (metis surj_pair)
  have "alerts_ok ev' \<and> same_config (fst s) ev'"
    using eval_rules_ok [OF e [unfolded evaluate_def]] Cons.prems by simp
  with Cons.IH [of "(ev', db')"] show ?case
    by (auto simp: evaluator_step_def e case_prod_unfold Let_def same_config_def)
qed (simp add: same_config_def)

text \<open>
  C27. After any number of evaluations of a new evaluator, over whatever data, every alert it holds
  stands under its own rule's key, comes from a configured rule with the wildcard replaced by a host,
  and is firing exactly when the mean it records passes the threshold; a mean that is not a number
  never fires.
\<close>

theorem alerts_consistent:
  assumes "fst (fst (run_steps (evaluator_step q i) (new_evaluator rules notifiers, db) nows)) = ev"
    and "ev_state ev k = Some a"
  shows "alert_ok rules k a \<and> (al_value a = NaN \<longrightarrow> al_state a = StateOK)"
proof -
  have "alerts_ok (new_evaluator rules notifiers)" by (simp add: alerts_ok_def new_evaluator_def)
  from run_alerts_ok [of "(new_evaluator rules notifiers, db)" q i nows] this assms(1)
  have "alerts_ok ev" "ev_rules ev = rules"
    by (auto simp: same_config_def new_evaluator_def)
  with assms(2) have "alert_ok rules k a" by (simp add: alerts_ok_def)
  then show ?thesis by (cases "al_state a") (auto simp: alert_ok_def is_firing_def)
qed

lemma eval_hosts_silent:
  assumes "\<And>p db. \<exists>e. fst (qr_query q p db) = Inl e \<or> fst (qr_query q p db) = Inr []"
  shows "fst (eval_hosts q now r hs ev db) = (ev, [])"
proof (induction hs arbitrary: db)
  case (Cons h hs)
  have "fst (eval_host q now r h ev db) = (ev, [])"
    using assms [of "alert_params now r h" db]
    by (auto simp: eval_host_def split: prod.splits sum.splits)
  with Cons show ?case by (simp add: case_prod_unfold Let_def)
qed simp

lemma eval_rules_silent:
  assumes "\<And>p db. \<exists>e. fst (qr_query q p db) = Inl e \<or> fst (qr_query q p db) = Inr []"
  shows "fst (eval_rules q now rs ev db) = (ev, [])"
  by (induction rs arbitrary: db) (simp_all add: eval_hosts_silent [OF assms] case_prod_unfold Let_def)

text \<open>
  An evaluation in which every query fails or finds no point leaves the alert states alone and
  notifies nobody: missing data neither fires nor resolves an alert.
\<close>

lemma no_data_no_change:
  assumes "\<And>p db. \<exists>e. fst (qr_query q p db) = Inl e \<or> fst (qr_query q p db) = Inr []"
  shows "fst (evaluate q now ev db) = (ev, [])"
  unfolding evaluate_def by (rule eval_rules_silent [OF assms])

section \<open>The key of an alert\<close>

definition same_alert :: "rule \<Rightarrow> rule \<Rightarrow> bool" where
  "same_alert r r' \<longleftrightarrow> ru_host r' = ru_host r \<and> ru_name r' = ru_name r \<and> ru_op r' = ru_op r \<and>
     ru_threshold r' = ru_threshold r"

text \<open>A rule on one host whose query always finds the same points.\<close>

definition steady :: "('db, 'e) querier \<Rightarrow> rule \<Rightarrow> query_point list \<Rightarrow> bool" where
  "steady q r points \<longleftrightarrow> ru_host r \<noteq> ''*'' \<and> points \<noteq> [] \<and>
     (\<forall>now db. qr_query q (alert_params now r (ru_host r)) db = (Inr points, db))"

lemma eval_steady:
  "steady q r points \<Longrightarrow> eval_rules q now (r # rs) ev db =
     (let (ev1, cs1) = record_mean now r (ru_host r) (mean_value points) ev;
          ((ev2, cs2), db2) = eval_rules q now rs ev1 db
      in ((ev2, cs1 @ cs2), db2))"
  by (auto simp: steady_def hosts_for_def eval_host_def case_prod_unfold Let_def)

lemma record_mean_told:
  assumes "i < length (ev_notifiers ev)"
    and "k = rule_key h (ru_name r) (ru_op r) (ru_threshold r)" "record_mean now r h m ev = (ev', cs)"
  shows "alert_obs i cs =
      (if is_firing r m \<and> k \<notin> told i ev then [Raise k] else if \<not> is_firing r m \<and> k \<in> told i ev then [Clear k] else [])"
    and "told i ev' = (if is_firing r m then insert k (told i ev) else told i ev - {k})"
    and "ev_notifiers ev' = ev_notifiers ev" "ev_rules ev' = ev_rules ev"
  using assms
  by (auto simp: record_mean_def told_def alert_obs_notify_all Let_def split: if_splits alert_state.splits
      elim: alert_state.exhaust)

lemma same_key_run:
  assumes "ev_rules ev = [r, r']" and "same_alert r r'"
    and "steady q r points" and "steady q r' points'"
    and "is_firing r (mean_value points)" and "\<not> is_firing r' (mean_value points')"
    and "i < length (ev_notifiers ev)"
    and "k = rule_key (ru_host r) (ru_name r) (ru_op r) (ru_threshold r)" and "k \<notin> told i ev"
  shows "snd (run_steps (evaluator_step q i) (ev, db) nows) = concat (map (\<lambda>_. [Raise k, Clear k]) nows)"
  using assms(1,7,9)
proof (induction nows arbitrary: ev)
  case (Cons now nows)
  obtain ev1 cs1 where 1: "record_mean now r (ru_host r) (mean_value points) ev = (ev1, cs1)" by fastforce
  obtain ev2 cs2 where 2: "record_mean now r' (ru_host r') (mean_value points') ev1 = (ev2, cs2)" by fastforce
  have k': "k = rule_key (ru_host r') (ru_name r') (ru_op r') (ru_threshold r')"
    using assms(2,8) by (simp add: same_alert_def)
  note f = record_mean_told [OF Cons.prems(2) assms(8) 1]
  have i: "i < length (ev_notifiers ev1)" using f Cons.prems(2) by simp
  note g = record_mean_told [OF i k' 2]
  have "evaluate q now ev db = ((ev2, cs1 @ cs2), db)"
    by (simp only: evaluate_def Cons.prems eval_steady [OF assms(3)] eval_steady [OF assms(4)] 1 2)
      (simp add: 2)
  then have "evaluator_step q i (ev, db) now = ((ev2, db), [Raise k, Clear k])"
    using f(1,2) g(1) Cons.prems(3) assms(5,6) by (simp add: evaluator_step_def)
  moreover have "snd (run_steps (evaluator_step q i) (ev2, db) nows) = concat (map (\<lambda>_. [Raise k, Clear k]) nows)"
    using f g Cons.prems assms(6) by (intro Cons.IH) auto
  ultimately show ?case by (simp add: case_prod_unfold Let_def)
qed simp

text \<open>
  C32. The key of an alert leaves out the window: two rules that differ in their windows only share
  one alert state.  When the short window is over the threshold and the long one is not, every
  evaluation sends a \<open>firing\<close> and a \<open>resolved\<close> notification, for ever.
\<close>

theorem same_key_rules_flap:
  assumes "ev_rules ev = [r, r']" and "same_alert r r'"
    and "steady q r points" and "steady q r' points'"
    and "is_firing r (mean_value points)" and "\<not> is_firing r' (mean_value points')"
    and "i < length (ev_notifiers ev)"
    and "k = rule_key (ru_host r) (ru_name r) (ru_op r) (ru_threshold r)" and "k \<notin> told i ev"
  shows "snd (run_steps (evaluator_step q i) (ev, db) nows) = concat (map (\<lambda>_. [Raise k, Clear k]) nows)"
  using assms by (rule same_key_run)

section \<open>Witnesses\<close>

text \<open>CPU over the last minute is at 95, over the last hour at 50.\<close>

definition window_querier :: "(unit, string) querier" where
  "window_querier =
     \<lparr>qr_query = (\<lambda>p db. (Inr [\<lparr>qp_time = 0, qp_value =
        (if q_to p - q_from p = minute then Fin 95 else Fin 50)\<rparr>], db)),
      qr_hosts = (\<lambda>w db. (Inl ''unused'', db))\<rparr>"

definition cpu_rule :: "duration \<Rightarrow> rule" where
  "cpu_rule d = \<lparr>ru_host = ''web'', ru_name = ''cpu.usage_pct'', ru_op = ''>'', ru_threshold = Fin 90, ru_for = d\<rparr>"

lemma mean_one: "\<bar>v\<bar> \<le> 2 ^ 53 \<Longrightarrow> mean_value [\<lparr>qp_time = t, qp_value = Fin (of_int v)\<rparr>] = Fin (of_int v)"
  using f64_of_int_exact [of v] f64_of_int_exact [of 1]
  by (simp add: mean_value_def f64_of_int_def)


lemma mean_windows: "mean_value [\<lparr>qp_time = 0, qp_value = Fin 95\<rparr>] = Fin 95"
  "mean_value [\<lparr>qp_time = 0, qp_value = Fin 50\<rparr>] = Fin 50"
  using mean_one [of 95 0] mean_one [of 50 0] by simp_all

lemma steady_windows:
  "steady window_querier (cpu_rule minute) [\<lparr>qp_time = 0, qp_value = Fin 95\<rparr>]"
  "steady window_querier (cpu_rule hour) [\<lparr>qp_time = 0, qp_value = Fin 50\<rparr>]"
  by (simp_all add: steady_def window_querier_def cpu_rule_def alert_params_def minute_def hour_def)

lemma same_key_rules_flap_witness:
  "let k = rule_key ''web'' ''cpu.usage_pct'' ''>'' (Fin 90)
   in snd (run_steps (evaluator_step window_querier 0)
        (new_evaluator [cpu_rule minute, cpu_rule hour] [''hook''], ()) [1, 2]) =
      [Raise k, Clear k, Raise k, Clear k]"
  using same_key_rules_flap
    [of "new_evaluator [cpu_rule minute, cpu_rule hour] [''hook'']" "cpu_rule minute" "cpu_rule hour"
      window_querier "[\<lparr>qp_time = 0, qp_value = Fin 95\<rparr>]" "[\<lparr>qp_time = 0, qp_value = Fin 50\<rparr>]" 0
      "rule_key ''web'' ''cpu.usage_pct'' ''>'' (Fin 90)" "()" "[1, 2]"] steady_windows
  by (simp add: new_evaluator_def same_alert_def cpu_rule_def is_firing_def mean_windows told_def)

lemma one_firing_per_incident_witness:
  "Clear (rule_key ''web'' ''cpu.usage_pct'' ''>'' (Fin 90)) \<in>
     set [Clear (rule_key ''web'' ''cpu.usage_pct'' ''>'' (Fin 90))]"
proof (rule one_firing_per_incident
    [of window_querier 0 "new_evaluator [cpu_rule minute, cpu_rule hour] [''hook'']" "()" "[1, 2]" "[]" _ _
      "[Clear (rule_key ''web'' ''cpu.usage_pct'' ''>'' (Fin 90))]"])
  let ?k = "rule_key ''web'' ''cpu.usage_pct'' ''>'' (Fin 90)"
  show "snd (run_steps (evaluator_step window_querier 0)
        (new_evaluator [cpu_rule minute, cpu_rule hour] [''hook''], ()) [1, 2]) =
      [] @ Raise ?k # [Clear ?k] @ Raise ?k # [Clear ?k]"
    using same_key_run
      [of "new_evaluator [cpu_rule minute, cpu_rule hour] [''hook'']" "cpu_rule minute" "cpu_rule hour"
        window_querier "[\<lparr>qp_time = 0, qp_value = Fin 95\<rparr>]" "[\<lparr>qp_time = 0, qp_value = Fin 50\<rparr>]" 0
        ?k "()" "[1, 2]"] steady_windows
    by (simp add: new_evaluator_def same_alert_def cpu_rule_def is_firing_def mean_windows told_def)
qed

lemma alerts_consistent_witness:
  "alert_ok [cpu_rule minute] (rule_key ''web'' ''cpu.usage_pct'' ''>'' (Fin 90))
     \<lparr>al_rule = cpu_rule minute, al_state = StateFiring, al_updated_at = 1, al_value = Fin 95\<rparr>"
proof -
  let ?k = "rule_key ''web'' ''cpu.usage_pct'' ''>'' (Fin 90)"
  let ?a = "\<lparr>al_rule = cpu_rule minute, al_state = StateFiring, al_updated_at = 1, al_value = Fin 95\<rparr>"
  let ?run = "run_steps (evaluator_step window_querier 0) (new_evaluator [cpu_rule minute] [''hook''], ()) [1]"
  have "ev_state (fst (fst ?run)) ?k = Some ?a"
    by (simp add: evaluator_step_def evaluate_def new_evaluator_def eval_steady [OF steady_windows(1)]
        mean_windows record_mean_def Let_def case_prod_unfold del: eval_rules.simps(2))
      (simp add: cpu_rule_def is_firing_def)
  from alerts_consistent [OF refl this] show ?thesis by blast
qed

end
