(* ===== verification/Send_Loop.thy ===== *)
theory Send_Loop
  imports Model_Json
begin

text \<open>
  The two HTTP senders of the agent: \<open>internal/agent/sender/sender.go\<close> for metric batches and
  \<open>internal/agent/logtail/sender.go\<close> for log batches.  Both post a marshalled batch, wait with
  exponential backoff and try again until an attempt is decisive; what the two loops share is the
  locale \<open>retry_loop\<close>.  The injected functions of the Go structs (\<open>randFn\<close>, \<open>sleepFn\<close>, the
  HTTP client) are fields of the environment, indexed by the attempt they are called in.
\<close>

section \<open>Backoff\<close>

record backoff_config =
  bo_base :: duration
  bo_max :: duration
  bo_jitter :: f64

definition default_backoff :: backoff_config where
  "default_backoff = \<lparr>bo_base = second, bo_max = 60 * second, bo_jitter = Fin (1 / 4)\<rparr>"

text \<open>
  \<open>waitFor\<close>.  The first argument is the implementation-defined result of converting a float that
  does not fit 64 bits; the last is the value \<open>randFn\<close> returns, read only for a later attempt.
\<close>

definition wait_for :: "(f64 \<Rightarrow> int) \<Rightarrow> nat \<Rightarrow> backoff_config \<Rightarrow> f64 \<Rightarrow> duration" where
  "wait_for oor attempt cfg r =
     (if attempt = 0 then 0
      else let ex = f64_min (f64_of_int (bo_max cfg)) (f64_of_int (bo_base cfg) * pow2 (attempt - 1));
               jitter = Fin 1 + bo_jitter cfg * (r * Fin 2 - Fin 1);
               d = int64_of_f64 oor (ex * jitter)
           in if d > bo_max cfg then bo_max cfg else d)"

text \<open>\<open>logWaitFor\<close> raises two to \<open>attempt\<close>, not to \<open>attempt - 1\<close>.\<close>

definition log_wait_for :: "(f64 \<Rightarrow> int) \<Rightarrow> nat \<Rightarrow> backoff_config \<Rightarrow> f64 \<Rightarrow> duration" where
  "log_wait_for oor attempt cfg r =
     (if attempt = 0 then 0
      else let ex = f64_min (f64_of_int (bo_max cfg)) (f64_of_int (bo_base cfg) * pow2 attempt);
               jitter = Fin 1 + bo_jitter cfg * (r * Fin 2 - Fin 1);
               d = int64_of_f64 oor (ex * jitter)
           in if d > bo_max cfg then bo_max cfg else d)"

lemma log_wait_for_ahead: "0 < n \<Longrightarrow> log_wait_for oor n cfg r = wait_for oor (Suc n) cfg r"
  by (simp add: log_wait_for_def wait_for_def)

text \<open>The default \<open>sleepFn\<close>: \<open>ctx_wait d\<close> is the context's error if it is cancelled within \<open>d\<close>.\<close>

definition default_sleep :: "(duration \<Rightarrow> 'e err) \<Rightarrow> duration \<Rightarrow> 'e err" where
  "default_sleep ctx_wait d = (if d \<le> 0 then None else ctx_wait d)"

section \<open>Bounds of the waits\<close>

lemma f64_of_rat_between:
  assumes "lo \<le> x" "x \<le> hi" "rnd lo = lo" "rnd hi = hi" "\<bar>lo\<bar> < max_exact" "\<bar>hi\<bar> < max_exact"
  shows "\<exists>y. f64_of_rat x = Fin y \<and> lo \<le> y \<and> y \<le> hi"
proof -
  have "lo \<le> rnd x" "rnd x \<le> hi" using rnd_mono [OF assms(1)] rnd_mono [OF assms(2)] assms by auto
  moreover then have "\<bar>rnd x\<bar> < max_exact" using assms by linarith
  ultimately show ?thesis by (simp add: f64_of_rat_Fin)
qed

lemma f64_of_rat_between_ints:
  assumes "of_int a \<le> x" "x \<le> of_int b" "\<bar>a\<bar> \<le> 2 ^ 53" "\<bar>b\<bar> \<le> 2 ^ 53"
  shows "\<exists>y. f64_of_rat x = Fin y \<and> of_int a \<le> y \<and> y \<le> of_int b"
proof (rule f64_of_rat_between)
  have "\<bar>of_int n :: rat\<bar> < max_exact" if "\<bar>n\<bar> \<le> 2 ^ 53" for n
  proof -
    have "\<bar>of_int n :: rat\<bar> \<le> of_int (2 ^ 53)" using that by (simp only: of_int_le_iff flip: of_int_abs)
    then show ?thesis by (simp add: max_exact_def)
  qed
  with assms(3,4) show "\<bar>of_int a :: rat\<bar> < max_exact" "\<bar>of_int b :: rat\<bar> < max_exact" by blast+
qed (use assms in \<open>auto simp: rnd_of_int\<close>)

definition nonneg_f64 :: "f64 \<Rightarrow> bool" where
  "nonneg_f64 x \<longleftrightarrow> x = Inf False \<or> (\<exists>z\<ge>0. x = Fin z)"

lemma nonneg_f64_of_rat: "0 \<le> x \<Longrightarrow> nonneg_f64 (f64_of_rat x)"
  using rnd_nonneg [of x] by (auto simp: nonneg_f64_def f64_of_rat_def Let_def)

lemma f64_min_nonneg:
  "0 \<le> m \<Longrightarrow> nonneg_f64 y \<Longrightarrow> \<exists>z. f64_min (Fin m) y = Fin z \<and> 0 \<le> z \<and> z \<le> m"
  by (auto simp: nonneg_f64_def f64_min_def)

text \<open>A product of a positive base and a power of two is never negative, infinity included.\<close>

lemma backoff_nonneg:
  assumes "0 < b"
  shows "nonneg_f64 (Fin b * pow2 k)"
proof -
  have "nonneg_f64 (pow2 k)" unfolding pow2_def by (rule nonneg_f64_of_rat) simp
  then consider "pow2 k = Inf False" | z where "pow2 k = Fin z" "0 \<le> z"
    by (auto simp: nonneg_f64_def)
  then show ?thesis
  proof cases
    case 1
    with assms show ?thesis by (simp add: nonneg_f64_def)
  next
    case 2
    with assms show ?thesis by (simp add: nonneg_f64_of_rat)
  qed
qed

lemma rnd_quarters: "rnd (1 / 4) = 1 / 4" "rnd (3 / 4) = 3 / 4" "rnd (5 / 4) = 5 / 4"
  by (simp_all add: rnd_def rnd_pos_def ulp_exp_def expo_def ilog2.simps clog2_def round_even_def Let_def)

text \<open>The random factor lies within the jitter around one.\<close>

lemma jitter_between:
  assumes "0 \<le> q" "q \<le> 1" "0 \<le> J" "J \<le> 1" "rnd J = J" "rnd (1 - J) = 1 - J" "rnd (1 + J) = 1 + J"
  shows "\<exists>j. Fin 1 + Fin J * (Fin q * Fin 2 - Fin 1) = Fin j \<and> 1 - J \<le> j \<and> j \<le> 1 + J"
proof -
  obtain a where a: "f64_of_rat (q * 2) = Fin a" "0 \<le> a" "a \<le> 2"
    using f64_of_rat_between_ints [of 0 "q * 2" 2] assms by auto
  obtain c where c: "f64_of_rat (a + - 1) = Fin c" "- 1 \<le> c" "c \<le> 1"
    using f64_of_rat_between_ints [of "- 1" "a + - 1" 1] a by auto
  have "J * c \<le> J * 1" "J * (- 1) \<le> J * c" using c assms by (intro mult_left_mono; simp)+
  then obtain d where d: "f64_of_rat (J * c) = Fin d" "- J \<le> d" "d \<le> J"
    using f64_of_rat_between [of "- J" "J * c" J] assms by (auto simp: max_exact_def rnd_minus)
  obtain j where "f64_of_rat (1 + d) = Fin j" "1 - J \<le> j" "j \<le> 1 + J"
    using f64_of_rat_between [of "1 - J" "1 + d" "1 + J"] d assms by (auto simp: max_exact_def)
  then show ?thesis using a c d by (simp add: minus_f64_def)
qed

lemma int64_between:
  assumes "of_int a \<le> y" "y \<le> of_int b" "- (2 ^ 63) \<le> a" "b < 2 ^ 63"
  shows "a \<le> int64_of_f64 oor (Fin y) \<and> int64_of_f64 oor (Fin y) \<le> b"
  using rat_trunc_ge_int [OF assms(1)] rat_trunc_le_int [OF assms(2)] assms(3,4)
  by (simp add: Let_def)

text \<open>What the wait is made of: the capped power, the random factor and their rounded product.\<close>

definition capped_power :: "backoff_config \<Rightarrow> nat \<Rightarrow> f64" where
  "capped_power cfg k = f64_min (f64_of_int (bo_max cfg)) (f64_of_int (bo_base cfg) * pow2 k)"

definition jittered :: "(f64 \<Rightarrow> int) \<Rightarrow> backoff_config \<Rightarrow> f64 \<Rightarrow> f64 \<Rightarrow> duration" where
  "jittered oor cfg ex r =
     min (bo_max cfg) (int64_of_f64 oor (ex * (Fin 1 + bo_jitter cfg * (r * Fin 2 - Fin 1))))"

lemma wait_for_Suc: "wait_for oor (Suc k) cfg r = jittered oor cfg (capped_power cfg k) r"
  by (simp add: wait_for_def jittered_def capped_power_def Let_def min_def)

lemma capped_power_bounds:
  assumes "0 < bo_base cfg" "bo_base cfg \<le> 2 ^ 53" "0 \<le> bo_max cfg" "bo_max cfg \<le> 2 ^ 53"
  shows "\<exists>z. capped_power cfg k = Fin z \<and> 0 \<le> z \<and> z \<le> of_int (bo_max cfg)"
proof -
  have "f64_of_int (bo_base cfg) = Fin (of_int (bo_base cfg))"
    and "f64_of_int (bo_max cfg) = Fin (of_int (bo_max cfg))"
    using assms by (simp_all add: f64_of_int_exact)
  with assms show ?thesis
    using f64_min_nonneg [OF _ backoff_nonneg, of "of_int (bo_max cfg)" "of_int (bo_base cfg)" k]
    by (simp add: capped_power_def)
qed

lemma jittered_bounds:
  assumes "ex = Fin z" "of_int a \<le> z" "z \<le> of_int b" "0 \<le> a" "b \<le> 2 ^ 52"
    and "bo_jitter cfg = Fin J" "0 \<le> J" "J \<le> 1" "rnd J = J" "rnd (1 - J) = 1 - J" "rnd (1 + J) = 1 + J"
    and "r = Fin q" "0 \<le> q" "q \<le> 1"
    and "of_int lo \<le> of_int a * (1 - J)" "of_int b * (1 + J) \<le> of_int hi" "0 \<le> lo" "hi \<le> 2 ^ 53"
  shows "min (bo_max cfg) lo \<le> jittered oor cfg ex r \<and> jittered oor cfg ex r \<le> min (bo_max cfg) hi"
proof -
  obtain j where j: "Fin 1 + Fin J * (Fin q * Fin 2 - Fin 1) = Fin j" "1 - J \<le> j" "j \<le> 1 + J"
    using jitter_between [of q J] assms by auto
  have z0: "0 \<le> z" using assms(2,4) by (meson of_int_0_le_iff order_trans)
  have b0: "0 \<le> (of_int b :: rat)" using z0 assms(3) by simp
  have "of_int lo \<le> of_int a * (1 - J)" by fact
  also have "\<dots> \<le> z * (1 - J)" using assms by (intro mult_right_mono) auto
  also have "\<dots> \<le> z * j" using j z0 by (intro mult_left_mono) auto
  finally have lo: "of_int lo \<le> z * j" .
  have "z * j \<le> z * (1 + J)" using j z0 by (intro mult_left_mono) auto
  also have "\<dots> \<le> of_int b * (1 + J)" using assms by (intro mult_right_mono) auto
  also have "\<dots> \<le> of_int hi" by fact
  finally have hi: "z * j \<le> of_int hi" .
  have "(of_int lo :: rat) \<le> of_int hi" using lo hi by (rule order_trans)
  then have "lo \<le> hi" by simp
  then obtain y where y: "f64_of_rat (z * j) = Fin y" "of_int lo \<le> y" "y \<le> of_int hi"
    using f64_of_rat_between_ints [OF lo hi] assms(17,18) by auto
  have "lo \<le> int64_of_f64 oor (Fin y) \<and> int64_of_f64 oor (Fin y) \<le> hi"
    using y assms by (intro int64_between) auto
  then show ?thesis using assms(1,6,12) j y(1) by (auto simp: jittered_def)
qed


text \<open>The power of the default configuration: one second doubled, capped at a minute, exactly.\<close>

definition default_step :: "nat \<Rightarrow> duration" where
  "default_step k = min (60 * second) (second * 2 ^ k)"

lemma pow2_exact: "k \<le> 53 \<Longrightarrow> pow2 k = Fin (2 ^ k)"
proof -
  assume "k \<le> 53"
  then have "(2::int) ^ k \<le> 2 ^ 53" by (intro power_increasing) auto
  then show ?thesis using f64_of_int_exact [of "2 ^ k"] by (simp add: f64_of_int_def pow2_def)
qed

text \<open>Rounding keeps a lower bound that is an exact integer; overflow gives plus infinity.\<close>

lemma f64_of_rat_ge:
  assumes "of_int n \<le> x" "0 \<le> n" "n \<le> 2 ^ 53"
  shows "f64_of_rat x = Inf False \<or> (\<exists>w. f64_of_rat x = Fin w \<and> of_int n \<le> w)"
proof -
  have "of_int n \<le> rnd x" using assms by (intro rnd_ge_of_int) auto
  moreover have "0 \<le> (of_int n :: rat)" using assms by simp
  ultimately show ?thesis by (auto simp: f64_of_rat_def Let_def)
qed

lemma f64_min_of_int: "f64_min (Fin (of_int a)) (Fin (of_int b)) = Fin (of_int (min a b))"
  by (auto simp: f64_min_def min_def)

lemma default_powers:
  "f64_of_int (bo_max default_backoff) = Fin (of_int (60 * second))"
  "f64_of_int (bo_base default_backoff) = Fin (of_int second)"
  by (simp_all add: default_backoff_def second_def f64_of_int_exact)

lemma capped_power_default: "capped_power default_backoff k = Fin (of_int (default_step k))"
proof (cases "k < 6")
  case True
  have "(2::int) ^ k \<le> 2 ^ 6" using True by (intro power_increasing) auto
  then have "f64_of_rat (of_int (second * 2 ^ k)) = Fin (of_int (second * 2 ^ k))"
    by (intro f64_of_int_exact [unfolded f64_of_int_def]) (simp add: second_def)
  moreover have "pow2 k = Fin (of_int (2 ^ k))" using True pow2_exact [of k] by simp
  ultimately show ?thesis
    by (simp only: capped_power_def default_powers times_f64.simps of_int_mult [symmetric]
        f64_min_of_int default_step_def)
next
  case False
  then have "(2::int) ^ 6 \<le> 2 ^ k" by (intro power_increasing) auto
  then have m: "default_step k = 60 * second" by (simp add: default_step_def second_def)
  have "(2::rat) ^ 6 \<le> 2 ^ k" using False by (intro power_increasing) auto
  then consider "pow2 k = Inf False" | w where "pow2 k = Fin w" "64 \<le> w"
    using f64_of_rat_ge [of 64 "2 ^ k"] by (auto simp: pow2_def)
  then show ?thesis
  proof cases
    case 1
    then show ?thesis
      by (simp add: capped_power_def default_backoff_def f64_of_int_exact second_def f64_min_def m)
  next
    case 2
    then have "of_int 64000000000 \<le> 1000000000 * w" by simp
    from f64_of_rat_ge [OF this] have
      "f64_of_rat (1000000000 * w) = Inf False \<or>
       (\<exists>v. f64_of_rat (1000000000 * w) = Fin v \<and> 64000000000 \<le> v)" by simp
    with 2 show ?thesis
      by (auto simp: capped_power_def default_backoff_def f64_of_int_exact second_def f64_min_def m)
  qed
qed

lemma default_jittered:
  assumes "r = Fin q" "0 \<le> q" "q \<le> 1"
  shows "3 * default_step k \<le> 4 * jittered oor default_backoff (capped_power default_backoff k) r \<and>
    4 * jittered oor default_backoff (capped_power default_backoff k) r
      \<le> min (240 * second) (5 * default_step k)"
proof -
  define u where "u = min (15 * second) (second div 4 * 2 ^ k)"
  have m: "default_step k = 4 * u"
    by (simp add: u_def default_step_def second_def min_def)
  have u: "0 \<le> u" "u \<le> 15000000000" by (simp_all add: u_def second_def)
  have "min (bo_max default_backoff) (3 * u) \<le>
      jittered oor default_backoff (Fin (of_int (4 * u))) r \<and>
    jittered oor default_backoff (Fin (of_int (4 * u))) r \<le> min (bo_max default_backoff) (5 * u)"
    by (rule jittered_bounds [where a = "4 * u" and b = "4 * u" and J = "1 / 4" and q = q])
      (use u assms in \<open>auto simp: default_backoff_def rnd_quarters\<close>)
  moreover have "capped_power default_backoff k = Fin (of_int (4 * u))"
    by (simp only: capped_power_default m)
  moreover have "bo_max default_backoff = 60000000000" by (simp add: default_backoff_def second_def)
  ultimately show ?thesis using u by (simp add: m second_def min_def split: if_splits)
qed

text \<open>
  With the production backoff, retry \<open>k + 1\<close> of the metric sender waits between three quarters and
  five quarters of \<open>min 60s (2^k * 1s)\<close>, and never longer than a minute.
\<close>

theorem default_wait_bounds:
  assumes "r = Fin q" "0 \<le> q" "q \<le> 1"
  shows "3 * default_step k \<le> 4 * wait_for oor (Suc k) default_backoff r \<and>
    4 * wait_for oor (Suc k) default_backoff r \<le> 5 * default_step k \<and>
    wait_for oor (Suc k) default_backoff r \<le> 60 * second"
  using default_jittered [OF assms, of k oor] by (simp add: wait_for_Suc second_def)

lemma default_wait_bounds_witness:
  "3 * default_step 2 \<le> 4 * wait_for (\<lambda>_. 0) (Suc 2) default_backoff (Fin (1 / 2)) \<and>
    4 * wait_for (\<lambda>_. 0) (Suc 2) default_backoff (Fin (1 / 2)) \<le> 5 * default_step 2 \<and>
    wait_for (\<lambda>_. 0) (Suc 2) default_backoff (Fin (1 / 2)) \<le> 60 * second"
  using default_wait_bounds [of "Fin (1 / 2)" "1 / 2" 2 "\<lambda>_. 0"] by simp

text \<open>
  The log sender, whose \<open>randFn\<close> is the constant one half, waits exactly
  \<open>min 60s (2^(k+1) * 1s)\<close> before retry \<open>k + 1\<close>: no jitter, and twice the wait the metric sender is
  built around (its first retry comes after two seconds, not after \<open>Base\<close>).
\<close>

theorem log_wait_default:
  "log_wait_for oor (Suc k) default_backoff (Fin (1 / 2)) = default_step (Suc k)"
proof -
  have "Fin 1 + bo_jitter default_backoff * (Fin (1 / 2) * Fin 2 - Fin 1) = Fin 1"
    using f64_of_int_exact [of 1] f64_of_int_exact [of 0]
    by (simp add: default_backoff_def minus_f64_def f64_of_int_def)
  moreover have "Fin (of_int (default_step (Suc k))) * Fin 1 = Fin (of_int (default_step (Suc k)))"
    using f64_of_int_exact [of "default_step (Suc k)"]
    by (simp add: f64_of_int_def default_step_def second_def)
  moreover have "0 \<le> default_step (Suc k) \<and> default_step (Suc k) \<le> 60 * second"
    by (simp add: default_step_def second_def)
  moreover have "bo_max default_backoff = 60 * second" by (simp add: default_backoff_def)
  ultimately show ?thesis
    by (simp add: log_wait_for_ahead wait_for_Suc jittered_def capped_power_default second_def Let_def)
qed

section \<open>One attempt\<close>

record request =
  rq_method :: string
  rq_url :: string
  rq_headers :: "(string \<times> string) list"
  rq_body :: string

record http_sender =
  hs_url :: string
  hs_token :: string
  hs_backoff :: backoff_config

definition new_http_sender :: "string \<Rightarrow> backoff_config \<Rightarrow> http_sender" where
  "new_http_sender url cfg = \<lparr>hs_url = url, hs_token = [], hs_backoff = cfg\<rparr>"

definition with_token :: "http_sender \<Rightarrow> string \<Rightarrow> http_sender" where
  "with_token s token = s\<lparr>hs_token := token\<rparr>"

definition new_http_log_sender :: "string \<Rightarrow> string \<Rightarrow> backoff_config \<Rightarrow> http_sender" where
  "new_http_log_sender url token cfg = \<lparr>hs_url = url, hs_token = token, hs_backoff = cfg\<rparr>"

text \<open>What the loops call: \<open>randFn\<close>, \<open>sleepFn\<close>, \<open>http.NewRequestWithContext\<close>, \<open>client.Do\<close>.\<close>

record 'e send_env =
  env_rand :: "nat \<Rightarrow> f64"
  env_sleep :: "nat \<Rightarrow> duration \<Rightarrow> 'e err"
  env_build :: "request \<Rightarrow> 'e err"
  env_do :: "nat \<Rightarrow> request \<Rightarrow> ('e, int) result"
  env_oor :: "f64 \<Rightarrow> int"

datatype 'e send_failure = MarshalFailed json_error | BuildFailed 'e | ServerRejected int

datatype 'e send_error = PermanentError "'e send_failure" | Interrupted 'e

datatype 'e log_send_error = LogSendFailed "'e send_failure" | LogInterrupted 'e

definition post_request :: "http_sender \<Rightarrow> string \<Rightarrow> request" where
  "post_request s body =
     \<lparr>rq_method = ''POST'', rq_url = hs_url s,
      rq_headers = (''Content-Type'', ''application/json'') #
        (if hs_token s \<noteq> [] then [(''Authorization'', ''Bearer '' @ hs_token s)] else []),
      rq_body = body\<rparr>"

text \<open>
  The body of the loop of \<open>Send\<close>: \<open>None\<close> goes on with the next attempt, \<open>Some r\<close> returns \<open>r\<close>
  (\<open>Some None\<close> is a \<open>nil\<close> error).
\<close>

definition send_attempt :: "http_sender \<Rightarrow> 'e send_env \<Rightarrow> string \<Rightarrow> nat \<Rightarrow> 'e send_error err option" where
  "send_attempt s env body n =
     (case env_sleep env n (wait_for (env_oor env) n (hs_backoff s) (env_rand env n)) of
        Some e \<Rightarrow> Some (Some (Interrupted e))
      | None \<Rightarrow>
        let req = post_request s body
        in case env_build env req of
             Some e \<Rightarrow> Some (Some (PermanentError (BuildFailed e)))
           | None \<Rightarrow>
             (case env_do env n req of
                Inl e \<Rightarrow> None
              | Inr status \<Rightarrow>
                if 200 \<le> status \<and> status < 300 then Some None
                else if 400 \<le> status \<and> status < 500
                then Some (Some (PermanentError (ServerRejected status)))
                else None))"

definition send_logs_attempt ::
  "http_sender \<Rightarrow> 'e send_env \<Rightarrow> string \<Rightarrow> nat \<Rightarrow> 'e log_send_error err option" where
  "send_logs_attempt s env body n =
     (case env_sleep env n (log_wait_for (env_oor env) n (hs_backoff s) (env_rand env n)) of
        Some e \<Rightarrow> Some (Some (LogInterrupted e))
      | None \<Rightarrow>
        let req = post_request s body
        in case env_build env req of
             Some e \<Rightarrow> Some (Some (LogSendFailed (BuildFailed e)))
           | None \<Rightarrow>
             (case env_do env n req of
                Inl e \<Rightarrow> None
              | Inr status \<Rightarrow>
                if 200 \<le> status \<and> status < 300 then Some None
                else if 400 \<le> status \<and> status < 500
                then Some (Some (LogSendFailed (ServerRejected status)))
                else None))"

section \<open>The loops\<close>

text \<open>
  \<open>for attempt := 0; ; attempt++\<close> around the body of either sender.  The loop has no bound, so not
  returning is \<open>None\<close>; the result carries the attempt that returned.
\<close>

partial_function (option) retry_from :: "(nat \<Rightarrow> 'r option) \<Rightarrow> nat \<Rightarrow> (nat \<times> 'r) option" where
  "retry_from attempt n =
     (case attempt n of Some r \<Rightarrow> Some (n, r) | None \<Rightarrow> retry_from attempt (Suc n))"

definition send ::
  "http_sender \<Rightarrow> 'e send_env \<Rightarrow> metric_batch \<Rightarrow> 'e send_error err option" where
  "send s env batch =
     (case marshal_metric_batch batch of
        Inl e \<Rightarrow> Some (Some (PermanentError (MarshalFailed e)))
      | Inr body \<Rightarrow> map_option snd (retry_from (send_attempt s env body) 0))"

definition send_logs ::
  "http_sender \<Rightarrow> 'e send_env \<Rightarrow> log_batch \<Rightarrow> 'e log_send_error err option" where
  "send_logs s env batch =
     (case marshal_log_batch batch of
        Inl e \<Rightarrow> Some (Some (LogSendFailed (MarshalFailed e)))
      | Inr body \<Rightarrow> map_option snd (retry_from (send_logs_attempt s env body) 0))"

section \<open>The contract of a retry loop\<close>

text \<open>
  \<open>run n\<close> is the loop from attempt \<open>n\<close>, \<open>step n\<close> the decision of one attempt.  The laws: the loop
  unfolds to its body, and if it returns then at the first decisive attempt.
\<close>

locale retry_loop =
  fixes run :: "nat \<Rightarrow> (nat \<times> 'r) option"
    and step :: "nat \<Rightarrow> 'r option"
  assumes run_unfold: "run n = (case step n of Some r \<Rightarrow> Some (n, r) | None \<Rightarrow> run (Suc n))"
    and run_sound: "run n = Some (m, r) \<Longrightarrow> step m = Some r \<and> n \<le> m \<and> (\<forall>k. n \<le> k \<and> k < m \<longrightarrow> step k = None)"
begin

lemma run_reaches:
  "step (n + d) = Some r \<Longrightarrow> \<forall>k. n \<le> k \<and> k < n + d \<longrightarrow> step k = None \<Longrightarrow> run n = Some (n + d, r)"
proof (induction d arbitrary: n)
  case 0
  then show ?case by (simp add: run_unfold [of n])
next
  case (Suc d)
  then have "run (Suc n) = Some (Suc n + d, r)" by simp
  moreover have "step n = None" using Suc.prems(2) by simp
  ultimately show ?case by (simp add: run_unfold [of n])
qed

lemma run_iff: "run 0 = Some (m, r) \<longleftrightarrow> step m = Some r \<and> (\<forall>k<m. step k = None)"
proof
  assume "run 0 = Some (m, r)"
  from run_sound [OF this] show "step m = Some r \<and> (\<forall>k<m. step k = None)" by simp
next
  assume "step m = Some r \<and> (\<forall>k<m. step k = None)"
  with run_reaches [of 0 m r] show "run 0 = Some (m, r)" by simp
qed

lemma result_iff: "map_option snd (run 0) = Some r \<longleftrightarrow> (\<exists>m. step m = Some r \<and> (\<forall>k<m. step k = None))"
proof -
  have "map_option snd (run 0) = Some r \<longleftrightarrow> (\<exists>m. run 0 = Some (m, r))" by (cases "run 0") auto
  then show ?thesis by (simp add: run_iff)
qed

lemma returns_iff: "(\<exists>r. map_option snd (run 0) = Some r) \<longleftrightarrow> (\<exists>m. step m \<noteq> None)"
proof
  assume "\<exists>m. step m \<noteq> None"
  then obtain m where m: "step m \<noteq> None" "\<forall>k<m. step k = None"
    using exists_least_iff [of "\<lambda>m. step m \<noteq> None"] by auto
  then obtain r where "step m = Some r" by auto
  with m show "\<exists>r. map_option snd (run 0) = Some r" unfolding result_iff by blast
next
  assume "\<exists>r. map_option snd (run 0) = Some r"
  then show "\<exists>m. step m \<noteq> None" unfolding result_iff by blast
qed

end

lemma retry_from_sound:
  assumes "retry_from attempt n = Some mr"
  shows "attempt (fst mr) = Some (snd mr) \<and> n \<le> fst mr \<and>
    (\<forall>k. n \<le> k \<and> k < fst mr \<longrightarrow> attempt k = None)"
proof (rule retry_from.raw_induct [OF _ assms, where P = "\<lambda>attempt n mr.
    attempt (fst mr) = Some (snd mr) \<and> n \<le> fst mr \<and>
    (\<forall>k. n \<le> k \<and> k < fst mr \<longrightarrow> attempt k = None)"])
  fix f :: "(nat \<Rightarrow> 'a option) \<Rightarrow> nat \<Rightarrow> (nat \<times> 'a) option" and attempt n mr
  assume IH: "\<And>attempt n mr. f attempt n = Some mr \<Longrightarrow>
      attempt (fst mr) = Some (snd mr) \<and> n \<le> fst mr \<and> (\<forall>k. n \<le> k \<and> k < fst mr \<longrightarrow> attempt k = None)"
    and eq: "(case attempt n of Some r \<Rightarrow> Some (n, r) | None \<Rightarrow> f attempt (Suc n)) = Some mr"
  show "attempt (fst mr) = Some (snd mr) \<and> n \<le> fst mr \<and>
    (\<forall>k. n \<le> k \<and> k < fst mr \<longrightarrow> attempt k = None)"
  proof (cases "attempt n")
    case None
    with eq have "f attempt (Suc n) = Some mr" by simp
    from IH [OF this] None show ?thesis
      by (auto simp: Suc_le_eq) (metis le_neq_implies_less)
  next
    case (Some r)
    with eq show ?thesis by auto
  qed
qed

interpretation metric_retry: retry_loop "retry_from (send_attempt s env body)" "send_attempt s env body"
  for s env body
  by unfold_locales (rule retry_from.simps, use retry_from_sound in fastforce)

interpretation log_retry: retry_loop "retry_from (send_logs_attempt s env body)"
    "send_logs_attempt s env body"
  for s env body
  by unfold_locales (rule retry_from.simps, use retry_from_sound in fastforce)

section \<open>What the senders promise\<close>

text \<open>The attempt is made, and the server answers with a status.\<close>

definition answered :: "http_sender \<Rightarrow> 'e send_env \<Rightarrow> duration \<Rightarrow> string \<Rightarrow> nat \<Rightarrow> int \<Rightarrow> bool" where
  "answered s env wait body n status \<longleftrightarrow>
     env_sleep env n wait = None \<and> env_build env (post_request s body) = None \<and>
     env_do env n (post_request s body) = Inr status"

lemma send_attempt_nil:
  "send_attempt s env body n = Some None \<longleftrightarrow>
     (\<exists>st. answered s env (wait_for (env_oor env) n (hs_backoff s) (env_rand env n)) body n st \<and>
       200 \<le> st \<and> st < 300)"
  by (auto simp: send_attempt_def answered_def Let_def split: option.splits sum.splits)

lemma send_Ok:
  "marshal_metric_batch batch = Inr body \<Longrightarrow>
     send s env batch = map_option snd (retry_from (send_attempt s env body) 0)"
  by (simp add: send_def)

lemma send_logs_Ok:
  "marshal_log_batch batch = Inr body \<Longrightarrow>
     send_logs s env batch = map_option snd (retry_from (send_logs_attempt s env body) 0)"
  by (simp add: send_logs_def)


lemma send_attempt_cases:
  "send_attempt s env body n = None \<longleftrightarrow>
     env_sleep env n (wait_for (env_oor env) n (hs_backoff s) (env_rand env n)) = None \<and>
     env_build env (post_request s body) = None \<and>
     (case env_do env n (post_request s body) of
        Inl e \<Rightarrow> True
      | Inr st \<Rightarrow> \<not> (200 \<le> st \<and> st < 300) \<and> \<not> (400 \<le> st \<and> st < 500))"
  by (auto simp: send_attempt_def Let_def split: option.splits sum.splits)

text \<open>
  A metric batch counts as sent (\<open>nil\<close>) exactly when the first attempt that is not retried got a
  2xx answer: every earlier attempt reached the server in vain or not at all, and none was answered
  with a 4xx.
\<close>

theorem send_nil_iff:
  assumes "marshal_metric_batch batch = Inr body"
  shows "send s env batch = Some None \<longleftrightarrow>
    (\<exists>m st. answered s env (wait_for (env_oor env) m (hs_backoff s) (env_rand env m)) body m st \<and>
       200 \<le> st \<and> st < 300 \<and> (\<forall>k<m. send_attempt s env body k = None))"
  by (simp only: send_Ok [OF assms] metric_retry.result_iff send_attempt_nil) blast

text \<open>
  The log sender has the same contract: it returns exactly when an attempt is decisive, with the
  outcome of the first decisive one.
\<close>

theorem send_logs_result:
  assumes "marshal_log_batch batch = Inr body"
  shows "(send_logs s env batch = Some r \<longleftrightarrow>
      (\<exists>m. send_logs_attempt s env body m = Some r \<and> (\<forall>k<m. send_logs_attempt s env body k = None)))
    \<and> ((\<exists>r. send_logs s env batch = Some r) \<longleftrightarrow> (\<exists>m. send_logs_attempt s env body m \<noteq> None))"
  unfolding send_logs_Ok [OF assms]
  by (intro conjI log_retry.result_iff log_retry.returns_iff)

section \<open>Witnesses\<close>

text \<open>A server that is unreachable once, answers 503 once and accepts the third attempt.\<close>

definition flaky_env :: "string send_env" where
  "flaky_env =
     \<lparr>env_rand = (\<lambda>_. Fin (1 / 2)), env_sleep = (\<lambda>_ _. None), env_build = (\<lambda>_. None),
      env_do = (\<lambda>n _. if n = 0 then Inl ''refused'' else if n = 1 then Inr 503 else Inr 202),
      env_oor = (\<lambda>_. 0)\<rparr>"

definition demo_sender :: http_sender where
  "demo_sender = with_token (new_http_sender ''http://h/api/v1/metrics'' default_backoff) ''t''"

lemma flaky_attempts:
  "send_attempt demo_sender flaky_env b 0 = None" "send_attempt demo_sender flaky_env b 1 = None"
  "send_attempt demo_sender flaky_env b 2 = Some None"
  "send_logs_attempt demo_sender flaky_env b 0 = None"
  "send_logs_attempt demo_sender flaky_env b 1 = None"
  "send_logs_attempt demo_sender flaky_env b 2 = Some None"
  by (simp_all add: send_attempt_def send_logs_attempt_def flaky_env_def)

lemma flaky_first:
  "\<forall>k<2. send_attempt demo_sender flaky_env b k = None"
  "\<forall>k<2. send_logs_attempt demo_sender flaky_env b k = None"
  using flaky_attempts [of b] by (auto simp: less_2_cases_iff)

lemma empty_batches:
  obtains body where "marshal_metric_batch \<lparr>mb_host = ''h'', mb_metrics = []\<rparr> = Inr body"
  by (simp add: marshal_metric_batch_def encode_metric_batch_def json_of_slice_def)


lemma send_nil_iff_witness:
  "send demo_sender flaky_env \<lparr>mb_host = ''h'', mb_metrics = []\<rparr> = Some None"
proof -
  let ?w = "\<lambda>m. wait_for (env_oor flaky_env) m (hs_backoff demo_sender) (env_rand flaky_env m)"
  obtain body where b: "marshal_metric_batch \<lparr>mb_host = ''h'', mb_metrics = []\<rparr> = Inr body"
    by (rule empty_batches)
  have "answered demo_sender flaky_env (?w 2) body 2 202"
    by (simp add: answered_def flaky_env_def)
  then have "\<exists>m st. answered demo_sender flaky_env (?w m) body m st \<and> 200 \<le> st \<and> st < 300 \<and>
      (\<forall>k<m. send_attempt demo_sender flaky_env body k = None)"
    using flaky_first(1) by (intro exI [of _ 2] exI [of _ 202] conjI) simp_all
  then show ?thesis by (rule send_nil_iff [OF b, THEN iffD2])
qed

lemma send_logs_result_witness:
  "send_logs demo_sender flaky_env \<lparr>lb_host = ''h'', lb_entries = []\<rparr> = Some None"
proof -
  obtain body where b: "marshal_log_batch \<lparr>lb_host = ''h'', lb_entries = []\<rparr> = Inr body"
    by (simp add: marshal_log_batch_def encode_log_batch_def json_of_slice_def)
  from send_logs_result [OF b, where s = demo_sender and env = flaky_env and r = None] show ?thesis
    using flaky_attempts(6) flaky_first(2) by blast
qed


end
