(* ===== verification/Webhooks.thy ===== *)
theory Webhooks
  imports Alerting Send_Loop
begin

text \<open>
  The notifications of \<open>internal/server/alerting/notifications.go\<close>: what a webhook is sent, and the
  configuration of the webhooks.  The HTTP client is a parameter.
\<close>

section \<open>The notifier\<close>

record webhook_notifier =
  wn_url :: string

definition new_webhook_notifier :: "string \<Rightarrow> webhook_notifier" where
  "new_webhook_notifier url = \<lparr>wn_url = url\<rparr>"

datatype 'e webhook_error = NotificationMarshal json_error | NotificationBuild 'e | WebhookFailed 'e | WebhookStatus string int

text \<open>
  The event as JSON.  \<open>Rule\<close> has no field tags, so its fields keep their Go names and \<open>For\<close> is a number
  of nanoseconds.
\<close>

definition event_text :: "event_kind \<Rightarrow> string" where
  "event_text k = (case k of Firing \<Rightarrow> ''firing'' | Resolved \<Rightarrow> ''resolved'')"

definition encode_rule :: "rule \<Rightarrow> (json_error, json) result" where
  "encode_rule r =
     (case json_of_float (ru_threshold r) of
        Inl e \<Rightarrow> Inl e
      | Inr v \<Rightarrow>
        Inr (JObj
          [json_field ''Host'' (json_of_string (ru_host r)), json_field ''Name'' (json_of_string (ru_name r)),
           json_field ''Op'' (json_of_string (ru_op r)), json_field ''Threshold'' v,
           json_field ''For'' (json_of_int (ru_for r))]))"

definition encode_notification :: "notification \<Rightarrow> (json_error, json) result" where
  "encode_notification n =
     (case encode_rule (nt_rule n) of
        Inl e \<Rightarrow> Inl e
      | Inr r \<Rightarrow>
        (case json_of_float (nt_value n) of
           Inl e \<Rightarrow> Inl e
         | Inr v \<Rightarrow>
           (case json_of_time (nt_fired_at n) of
              Inl e \<Rightarrow> Inl e
            | Inr t \<Rightarrow>
              Inr (JObj
                [json_field ''event'' (json_of_string (event_text (nt_event n))), json_field ''rule'' r,
                 json_field ''value'' v, json_field ''fired_at'' t]))))"

definition marshal_notification :: "notification \<Rightarrow> (json_error, string) result" where
  "marshal_notification n = map_sum id render (encode_notification n)"

text \<open>\<open>Notify\<close>: \<open>build\<close> and \<open>client\<close> stand for the request and the HTTP client.\<close>

definition webhook_notify ::
  "(request \<Rightarrow> 'e err) \<Rightarrow> (request \<Rightarrow> ('e, int) result) \<Rightarrow>
     webhook_notifier \<Rightarrow> notification \<Rightarrow> 'e webhook_error err" where
  "webhook_notify build client w event =
     (case marshal_notification event of
        Inl e \<Rightarrow> Some (NotificationMarshal e)
      | Inr body \<Rightarrow>
        let req = \<lparr>rq_method = ''POST'', rq_url = wn_url w,
                   rq_headers = [(''Content-Type'', ''application/json'')], rq_body = body\<rparr>
        in case build req of
             Some e \<Rightarrow> Some (NotificationBuild e)
           | None \<Rightarrow>
             (case client req of
                Inl e \<Rightarrow> Some (WebhookFailed e)
              | Inr st \<Rightarrow>
                if st < 200 \<or> st \<ge> 300 then Some (WebhookStatus (wn_url w) st) else None))"

record notification_item =
  ni_type :: string
  ni_url :: string

datatype notifications_error = NotificationsJSON | UnsupportedType nat string

fun parse_notifications_from ::
  "nat \<Rightarrow> notification_item list \<Rightarrow> (notifications_error, webhook_notifier list) result" where
  "parse_notifications_from i [] = Inr []"
| "parse_notifications_from i (item # items) =
     (if ni_type item = ''webhook''
      then case parse_notifications_from (Suc i) items of
             Inl e \<Rightarrow> Inl e
           | Inr ns \<Rightarrow> Inr (new_webhook_notifier (ni_url item) # ns)
      else Inl (UnsupportedType i (ni_type item)))"

definition notification_item_fields :: "(string \<times> notification_item decoder) list" where
  "notification_item_fields =
     [(''type'', \<lambda>i j. map_option (\<lambda>s. i\<lparr>ni_type := s\<rparr>) (decode_string (ni_type i) j)),
      (''url'', \<lambda>i j. map_option (\<lambda>s. i\<lparr>ni_url := s\<rparr>) (decode_string (ni_url i) j))]"

definition unmarshal_items :: "string \<Rightarrow> notification_item list option" where
  "unmarshal_items =
     unmarshal_with (\<lambda>j. map_option slice_list
       (decode_slice (decode_struct notification_item_fields) \<lparr>ni_type = [], ni_url = []\<rparr> ([], 0) j))"

definition parse_notifications :: "string \<Rightarrow> (notifications_error, webhook_notifier list) result" where
  "parse_notifications raw =
     (let s = trim_space raw
      in if s = [] then Inr []
         else case unmarshal_items s of
           None \<Rightarrow> Inl NotificationsJSON
         | Some items \<Rightarrow> parse_notifications_from 0 items)"

section \<open>Notifications and the configuration\<close>

lemma rule_names_fold:
  "fold_name ''host'' = ''host''" "fold_name ''name'' = ''name''" "fold_name ''op'' = ''op''"
  "fold_name ''threshold'' = ''threshold''" "fold_name ''for'' = ''for''"
  "fold_name ''Host'' = ''host''" "fold_name ''Name'' = ''name''" "fold_name ''Op'' = ''op''"
  "fold_name ''Threshold'' = ''threshold''" "fold_name ''For'' = ''for''"
  by code_simp+

lemma rule_names_valid:
  "to_valid ''Host'' = ''Host''" "to_valid ''Name'' = ''Name''" "to_valid ''Op'' = ''Op''"
  "to_valid ''Threshold'' = ''Threshold''" "to_valid ''For'' = ''For''"
  by code_simp+

lemma event_keys: "escape_string ''event'' = ''event''" "escape_string ''rule'' = ''rule''"
  by code_simp+

lemma decode_string_int: "decode_string s (json_of_int n) = None"
  by (simp add: decode_string_def json_of_int_def)

lemma encode_rule_rejected:
  assumes "is_f64 (ru_threshold r)" "encode_rule r = Inr j"
  shows "decode_struct rule_json_fields x j = None" and "d + 1 < max_nesting \<Longrightarrow> well_formed d j"
proof -
  obtain v where v: "json_of_float (ru_threshold r) = Inr v" using assms(2) by (auto simp: encode_rule_def split: sum.splits)
  note reads = json_of_float_reads [OF assms(1) v]
  show "decode_struct rule_json_fields x j = None"
    using assms(2) v reads
    by (auto simp: encode_rule_def decode_struct_def json_field_def unquote_escape rule_names_valid find_field_def
        rule_json_fields_def rule_names_fold decode_string_int simp del: fold_name.simps)
  show "well_formed d j" if "d + 1 < max_nesting"
    using assms(2) v reads that by (auto simp: encode_rule_def json_field_def)
qed

text \<open>
  C23. The rule a webhook is sent cannot be used as a configuration: its keys are read, case aside, but its
  \<open>For\<close> is a number of nanoseconds where \<open>ALERT_RULES\<close> has a string, so a configuration that holds it is
  rejected as a whole.
\<close>

theorem notified_rule_rejected:
  assumes "is_f64 (ru_threshold (nt_rule n))" "encode_notification n = Inr (JObj ms)" "map_of ms ''rule'' = Some j"
  shows "encode_rule (nt_rule n) = Inr j \<and> parse_rules (render (JArr [j])) = Inl RulesJSON"
proof -
  have j: "encode_rule (nt_rule n) = Inr j"
    using assms(2,3) by (auto simp: encode_notification_def json_field_def event_keys split: sum.splits)
  note rejected = encode_rule_rejected [OF assms(1) j]
  have "well_formed 0 (JArr [j])" using rejected(2) [of 1] by (simp add: max_nesting_def)
  then have "unmarshal_rules (render (JArr [j])) = None"
    unfolding unmarshal_rules_def by (simp add: decode_render(2) decode_slice_def rejected(1) del: render.simps)
  then show ?thesis using j by (simp add: parse_rules_def)
qed

lemma notified_rule_rejected_witness:
  "\<exists>ms j. encode_notification \<lparr>nt_event = Firing, nt_rule = cpu_rule minute, nt_value = Fin 95, nt_fired_at = 0\<rparr> = Inr (JObj ms) \<and>
     map_of ms ''rule'' = Some j \<and> parse_rules (render (JArr [j])) = Inl RulesJSON"
proof -
  let ?n = "\<lparr>nt_event = Firing, nt_rule = cpu_rule minute, nt_value = Fin 95, nt_fired_at = 0\<rparr>"
  obtain u v where uv: "json_of_float (Fin 90) = Inr u" "json_of_float (Fin 95) = Inr v"
    using json_of_float_finite [of "Fin 90"] json_of_float_finite [of "Fin 95"] by (auto simp: is_finite_iff)
  obtain t where "json_of_time 0 = Inr t" by (simp add: json_of_time_def four_digit_year_def hour_def)
  with uv obtain ms j where "encode_notification ?n = Inr (JObj ms)" "map_of ms ''rule'' = Some j"
    by (simp add: encode_notification_def encode_rule_def cpu_rule_def json_field_def event_keys)
  moreover have "is_f64 (ru_threshold (nt_rule ?n))" using is_f64_of_rat [of 90] f64_of_int_exact [of 90] by (simp add: cpu_rule_def f64_of_int_def del: is_f64_of_rat)
  ultimately show ?thesis using notified_rule_rejected [of ?n] by blast
qed

end
