(* ===== verification/Config.thy ===== *)
theory Config
  imports Webhooks
begin

text \<open>
  Configuration from the environment, \<open>internal/config/agent.go\<close> and \<open>server.go\<close>.  \<open>getenv\<close> gives the
  empty string for an unset variable, as \<open>os.Getenv\<close> does; \<open>url.Parse\<close> and \<open>os.Hostname\<close> are
  parameters.
\<close>

text \<open>A parsed URL: its scheme and its text, \<open>u.String()\<close>.\<close>

record url =
  url_scheme :: string
  url_text :: string

type_synonym environment = "string \<Rightarrow> string"

section \<open>The agent\<close>

record agent_config =
  ac_server_url :: url
  ac_host :: string
  ac_token :: string
  ac_interval :: duration
  ac_send_timeout :: duration
  ac_disk_mounts :: "string list"
  ac_net_ifaces :: "string list"
  ac_backoff_base :: duration
  ac_backoff_max :: duration
  ac_backoff_jitter :: f64
  ac_log_paths :: "string list"
  ac_log_level :: string

datatype config_error =
    ServerURLMissing
  | ServerURLInvalid string
  | DatabaseURLMissing
  | DatabaseURLInvalid string
  | AgentTokenMissing
  | AgentTokenShort
  | DurationInvalid string string
  | DurationNotPositive string string

definition collect_interval :: "string \<Rightarrow> duration" where
  "collect_interval raw =
     (if raw \<noteq> []
      then case parse_duration raw of
             Some d \<Rightarrow> if d \<ge> second \<and> d \<le> 300 * second then d else 10 * second
           | None \<Rightarrow> 10 * second
      else 10 * second)"

definition split_log_paths :: "string \<Rightarrow> string list" where
  "split_log_paths raw =
     (if raw \<noteq> [] then filter (\<lambda>p. p \<noteq> []) (map trim_space (split_on (CHR '','') raw)) else [])"

definition load_agent ::
  "environment \<Rightarrow> string \<Rightarrow> (string \<Rightarrow> url option) \<Rightarrow> (config_error, agent_config) result" where
  "load_agent getenv hostname url_parse =
     (let raw_url = getenv ''SERVER_URL''
      in if raw_url = [] then Inl ServerURLMissing
         else case url_parse raw_url of
           None \<Rightarrow> Inl (ServerURLInvalid raw_url)
         | Some u \<Rightarrow>
           if url_scheme u \<noteq> ''http'' \<and> url_scheme u \<noteq> ''https'' then Inl (ServerURLInvalid raw_url)
           else
             let host = (if getenv ''AGENT_HOST'' = [] then hostname else getenv ''AGENT_HOST'');
                 ll = getenv ''LOG_LEVEL''
             in Inr \<lparr>ac_server_url = u, ac_host = host, ac_token = getenv ''AGENT_TOKEN'',
                     ac_interval = collect_interval (getenv ''COLLECT_INTERVAL''),
                     ac_send_timeout = 10 * second, ac_disk_mounts = [], ac_net_ifaces = [],
                     ac_backoff_base = second, ac_backoff_max = 60 * second,
                     ac_backoff_jitter = Fin (1 / 4),
                     ac_log_paths = split_log_paths (getenv ''LOG_PATHS''),
                     ac_log_level = (if ll = ''warn'' \<or> ll = ''error'' \<or> ll = ''debug'' then ll else ''info'')\<rparr>)"

section \<open>The server\<close>

record server_config =
  sc_listen_addr :: string
  sc_database_url :: string
  sc_agent_token :: string
  sc_migrations_path :: string
  sc_log_level :: string
  sc_request_timeout :: duration
  sc_shutdown_timeout :: duration
  sc_alert_rules :: string
  sc_alert_notifications :: string
  sc_dashboard_enabled :: bool
  sc_host_stale_after :: duration
  sc_host_down_after :: duration

text \<open>\<open>parseDuration\<close> of the package, which calls \<open>time.ParseDuration\<close>.\<close>

definition duration_between :: "string \<Rightarrow> duration \<Rightarrow> duration \<Rightarrow> duration \<Rightarrow> duration" where
  "duration_between raw dflt lo hi =
     (if raw = [] then dflt
      else case parse_duration raw of
             None \<Rightarrow> dflt
           | Some d \<Rightarrow> if d < lo \<or> d > hi then dflt else d)"

definition duration_strict :: "string \<Rightarrow> string \<Rightarrow> duration \<Rightarrow> (config_error, duration) result" where
  "duration_strict var raw dflt =
     (if raw = [] then Inr dflt
      else case parse_duration raw of
             None \<Rightarrow> Inl (DurationInvalid var raw)
           | Some d \<Rightarrow> if d \<le> 0 then Inl (DurationNotPositive var raw) else Inr d)"

definition or_default :: "string \<Rightarrow> string \<Rightarrow> string" where
  "or_default s dflt = (if s = [] then dflt else s)"

definition load_server_config ::
  "environment \<Rightarrow> (string \<Rightarrow> url option) \<Rightarrow> (config_error, server_config) result" where
  "load_server_config getenv url_parse =
     (let db_url = getenv ''DATABASE_URL'';
          token = getenv ''AGENT_TOKEN'';
          ll = to_lower (getenv ''LOG_LEVEL'');
          dash = to_lower (getenv ''DASHBOARD_ENABLED'')
      in if db_url = [] then Inl DatabaseURLMissing
         else if (case url_parse db_url of
                    None \<Rightarrow> True
                  | Some u \<Rightarrow> url_scheme u \<noteq> ''postgres'' \<and> url_scheme u \<noteq> ''postgresql'')
         then Inl (DatabaseURLInvalid db_url)
         else if token = [] then Inl AgentTokenMissing
         else if length token < 16 then Inl AgentTokenShort
         else case duration_strict ''HOST_STALE_AFTER'' (getenv ''HOST_STALE_AFTER'') (20 * second) of
           Inl e \<Rightarrow> Inl e
         | Inr stale \<Rightarrow>
           (case duration_strict ''HOST_DOWN_AFTER'' (getenv ''HOST_DOWN_AFTER'') (50 * second) of
              Inl e \<Rightarrow> Inl e
            | Inr down \<Rightarrow>
              Inr \<lparr>sc_listen_addr = or_default (getenv ''LISTEN_ADDR'') '':8080'',
                   sc_database_url = db_url, sc_agent_token = token,
                   sc_migrations_path = or_default (getenv ''MIGRATIONS_PATH'') ''./migrations'',
                   sc_log_level = (if ll = ''debug'' \<or> ll = ''warn'' \<or> ll = ''error'' then ll else ''info''),
                   sc_request_timeout =
                     duration_between (getenv ''REQUEST_TIMEOUT'') (10 * second) second (120 * second),
                   sc_shutdown_timeout =
                     duration_between (getenv ''SHUTDOWN_TIMEOUT'') (5 * second) second (30 * second),
                   sc_alert_rules = getenv ''ALERT_RULES'',
                   sc_alert_notifications = getenv ''ALERT_NOTIFICATIONS'',
                   sc_dashboard_enabled = (dash \<noteq> ''false'' \<and> dash \<noteq> ''0''),
                   sc_host_stale_after = stale, sc_host_down_after = down\<rparr>))"

lemma load_agent_host:
  "load_agent getenv hostname url_parse = Inr c \<Longrightarrow>
     ac_host c = (if getenv ''AGENT_HOST'' = [] then hostname else getenv ''AGENT_HOST'')"
  by (auto simp: load_agent_def Let_def split: if_splits option.splits)

section \<open>Ranges\<close>

lemma collect_interval_range: "second \<le> collect_interval raw \<and> collect_interval raw \<le> 300 * second"
  by (auto simp: collect_interval_def second_def split: option.split)

lemma duration_between_range:
  "lo \<le> dflt \<Longrightarrow> dflt \<le> hi \<Longrightarrow> lo \<le> duration_between raw dflt lo hi \<and> duration_between raw dflt lo hi \<le> hi"
  by (auto simp: duration_between_def split: option.split)

lemma duration_strict_positive: "duration_strict var raw dflt = Inr d \<Longrightarrow> 0 < dflt \<Longrightarrow> 0 < d"
  by (auto simp: duration_strict_def split: if_splits option.splits)

lemma split_log_paths_nonempty: "p \<in> set (split_log_paths raw) \<Longrightarrow> p \<noteq> []"
  by (auto simp: split_log_paths_def split: if_splits)

text \<open>
  Whatever the environment, an agent that starts collects every 1 to 300 seconds, follows no empty
  path, and backs off with the production parameters; a bad interval or log level falls back to the
  default and is never an error.
\<close>

theorem agent_config_bounds:
  assumes "load_agent getenv hostname url_parse = Inr c"
  shows "second \<le> ac_interval c \<and> ac_interval c \<le> 300 * second \<and>
    [] \<notin> set (ac_log_paths c) \<and> ac_log_level c \<in> set valid_log_levels \<and>
    \<lparr>bo_base = ac_backoff_base c, bo_max = ac_backoff_max c, bo_jitter = ac_backoff_jitter c\<rparr> = default_backoff"
proof -
  have "\<exists>raw. ac_interval c = collect_interval raw"
    and "\<exists>raw. ac_log_paths c = split_log_paths raw"
    and "ac_log_level c \<in> set valid_log_levels"
    and "\<lparr>bo_base = ac_backoff_base c, bo_max = ac_backoff_max c, bo_jitter = ac_backoff_jitter c\<rparr> = default_backoff"
    using assms
    by (auto simp: load_agent_def Let_def default_backoff_def valid_log_levels_def split: option.splits if_splits)
  then show ?thesis using collect_interval_range split_log_paths_nonempty by force
qed

text \<open>
  A server that starts has a token of at least 16 bytes, a request timeout of 1 to 120 seconds, a
  shutdown timeout of 1 to 30 seconds, positive thresholds for stale and down hosts, and a known log
  level.
\<close>

lemma server_config_bounds:
  assumes "load_server_config getenv url_parse = Inr c"
  shows "16 \<le> length (sc_agent_token c) \<and>
    second \<le> sc_request_timeout c \<and> sc_request_timeout c \<le> 120 * second \<and>
    second \<le> sc_shutdown_timeout c \<and> sc_shutdown_timeout c \<le> 30 * second \<and>
    0 < sc_host_stale_after c \<and> 0 < sc_host_down_after c \<and> sc_log_level c \<in> set valid_log_levels"
proof -
  have "16 \<le> length (sc_agent_token c) \<and> sc_log_level c \<in> set valid_log_levels"
    using assms by (auto simp: load_server_config_def Let_def valid_log_levels_def split: if_splits sum.splits)
  moreover have "0 < sc_host_stale_after c \<and> 0 < sc_host_down_after c"
    using assms duration_strict_positive
    by (auto simp: load_server_config_def Let_def second_def split: if_splits sum.splits)
  moreover have "\<exists>a b. sc_request_timeout c = duration_between a (10 * second) second (120 * second) \<and>
      sc_shutdown_timeout c = duration_between b (5 * second) second (30 * second)"
    using assms by (auto simp: load_server_config_def Let_def split: if_splits sum.splits)
  ultimately show ?thesis
    using duration_between_range [of second "10 * second" "120 * second"]
      duration_between_range [of second "5 * second" "30 * second"]
    by (auto simp: second_def)
qed

definition demo_env :: environment where
  "demo_env v =
     (if v = ''SERVER_URL'' then ''http://srv:8080''
      else if v = ''DATABASE_URL'' then ''postgres://db''
      else if v = ''AGENT_TOKEN'' then ''0123456789abcdef''
      else if v = ''AGENT_HOST'' then ''web''
      else [])"

lemma agent_config_bounds_witness:
  "\<exists>c. load_agent demo_env ''box'' (\<lambda>s. Some \<lparr>url_scheme = ''http'', url_text = s\<rparr>) = Inr c \<and> ac_interval c \<le> 300 * second"
proof -
  obtain c where c: "load_agent demo_env ''box'' (\<lambda>s. Some \<lparr>url_scheme = ''http'', url_text = s\<rparr>) = Inr c"
    by (simp add: load_agent_def demo_env_def Let_def)
  from agent_config_bounds [OF c] c show ?thesis by blast
qed

end
