(* ===== verification/Log_Store.thy ===== *)
theory Log_Store
  imports Metric_Store
begin

text \<open>
  The log repository, \<open>internal/server/storage/logs.go\<close>: validation of the query parameters, the
  dynamic \<open>WHERE\<close> builder, the statement it yields, and keyset pagination.  The database is the same
  parameter as for metrics; what pagination relies on is the hypothesis \<open>answers_logs\<close>, which is what
  SQL says of the statement.
\<close>

section \<open>Query parameters\<close>

definition storage_log_levels :: "string list" where
  "storage_log_levels = [''info'', ''warn'', ''error'', ''debug'']"

record log_query_params =
  lq_host :: string
  lq_level :: string
  lq_from :: gotime
  lq_to :: gotime
  lq_q :: string
  lq_limit :: int
  lq_cursor :: int

datatype log_query_error = InvalidLevel string

text \<open>\<open>Validate\<close> has a pointer receiver: it also returns the parameters with the limit it set.\<close>

definition log_query_params_validate :: "log_query_params \<Rightarrow> log_query_error err \<times> log_query_params" where
  "log_query_params_validate p =
     (let p1 = (if lq_limit p \<le> 0 then p\<lparr>lq_limit := 100\<rparr> else p);
          p2 = (if lq_limit p1 > 1000 then p1\<lparr>lq_limit := 1000\<rparr> else p1)
      in if lq_level p2 \<noteq> [] \<and> lq_level p2 \<notin> set storage_log_levels
         then (Some (InvalidLevel (lq_level p2)), p2) else (None, p2))"

lemma log_query_params_validate_limit:
  "log_query_params_validate p = (e, p') \<Longrightarrow> 1 \<le> lq_limit p' \<and> lq_limit p' \<le> 1000"
  by (auto simp: log_query_params_validate_def Let_def split: if_splits)

section \<open>Statements\<close>

definition insert_log_sql :: string where
  "insert_log_sql = ''INSERT INTO logs (time, host, path, level, message) VALUES ($1,$2,$3,$4,$5)''"

text \<open>The builder's variables \<open>conds\<close>, \<open>args\<close> and \<open>n\<close>, and its closure \<open>add\<close>.\<close>

record where_builder =
  wb_conds :: "string list"
  wb_args :: "sql_arg list"
  wb_n :: nat

definition add_cond :: "string \<Rightarrow> sql_arg \<Rightarrow> where_builder \<Rightarrow> where_builder" where
  "add_cond c v b =
     (let n = wb_n b + 1
      in \<lparr>wb_conds = wb_conds b @ [c @ ''$'' @ itoa n], wb_args = wb_args b @ [v], wb_n = n\<rparr>)"

definition add_when :: "bool \<Rightarrow> string \<Rightarrow> sql_arg \<Rightarrow> where_builder \<Rightarrow> where_builder" where
  "add_when guard c v b = (if guard then add_cond c v b else b)"

definition log_conditions :: "log_query_params \<Rightarrow> where_builder" where
  "log_conditions p =
     (let b0 = \<lparr>wb_conds = [], wb_args = [], wb_n = 0\<rparr>;
          b1 = add_when (lq_host p \<noteq> []) ''host = '' (ArgText (lq_host p)) b0;
          b2 = add_when (lq_level p \<noteq> []) ''level = '' (ArgText (lq_level p)) b1;
          b3 = add_when (lq_from p \<noteq> zero_time) ''time >= '' (ArgTime (lq_from p)) b2;
          b4 = add_when (lq_to p \<noteq> zero_time) ''time <= '' (ArgTime (lq_to p)) b3;
          b5 = add_when (lq_q p \<noteq> []) ''message ILIKE '' (ArgText (''%'' @ lq_q p @ ''%'')) b4
      in add_when (lq_cursor p > 0) ''id < '' (ArgInt (lq_cursor p)) b5)"

fun join :: "string \<Rightarrow> string list \<Rightarrow> string" where
  "join sep [] = []"
| "join sep [w] = w"
| "join sep (w # ws) = w @ sep @ join sep ws"

definition log_query_statement :: "log_query_params \<Rightarrow> statement" where
  "log_query_statement p =
     (let b = log_conditions p;
          n = wb_n b + 1;
          args = wb_args b @ [ArgInt (lq_limit p + 1)];
          whr = (if length (wb_conds b) > 0 then ''WHERE '' @ join '' AND '' (wb_conds b) else [])
      in (''SELECT id, time, host, path, level, message FROM logs '' @ whr @
            '' ORDER BY id DESC LIMIT $'' @ itoa n, args))"

section \<open>The repository\<close>

definition queue_log :: "log_entry \<Rightarrow> statement" where
  "queue_log e =
     (insert_log_sql,
      [ArgTime (e_time e), ArgText (e_host e), ArgText (e_path e), ArgText (e_level e), ArgText (e_message e)])"

definition insert_logs ::
  "('db, 'e) pool \<Rightarrow> log_batch \<Rightarrow> 'db \<Rightarrow> (nat \<times> 'e store_error err) \<times> 'db" where
  "insert_logs pool batch db =
     (let b = map queue_log (lb_entries batch);
          (results, db') = send_batch pool b db
      in (exec_batch results (length b), db'))"

text \<open>
  \<open>Query\<close>: reads one row more than the limit and turns it into the cursor.  Slicing at a negative
  limit, or reading the last of no rows, panics (\<open>IndexPanic\<close>).
\<close>

definition query_log_rows ::
  "('db, 'e) pool \<Rightarrow> log_query_params \<Rightarrow> 'db \<Rightarrow> ('e store_error, log_row list \<times> int) result" where
  "query_log_rows pool p db =
     (case read_rows (query_logs pool (log_query_statement p) db) of
        Inl e \<Rightarrow> Inl e
      | Inr results \<Rightarrow>
        if int (length results) > lq_limit p
        then if lq_limit p \<le> 0 then Inl IndexPanic
             else let page = take (nat (lq_limit p)) results
                  in Inr (page, r_id (page ! (nat (lq_limit p) - 1)))
        else Inr (results, 0))"

definition ping_logs :: "('db, 'e) pool \<Rightarrow> 'db \<Rightarrow> 'e err" where
  "ping_logs pool db = exec_sql pool ''SELECT 1'' db"

section \<open>The statement\<close>

text \<open>The placeholders are numbered in the order of the arguments, the limit being the last.\<close>

definition numbered :: "where_builder \<Rightarrow> bool" where
  "numbered b \<longleftrightarrow> length (wb_conds b) = wb_n b \<and> length (wb_args b) = wb_n b \<and>
     (\<forall>i < wb_n b. \<exists>c. wb_conds b ! i = c @ ''$'' @ itoa (i + 1))"

lemma numbered_add_when: "numbered b \<Longrightarrow> numbered (add_when g c v b)"
  by (auto simp: numbered_def add_when_def add_cond_def Let_def nth_append less_Suc_eq)

lemma numbered_conditions: "numbered (log_conditions p)"
  unfolding log_conditions_def Let_def by (intro numbered_add_when) (simp add: numbered_def)

text \<open>Which filters are present decides the text of the statement; their values do not.\<close>

definition same_filters :: "log_query_params \<Rightarrow> log_query_params \<Rightarrow> bool" where
  "same_filters p p' \<longleftrightarrow>
     (lq_host p = [] \<longleftrightarrow> lq_host p' = []) \<and> (lq_level p = [] \<longleftrightarrow> lq_level p' = []) \<and>
     (lq_from p = zero_time \<longleftrightarrow> lq_from p' = zero_time) \<and>
     (lq_to p = zero_time \<longleftrightarrow> lq_to p' = zero_time) \<and>
     (lq_q p = [] \<longleftrightarrow> lq_q p' = []) \<and> (0 < lq_cursor p \<longleftrightarrow> 0 < lq_cursor p')"

definition same_text :: "where_builder \<Rightarrow> where_builder \<Rightarrow> bool" where
  "same_text b b' \<longleftrightarrow> wb_conds b = wb_conds b' \<and> wb_n b = wb_n b'"

lemma same_text_add_when: "same_text b b' \<Longrightarrow> g = g' \<Longrightarrow> same_text (add_when g c v b) (add_when g' c v' b')"
  by (simp add: same_text_def add_when_def add_cond_def Let_def)

lemma same_text_conditions: "same_filters p p' \<Longrightarrow> same_text (log_conditions p) (log_conditions p')"
  unfolding log_conditions_def Let_def
  by (intro same_text_add_when) (auto simp: same_filters_def same_text_def)

text \<open>
  No user input reaches the text of a log query: two queries with the same filters present have
  the same text, whatever the values, and every value is bound to the placeholder of its number, the
  last one being the limit.
\<close>

theorem log_query_text_independent:
  assumes "same_filters p p'"
  shows "fst (log_query_statement p) = fst (log_query_statement p') \<and>
    numbered (log_conditions p) \<and>
    snd (log_query_statement p) = wb_args (log_conditions p) @ [ArgInt (lq_limit p + 1)]"
  using same_text_conditions [OF assms] numbered_conditions
  by (simp add: log_query_statement_def Let_def same_text_def)

lemma log_query_text_independent_witness:
  "fst (log_query_statement \<lparr>lq_host = ''a'', lq_level = [], lq_from = 0, lq_to = 7, lq_q = ''; DROP'',
      lq_limit = 10, lq_cursor = 0\<rparr>) =
   fst (log_query_statement \<lparr>lq_host = ''b'', lq_level = [], lq_from = 0, lq_to = 9, lq_q = ''x'',
      lq_limit = 20, lq_cursor = 0\<rparr>)"
  using log_query_text_independent
    [of "\<lparr>lq_host = ''a'', lq_level = [], lq_from = 0, lq_to = 7, lq_q = ''; DROP'', lq_limit = 10, lq_cursor = 0\<rparr>"
      "\<lparr>lq_host = ''b'', lq_level = [], lq_from = 0, lq_to = 9, lq_q = ''x'', lq_limit = 20, lq_cursor = 0\<rparr>"]
  by (simp add: same_filters_def zero_time_def)

section \<open>Keyset pagination\<close>

text \<open>What the statement selects; \<open>ilike\<close> is PostgreSQL's \<open>ILIKE\<close>, pattern first.\<close>

definition log_matches :: "(string \<Rightarrow> string \<Rightarrow> bool) \<Rightarrow> log_query_params \<Rightarrow> log_row \<Rightarrow> bool" where
  "log_matches ilike p r \<longleftrightarrow>
     (lq_host p \<noteq> [] \<longrightarrow> r_host r = lq_host p) \<and> (lq_level p \<noteq> [] \<longrightarrow> r_level r = lq_level p) \<and>
     (lq_from p \<noteq> zero_time \<longrightarrow> lq_from p \<le> r_time r) \<and> (lq_to p \<noteq> zero_time \<longrightarrow> r_time r \<le> lq_to p) \<and>
     (lq_q p \<noteq> [] \<longrightarrow> ilike (''%'' @ lq_q p @ ''%'') (r_message r)) \<and>
     (lq_cursor p > 0 \<longrightarrow> r_id r < lq_cursor p)"

definition at_cursor :: "log_query_params \<Rightarrow> int \<Rightarrow> log_query_params" where
  "at_cursor p c = p\<lparr>lq_cursor := c\<rparr>"

text \<open>\<open>table\<close> holds the rows by decreasing id; ids come from a \<open>BIGSERIAL\<close> column.\<close>

definition log_table :: "log_row list \<Rightarrow> bool" where
  "log_table table \<longleftrightarrow> sorted_wrt (\<lambda>a b. r_id a > r_id b) table \<and> (\<forall>r\<in>set table. 0 < r_id r)"

definition answers_logs ::
  "('db, 'e) pool \<Rightarrow> 'db \<Rightarrow> (string \<Rightarrow> string \<Rightarrow> bool) \<Rightarrow> log_row list \<Rightarrow> log_query_params \<Rightarrow> bool" where
  "answers_logs pool db ilike table p \<longleftrightarrow>
     (\<forall>c\<ge>0. query_logs pool (log_query_statement (at_cursor p c)) db =
       Inr \<lparr>rows_scans = map Inr (take (nat (lq_limit p + 1)) (filter (log_matches ilike (at_cursor p c)) table)),
            rows_err = None\<rparr>)"

text \<open>A client that follows \<open>next_cursor\<close> until it is null, collecting the pages.\<close>

fun walk_pages :: "nat \<Rightarrow> (int \<Rightarrow> ('e, 'r list \<times> int) result) \<Rightarrow> int \<Rightarrow> 'r list option" where
  "walk_pages 0 fetch c = None"
| "walk_pages (Suc fuel) fetch c =
     (case fetch c of
        Inl e \<Rightarrow> None
      | Inr (page, next_cursor) \<Rightarrow>
        if next_cursor > 0 then map_option ((@) page) (walk_pages fuel fetch next_cursor) else Some page)"

lemma log_matches_cursor:
  "log_matches ilike (at_cursor p c) r \<longleftrightarrow>
     log_matches ilike (at_cursor p 0) r \<and> (c > 0 \<longrightarrow> r_id r < c)"
  by (auto simp: log_matches_def at_cursor_def)

text \<open>The rows from a cursor on.\<close>

definition rows_below :: "log_row list \<Rightarrow> int \<Rightarrow> log_row list" where
  "rows_below xs c = filter (\<lambda>r. c > 0 \<longrightarrow> r_id r < c) xs"

lemma log_table_filter: "log_table xs \<Longrightarrow> log_table (filter P xs)"
  by (auto simp: log_table_def sorted_wrt_filter)

lemma below_nth:
  assumes "log_table xs" "k < length xs"
  shows "filter (\<lambda>r. r_id r < r_id (xs ! k)) xs = drop (Suc k) xs"
  using assms
proof (induction xs arbitrary: k)
  case (Cons x xs)
  then have x: "\<forall>y\<in>set xs. r_id y < r_id x" and xs: "log_table xs" by (auto simp: log_table_def)
  show ?case
  proof (cases k)
    case 0
    with x show ?thesis by (simp add: filter_id_conv)
  next
    case (Suc j)
    with Cons.prems have j: "j < length xs" by simp
    then have "\<not> r_id x < r_id (xs ! j)" using x by (meson nth_mem less_asym)
    with Cons.IH [OF xs j] Suc show ?thesis by simp
  qed
qed simp

lemma rows_below_next:
  assumes "log_table xs" "0 \<le> c" "k < length (rows_below xs c)"
  shows "0 < r_id (rows_below xs c ! k)"
    and "rows_below xs (r_id (rows_below xs c ! k)) = drop (Suc k) (rows_below xs c)"
proof -
  let ?b = "rows_below xs c"
  have mem: "?b ! k \<in> set ?b" using assms(3) by simp
  then show pos: "0 < r_id (?b ! k)" using assms(1) by (auto simp: rows_below_def log_table_def)
  have "rows_below xs (r_id (?b ! k)) = filter (\<lambda>r. r_id r < r_id (?b ! k)) ?b"
    using mem pos by (auto simp: rows_below_def intro!: filter_cong)
  also have "\<dots> = drop (Suc k) ?b"
    using assms log_table_filter by (intro below_nth) (auto simp: rows_below_def)
  finally show "rows_below xs (r_id (?b ! k)) = drop (Suc k) ?b" .
qed

lemma walk_pages_complete:
  assumes "log_table xs" "0 < per"
    and "\<And>c. 0 \<le> c \<Longrightarrow> fetch c = Inr (take per (rows_below xs c),
           if per < length (rows_below xs c) then r_id (rows_below xs c ! (per - 1)) else 0)"
  shows "0 \<le> c \<Longrightarrow> length (rows_below xs c) < fuel \<Longrightarrow> walk_pages fuel fetch c = Some (rows_below xs c)"
proof (induction fuel arbitrary: c)
  case (Suc fuel)
  show ?case
  proof (cases "per < length (rows_below xs c)")
    case True
    let ?n = "r_id (rows_below xs c ! (per - 1))"
    have n: "0 < ?n" "rows_below xs ?n = drop per (rows_below xs c)"
      using rows_below_next [OF assms(1) Suc.prems(1), of "per - 1"] True assms(2) by auto
    have "length (drop per (rows_below xs c)) < fuel" using Suc.prems(2) assms(2) True by simp
    with n Suc.IH [of ?n] have "walk_pages fuel fetch ?n = Some (drop per (rows_below xs c))" by simp
    with n(1) True assms(3) [OF Suc.prems(1)] show ?thesis by simp
  next
    case False
    with assms(3) [OF Suc.prems(1)] show ?thesis by simp
  qed
qed simp

lemma page_of_query:
  assumes "answers_logs pool db ilike table p" "0 < lq_limit p" "0 \<le> c"
  shows "query_log_rows pool (at_cursor p c) db =
    (let rs = rows_below (filter (log_matches ilike (at_cursor p 0)) table) c; per = nat (lq_limit p)
     in Inr (take per rs, if per < length rs then r_id (rs ! (per - 1)) else 0))"
proof -
  define rs where "rs = rows_below (filter (log_matches ilike (at_cursor p 0)) table) c"
  have rs: "filter (log_matches ilike (at_cursor p c)) table = rs"
    by (auto simp: rs_def rows_below_def log_matches_cursor [of ilike p c] intro!: filter_cong)
  have "read_rows (query_logs pool (log_query_statement (at_cursor p c)) db) = Inr (take (nat (lq_limit p + 1)) rs)"
    using assms by (simp add: answers_logs_def read_rows_def rs)
  moreover have "nat (lq_limit p + 1) = Suc (nat (lq_limit p))" using assms(2) by simp
  moreover have "lq_limit (at_cursor p c) = lq_limit p" by (simp add: at_cursor_def)
  ultimately show ?thesis
    using assms(2) by (auto simp: query_log_rows_def Let_def min_def simp flip: rs_def)
qed

text \<open>
  C3. Following the cursors from the first page to the last one returns exactly the rows that match
  the filters, each once, newest first, for any page size of at least one, provided the database
  answers the statement as SQL defines it; as many pages as there are rows plus one are enough.
\<close>

theorem log_pages_complete:
  assumes "log_table table" and "answers_logs pool db ilike table p" and "0 < lq_limit p"
    and "length (filter (log_matches ilike (at_cursor p 0)) table) < fuel"
  shows "walk_pages fuel (\<lambda>c. query_log_rows pool (at_cursor p c) db) 0 =
    Some (filter (log_matches ilike (at_cursor p 0)) table)"
proof -
  let ?xs = "filter (log_matches ilike (at_cursor p 0)) table"
  have 0: "rows_below ?xs 0 = ?xs" by (simp add: rows_below_def)
  have "walk_pages fuel (\<lambda>c. query_log_rows pool (at_cursor p c) db) 0 = Some (rows_below ?xs 0)"
    using assms 0
    by (intro walk_pages_complete [where per = "nat (lq_limit p)"] log_table_filter)
      (auto simp: page_of_query Let_def)
  with 0 show ?thesis by simp
qed

text \<open>A pool over a table of rows that answers the unfiltered log statement as SQL defines it.\<close>

definition table_pool :: "(log_row list, string) pool" where
  "table_pool =
     \<lparr>send_batch = (\<lambda>b db. (\<lambda>i. None, db)), query_points = (\<lambda>q db. Inl ''unused''),
      query_hosts = (\<lambda>q db. Inl ''unused''),
      query_logs = (\<lambda>q db.
        case snd q of
          [ArgInt l] \<Rightarrow> Inr \<lparr>rows_scans = map Inr (take (nat l) db), rows_err = None\<rparr>
        | [ArgInt c, ArgInt l] \<Rightarrow>
          Inr \<lparr>rows_scans = map Inr (take (nat l) (filter (\<lambda>r. r_id r < c) db)), rows_err = None\<rparr>
        | _ \<Rightarrow> Inl ''unused''),
      exec_sql = (\<lambda>q db. None)\<rparr>"

lemma log_pages_complete_witness:
  "let p = \<lparr>lq_host = [], lq_level = [], lq_from = zero_time, lq_to = zero_time, lq_q = [], lq_limit = 2,
         lq_cursor = 0\<rparr>;
       row = (\<lambda>i. \<lparr>r_id = i, r_time = i, r_host = ''h'', r_path = ''/l'', r_level = ''info'', r_message = ''m''\<rparr>);
       table = [row 9, row 7, row 4, row 2, row 1]
   in walk_pages 6 (\<lambda>c. query_log_rows table_pool (at_cursor p c) table) 0 = Some table"
proof -
  define p where "p = \<lparr>lq_host = [], lq_level = [], lq_from = zero_time, lq_to = zero_time, lq_q = [],
    lq_limit = 2, lq_cursor = 0\<rparr>"
  define row where
    "row = (\<lambda>i. \<lparr>r_id = i, r_time = i, r_host = ''h'', r_path = ''/l'', r_level = ''info'', r_message = ''m''\<rparr>)"
  define table where "table = [row 9, row 7, row 4, row 2, row 1]"
  have m: "log_matches (\<lambda>_ _. True) (at_cursor p c) = (\<lambda>r. c > 0 \<longrightarrow> r_id r < c)" for c
    by (simp add: fun_eq_iff log_matches_def at_cursor_def p_def)
  have "answers_logs table_pool table (\<lambda>_ _. True) table p"
    unfolding answers_logs_def m
    by (simp add: table_pool_def log_query_statement_def log_conditions_def add_when_def add_cond_def
        at_cursor_def p_def Let_def)
  moreover have "log_table table" by (simp add: log_table_def row_def table_def)
  moreover have "0 < lq_limit p" by (simp add: p_def)
  moreover have "length (filter (log_matches (\<lambda>_ _. True) (at_cursor p 0)) table) < 6"
    by (simp add: m table_def)
  ultimately have "walk_pages 6 (\<lambda>c. query_log_rows table_pool (at_cursor p c) table) 0 =
      Some (filter (log_matches (\<lambda>_ _. True) (at_cursor p 0)) table)"
    by (intro log_pages_complete)
  moreover have "filter (log_matches (\<lambda>_ _. True) (at_cursor p 0)) table = table" by (simp add: m)
  ultimately have "walk_pages 6 (\<lambda>c. query_log_rows table_pool (at_cursor p c) table) 0 = Some table" by simp
  then show ?thesis unfolding p_def table_def row_def Let_def .
qed

end
