(* ===== verification/Host_Tracker.thy ===== *)
theory Host_Tracker
  imports Model Alarm_Traces
begin

text \<open>
  The in-memory heartbeat tracker, \<open>internal/server/storage/hosts.go\<close>.  A nil tracker is \<open>None\<close>.
  The clock is read where the code reads it, so every operation takes the time it sees; iteration
  over a Go map visits the keys in an arbitrary order, which is an argument as well.  Each operation
  runs under the tracker's mutex, so a run of the tracker is a sequence of operations.
\<close>

section \<open>State\<close>

record host_status =
  hs_host :: string
  hs_status :: string
  hs_last_seen :: gotime

text \<open>\<open>down\<close> is a \<open>map[string]bool\<close> whose entries are only ever \<open>true\<close>: a set.\<close>

record host_tracker =
  ht_hosts :: "string \<rightharpoonup> gotime"
  ht_down :: "string set"
  ht_stale_after :: duration
  ht_down_after :: duration
  ht_on_down :: bool \<comment> \<open>whether a callback is set\<close>

definition new_host_tracker :: "duration \<Rightarrow> duration \<Rightarrow> bool \<Rightarrow> host_tracker" where
  "new_host_tracker stale_after down_after on_down =
     \<lparr>ht_hosts = Map.empty, ht_down = {}, ht_stale_after = stale_after, ht_down_after = down_after,
      ht_on_down = on_down\<rparr>"

section \<open>Operations\<close>

definition heartbeat :: "gotime \<Rightarrow> string \<Rightarrow> host_tracker option \<Rightarrow> host_tracker option" where
  "heartbeat now host tr =
     (case tr of
        None \<Rightarrow> None
      | Some t \<Rightarrow>
        if host = [] then Some t
        else Some (t\<lparr>ht_hosts := (ht_hosts t)(host \<mapsto> now), ht_down := ht_down t - {host}\<rparr>))"

definition classify :: "host_tracker \<Rightarrow> gotime \<Rightarrow> gotime \<Rightarrow> string" where
  "classify t now last_seen =
     (let age = time_sub now last_seen
      in if age \<ge> ht_down_after t then ''down''
         else if age \<ge> ht_stale_after t then ''stale''
         else ''ok'')"

definition status :: "gotime \<Rightarrow> string \<Rightarrow> host_tracker option \<Rightarrow> host_status" where
  "status now host tr =
     (case tr of
        None \<Rightarrow> \<lparr>hs_host = host, hs_status = ''down'', hs_last_seen = zero_time\<rparr>
      | Some t \<Rightarrow>
        (case ht_hosts t host of
           None \<Rightarrow> \<lparr>hs_host = host, hs_status = ''down'', hs_last_seen = zero_time\<rparr>
         | Some ls \<Rightarrow> \<lparr>hs_host = host, hs_status = classify t now ls, hs_last_seen = ls\<rparr>))"

text \<open>
  \<open>All\<close>: \<open>classify\<close> reads the clock once per host, so the time is a function of the host; \<open>order\<close>
  is the order in which the range loop visits the keys.
\<close>

definition all_hosts :: "(string \<Rightarrow> gotime) \<Rightarrow> string list \<Rightarrow> host_tracker option \<Rightarrow> host_status list" where
  "all_hosts now_at order tr =
     (case tr of
        None \<Rightarrow> []
      | Some t \<Rightarrow>
        sort_key hs_host
          (List.map_filter
             (\<lambda>h. map_option
                (\<lambda>ls. \<lparr>hs_host = h, hs_status = classify t (now_at h) ls, hs_last_seen = ls\<rparr>)
                (ht_hosts t h))
             order))"

text \<open>The range loop of \<open>scan\<close>; the list collects \<open>newlyDown\<close>.\<close>

fun scan_loop :: "gotime \<Rightarrow> string list \<Rightarrow> host_tracker \<Rightarrow> host_tracker \<times> string list" where
  "scan_loop now [] t = (t, [])"
| "scan_loop now (h # order) t =
     (case ht_hosts t h of
        None \<Rightarrow> scan_loop now order t
      | Some ls \<Rightarrow>
        if time_sub now ls \<ge> ht_down_after t \<and> h \<notin> ht_down t
        then let (t', newly_down) = scan_loop now order (t\<lparr>ht_down := insert h (ht_down t)\<rparr>)
             in (t', h # newly_down)
        else scan_loop now order t)"

text \<open>\<open>scan\<close> returns the hosts \<open>onDown\<close> is called with, in the order of the calls.\<close>

definition scan :: "gotime \<Rightarrow> string list \<Rightarrow> host_tracker \<Rightarrow> host_tracker \<times> string list" where
  "scan now order t =
     (let (t', newly_down) = scan_loop now order t in (t', if ht_on_down t then newly_down else []))"

section \<open>The scan\<close>

lemma scan_loop_hosts: "ht_hosts (fst (scan_loop now order t)) = ht_hosts t
    \<and> ht_down_after (fst (scan_loop now order t)) = ht_down_after t
    \<and> ht_stale_after (fst (scan_loop now order t)) = ht_stale_after t
    \<and> ht_on_down (fst (scan_loop now order t)) = ht_on_down t"
  by (induction now order t rule: scan_loop.induct) (auto split: option.splits prod.splits)

definition overdue :: "gotime \<Rightarrow> host_tracker \<Rightarrow> string \<Rightarrow> bool" where
  "overdue now t h \<longleftrightarrow> (\<exists>ls. ht_hosts t h = Some ls \<and> time_sub now ls \<ge> ht_down_after t)"

lemma overdue_update [simp]: "overdue now (t\<lparr>ht_down := D\<rparr>) h = overdue now t h"
  by (simp add: overdue_def)

lemma scan_loop_spec:
  "distinct order \<Longrightarrow>
     snd (scan_loop now order t) = filter (\<lambda>h. overdue now t h \<and> h \<notin> ht_down t) order \<and>
     ht_down (fst (scan_loop now order t)) = ht_down t \<union> {h \<in> set order. overdue now t h}"
proof (induction order arbitrary: t)
  case (Cons h order)
  show ?case
  proof (cases "overdue now t h \<and> h \<notin> ht_down t")
    case True
    then obtain ls where ls: "ht_hosts t h = Some ls" "time_sub now ls \<ge> ht_down_after t" "h \<notin> ht_down t"
      by (auto simp: overdue_def)
    let ?t = "t\<lparr>ht_down := insert h (ht_down t)\<rparr>"
    have IH: "snd (scan_loop now order ?t) = filter (\<lambda>k. overdue now t k \<and> k \<notin> ht_down ?t) order \<and>
        ht_down (fst (scan_loop now order ?t)) = ht_down ?t \<union> {k \<in> set order. overdue now t k}"
      using Cons.IH [of ?t] Cons.prems by simp
    have "filter (\<lambda>k. overdue now t k \<and> k \<notin> ht_down ?t) order
        = filter (\<lambda>k. overdue now t k \<and> k \<notin> ht_down t) order"
      using Cons.prems by (intro filter_cong) auto
    moreover have "scan_loop now (h # order) t =
        (fst (scan_loop now order ?t), h # snd (scan_loop now order ?t))"
      using ls by (simp add: case_prod_unfold Let_def)
    ultimately show ?thesis using IH True by auto
  next
    case False
    then have "scan_loop now (h # order) t = scan_loop now order t"
      by (auto simp: overdue_def split: option.split)
    with Cons False show ?thesis by auto
  qed
qed simp

lemma scan_spec:
  assumes "ranges order (ht_hosts t)"
  shows "ht_down (fst (scan now order t)) = ht_down t \<union> {h. overdue now t h}"
    and "ht_on_down t \<Longrightarrow> snd (scan now order t) = filter (\<lambda>h. overdue now t h \<and> h \<notin> ht_down t) order"
    and "ht_hosts (fst (scan now order t)) = ht_hosts t"
proof -
  have "{h \<in> set order. overdue now t h} = {h. overdue now t h}"
    using assms by (auto simp: ranges_def overdue_def)
  then show "ht_down (fst (scan now order t)) = ht_down t \<union> {h. overdue now t h}"
    using scan_loop_spec [of order now t] assms
    by (simp add: scan_def ranges_def case_prod_unfold Let_def)
  show "ht_on_down t \<Longrightarrow> snd (scan now order t) = filter (\<lambda>h. overdue now t h \<and> h \<notin> ht_down t) order"
    using scan_loop_spec [of order now t] assms
    by (simp add: scan_def ranges_def case_prod_unfold Let_def)
  show "ht_hosts (fst (scan now order t)) = ht_hosts t"
    using scan_loop_hosts [of now order t] by (simp add: scan_def case_prod_unfold Let_def)
qed

text \<open>
  A scan calls \<open>onDown\<close> for exactly the known hosts that have been silent for \<open>downAfter\<close> or
  longer and were not reported before, each once, whatever the iteration order of the map; afterwards
  exactly these and the earlier ones are marked down.
\<close>

lemma scan_reports:
  assumes "ranges order (ht_hosts t)" and "ht_on_down t" and "scan now order t = (t', calls)"
  shows "set calls = {h. overdue now t h} - ht_down t \<and> distinct calls \<and>
    ht_down t' = ht_down t \<union> {h. overdue now t h} \<and> ht_hosts t' = ht_hosts t"
proof -
  have "calls = filter (\<lambda>h. overdue now t h \<and> h \<notin> ht_down t) order"
    using scan_spec(2) [OF assms(1,2), of now] assms(3) by simp
  moreover have "set order = dom (ht_hosts t)" "distinct order" using assms(1) by (auto simp: ranges_def)
  ultimately show ?thesis
    using scan_spec(1,3) [OF assms(1), of now] assms(3) by (auto simp: overdue_def)
qed

section \<open>Runs of the tracker\<close>

datatype tracker_event = Beat gotime string | Scan gotime "string list"

text \<open>What a run shows: \<open>Raise h\<close> for a call \<open>onDown(h)\<close>, \<open>Clear h\<close> for a heartbeat of \<open>h\<close>.\<close>

fun tracker_step :: "host_tracker \<Rightarrow> tracker_event \<Rightarrow> host_tracker \<times> string obs list" where
  "tracker_step t (Beat now h) =
     (the (heartbeat now h (Some t)), if h = [] then [] else [Clear h])"
| "tracker_step t (Scan now order) =
     (let (t', calls) = scan now order t in (t', map Raise calls))"

definition reported :: "host_tracker \<Rightarrow> string set" where
  "reported t = (if ht_on_down t then ht_down t else {})"

lemma replay_scan_loop:
  "replay (ht_down t) (map Raise (snd (scan_loop now order t))) = Some (ht_down (fst (scan_loop now order t)))"
  by (induction now order t rule: scan_loop.induct) (auto simp: case_prod_unfold Let_def split: option.split)

interpretation tracker_alarms: edge_trigger tracker_step reported
proof
  fix t e
  show "replay (reported t) (snd (tracker_step t e)) = Some (reported (fst (tracker_step t e)))"
  proof (cases e)
    case (Beat now h)
    then show ?thesis by (auto simp: reported_def heartbeat_def)
  next
    case (Scan now order)
    then show ?thesis
      using replay_scan_loop [of t now order] scan_loop_hosts [of now order t]
      by (simp add: reported_def scan_def case_prod_unfold Let_def)
  qed
qed



section \<open>Snapshots\<close>

definition snapshot :: "(string \<Rightarrow> gotime) \<Rightarrow> host_tracker \<Rightarrow> string \<Rightarrow> host_status" where
  "snapshot now_at t h =
     \<lparr>hs_host = h, hs_status = classify t (now_at h) (the (ht_hosts t h)),
      hs_last_seen = the (ht_hosts t h)\<rparr>"

lemma all_hosts_eq:
  assumes "ranges order (ht_hosts t)"
  shows "all_hosts now_at order (Some t) =
    map (snapshot now_at t) (sorted_list_of_set (dom (ht_hosts t)))"
proof -
  have "all_hosts now_at order (Some t) = sort_key hs_host (map (snapshot now_at t) order)"
    unfolding all_hosts_def using assms
    by (auto simp: ranges_def snapshot_def dom_def intro!: arg_cong [of _ _ "sort_key hs_host"] map_filter_total)
  also have "\<dots> = map (snapshot now_at t) (sort_key (hs_host \<circ> snapshot now_at t) order)"
    by (rule sort_key_map)
  also have "hs_host \<circ> snapshot now_at t = (\<lambda>h. h)"
    by (simp add: fun_eq_iff snapshot_def)
  finally show ?thesis using assms by (simp add: ranges_def distinct_sort_unique)
qed

text \<open>
  \<open>All\<close> lists every known host exactly once, in strictly increasing order of the names, with its
  classification and last heartbeat; the result does not depend on the iteration order of the map.
\<close>

lemma all_hosts_sorted:
  assumes "ranges order (ht_hosts t)"
  shows "map hs_host (all_hosts now_at order (Some t)) = sorted_list_of_set (dom (ht_hosts t)) \<and>
    (\<forall>s\<in>set (all_hosts now_at order (Some t)). \<exists>ls. ht_hosts t (hs_host s) = Some ls \<and>
       hs_last_seen s = ls \<and> hs_status s = classify t (now_at (hs_host s)) ls) \<and>
    (\<forall>order'. ranges order' (ht_hosts t) \<longrightarrow>
       all_hosts now_at order' (Some t) = all_hosts now_at order (Some t))"
proof (intro conjI ballI allI impI)
  have fin: "finite (dom (ht_hosts t))" using assms by (metis List.finite_set ranges_def)
  show "map hs_host (all_hosts now_at order (Some t)) = sorted_list_of_set (dom (ht_hosts t))"
    by (simp add: all_hosts_eq [OF assms] comp_def snapshot_def)
  fix s assume "s \<in> set (all_hosts now_at order (Some t))"
  then obtain h where "s = snapshot now_at t h" "h \<in> dom (ht_hosts t)"
    using fin by (auto simp: all_hosts_eq [OF assms])
  then show "\<exists>ls. ht_hosts t (hs_host s) = Some ls \<and> hs_last_seen s = ls \<and>
      hs_status s = classify t (now_at (hs_host s)) ls"
    by (auto simp: snapshot_def)
next
  fix order' assume "ranges order' (ht_hosts t)"
  then show "all_hosts now_at order' (Some t) = all_hosts now_at order (Some t)"
    by (simp only: all_hosts_eq assms)
qed

section \<open>Classification\<close>

definition severity :: "string \<Rightarrow> nat" where
  "severity s = (if s = ''down'' then 2 else if s = ''stale'' then 1 else 0)"

text \<open>
  Without a heartbeat a host only gets worse as time passes: \<open>ok\<close>, then \<open>stale\<close>, then \<open>down\<close>,
  even where the 64-bit age saturates.
\<close>

theorem classify_worsens:
  assumes "now \<le> now'"
  shows "severity (classify t now ls) \<le> severity (classify t now' ls)"
  using time_sub_mono [OF assms, of ls] by (auto simp: classify_def severity_def Let_def)

lemma classify_worsens_witness:
  "severity (classify (new_host_tracker 5 10 True) 7 0) \<le> severity (classify (new_host_tracker 5 10 True) 12 0)"
  by (rule classify_worsens) simp

lemma classify_bounds:
  assumes "0 < ht_stale_after t" "ht_stale_after t \<le> ht_down_after t" "ht_down_after t \<le> max_duration"
  shows "classify t now ls =
    (if now - ls < ht_stale_after t then ''ok'' else if now - ls < ht_down_after t then ''stale'' else ''down'')"
  using assms time_sub_ge [of "ht_stale_after t" now ls] time_sub_ge [of "ht_down_after t" now ls]
  by (auto simp: classify_def Let_def min_duration_def not_le not_less)

lemma never_stale: "ht_down_after t \<le> ht_stale_after t \<Longrightarrow> classify t now ls \<noteq> ''stale''"
  by (auto simp: classify_def Let_def)

end
