(* ===== verification/Api.thy ===== *)
theory Api
  imports Log_Store Host_Tracker Webhooks
begin

text \<open>
  The HTTP API, \<open>internal/server/api\<close>: the JWT middleware, the ingest and query handlers, health,
  hosts and alerts.  JWT verification (golang-jwt) and the repositories' pool are parameters.  A response carries its payload before JSON encoding.
\<close>

section \<open>Requests and responses\<close>

record http_request =
  hr_method :: string
  hr_path :: string
  hr_authorization :: string
  hr_query :: "string \<Rightarrow> string" \<comment> \<open>\<open>URL.Query().Get\<close>: empty when absent\<close>
  hr_body :: string

datatype payload =
    NoBody
  | ErrorBody string
  | TextBody string
  | Ingested nat
  | PointsBody string string string string "query_point list"
  | LogsBody "log_row list" "int option"
  | AlertsBody "alert list"
  | HostsBody "host_status list"
  | SeriesBody string string "(string \<times> query_point list) list"
  | PageBody "string list" "host_status list" "alert list" int

record response =
  rs_status :: nat
  rs_content_type :: string
  rs_payload :: payload

definition json_response :: "nat \<Rightarrow> payload \<Rightarrow> response" where
  "json_response st b = \<lparr>rs_status = st, rs_content_type = ''application/json'', rs_payload = b\<rparr>"

definition write_error :: "nat \<Rightarrow> string \<Rightarrow> response" where
  "write_error st msg = json_response st (ErrorBody msg)"

text \<open>The messages of the validations and of the JSON decoder are left to functions of the error and of the body.\<close>

record ('db, 'e) server_env =
  se_now :: gotime
  se_jwt :: "string \<Rightarrow> string \<Rightarrow> gotime \<Rightarrow> bool" \<comment> \<open>secret, token, time: HS256 only\<close>
  se_metrics_syntax :: "string \<Rightarrow> string" \<comment> \<open>text of the decoder's error\<close>
  se_logs_syntax :: "string \<Rightarrow> string"
  se_metric_message :: "metric_batch_error \<Rightarrow> string"
  se_log_message :: "log_batch_error \<Rightarrow> string"
  se_query_message :: "query_error \<Rightarrow> string"
  se_log_query_message :: "log_query_error \<Rightarrow> string"
  se_pool :: "('db, 'e) pool"
  se_host_order :: "string list"
  se_alert_order :: "string list"

section \<open>The middleware\<close>

definition jwt_authorized :: "('db, 'e) server_env \<Rightarrow> string \<Rightarrow> http_request \<Rightarrow> bool" where
  "jwt_authorized env secret r =
     (case drop_prefix ''Bearer '' (hr_authorization r) of
        None \<Rightarrow> False
      | Some token \<Rightarrow> token \<noteq> [] \<and> se_jwt env secret token (se_now env))"

definition jwt_middleware ::
  "('db, 'e) server_env \<Rightarrow> string \<Rightarrow> (http_request \<Rightarrow> 's \<Rightarrow> response \<times> 's) \<Rightarrow> http_request \<Rightarrow> 's \<Rightarrow> response \<times> 's"
where
  "jwt_middleware env secret next_handler r s =
     (if jwt_authorized env secret r then next_handler r s else (write_error 401 ''unauthorized'', s))"

section \<open>Metrics\<close>

text \<open>What the handlers share: the database behind the pool and the tracker.\<close>

record 'db server_state =
  st_db :: 'db
  st_tracker :: "host_tracker option"

definition max_metric_batch :: nat where
  "max_metric_batch = 1000"

definition handle_ingest ::
  "('db, 'e) server_env \<Rightarrow> http_request \<Rightarrow> 'db server_state \<Rightarrow> response \<times> 'db server_state" where
  "handle_ingest env r s =
     (case decode_metric_batch (hr_body r) of
        None \<Rightarrow> (write_error 400 (''invalid JSON: '' @ se_metrics_syntax env (hr_body r)), s)
      | Some batch \<Rightarrow>
        if length (mb_metrics batch) = 0 then (write_error 400 ''metrics must not be empty'', s)
        else case metric_batch_validate batch of
          Some e \<Rightarrow> (write_error 400 (se_metric_message env e), s)
        | None \<Rightarrow>
          if length (mb_metrics batch) > max_metric_batch
          then (write_error 400 ''batch exceeds maximum size of 1000'', s)
          else let ((n, err), db') = insert_metrics (se_pool env) marshal_labels batch (st_db s);
                   s1 = s\<lparr>st_db := db'\<rparr>
               in case err of
                    Some e \<Rightarrow> (write_error 500 ''storage error'', s1)
                  | None \<Rightarrow>
                    (json_response 202 (Ingested n),
                     s1\<lparr>st_tracker := heartbeat (se_now env) (mb_host batch) (st_tracker s1)\<rparr>))"

definition or_else :: "string \<Rightarrow> string \<Rightarrow> string" where
  "or_else s dflt = (if s = [] then dflt else s)"

text \<open>\<open>invalid 'p'\<close> followed by the rest of a message.\<close>

definition invalid_param :: "string \<Rightarrow> string \<Rightarrow> string" where
  "invalid_param p rest = ''invalid '' @ [quote] @ p @ [quote] @ rest"

definition handle_query ::
  "('db, 'e) server_env \<Rightarrow> http_request \<Rightarrow> 'db server_state \<Rightarrow> response \<times> 'db server_state" where
  "handle_query env r s =
     (let q = hr_query r
      in case parse_rfc3339 (q ''from'') of
           None \<Rightarrow> (write_error 400 (invalid_param ''from'' '': must be RFC3339''), s)
         | Some t1 \<Rightarrow>
           (case parse_rfc3339 (q ''to'') of
              None \<Rightarrow> (write_error 400 (invalid_param ''to'' '': must be RFC3339''), s)
            | Some t2 \<Rightarrow>
              let p = \<lparr>q_host = q ''host'', q_name = q ''name'', q_from = t1, q_to = t2,
                       q_bucket = or_else (q ''bucket'') ''1m'', q_agg = or_else (q ''agg'') ''avg''\<rparr>
              in case query_params_validate p of
                   Some e \<Rightarrow> (write_error 400 (se_query_message env e), s)
                 | None \<Rightarrow>
                   (case query_metrics (se_pool env) p (st_db s) of
                      Inl e \<Rightarrow> (write_error 500 ''query error'', s)
                    | Inr points \<Rightarrow>
                      (json_response 200 (PointsBody (q_host p) (q_name p) (q_bucket p) (q_agg p) points), s))))"

section \<open>Logs\<close>

definition handle_ingest_logs ::
  "('db, 'e) server_env \<Rightarrow> http_request \<Rightarrow> 'db server_state \<Rightarrow> response \<times> 'db server_state" where
  "handle_ingest_logs env r s =
     (case decode_log_batch (hr_body r) of
        None \<Rightarrow> (write_error 400 (''invalid JSON: '' @ se_logs_syntax env (hr_body r)), s)
      | Some batch \<Rightarrow>
        (case log_batch_validate batch of
           Some e \<Rightarrow> (write_error 400 (se_log_message env e), s)
         | None \<Rightarrow>
           let ((n, err), db') = insert_logs (se_pool env) batch (st_db s);
               s1 = s\<lparr>st_db := db'\<rparr>
           in case err of
                Some e \<Rightarrow> (write_error 500 ''storage error'', s1)
              | None \<Rightarrow> (json_response 202 (Ingested n), s1)))"

text \<open>The optional parameters: absent keeps the zero value.\<close>

definition optional_param :: "string \<Rightarrow> (string \<Rightarrow> 'a option) \<Rightarrow> 'a \<Rightarrow> 'a option" where
  "optional_param raw parse dflt = (if raw \<noteq> [] then parse raw else Some dflt)"

definition parse_limit :: "string \<Rightarrow> int option" where
  "parse_limit raw = (case parse_int64 raw of None \<Rightarrow> None | Some n \<Rightarrow> if n < 0 then None else Some n)"

definition log_query_of :: "('db, 'e) server_env \<Rightarrow> http_request \<Rightarrow> (string, log_query_params) result" where
  "log_query_of env r =
     (let q = hr_query r
      in case optional_param (q ''from'') parse_rfc3339 zero_time of
           None \<Rightarrow> Inl (invalid_param ''from'' '': must be RFC3339'')
         | Some t1 \<Rightarrow>
           (case optional_param (q ''to'') parse_rfc3339 zero_time of
              None \<Rightarrow> Inl (invalid_param ''to'' '': must be RFC3339'')
            | Some t2 \<Rightarrow>
              (case optional_param (q ''limit'') parse_limit 0 of
                 None \<Rightarrow> Inl (invalid_param ''limit'' '': must be a non-negative integer'')
               | Some n \<Rightarrow>
                 (case optional_param (q ''cursor'') parse_int64 0 of
                    None \<Rightarrow> Inl (invalid_param ''cursor'' [])
                  | Some c \<Rightarrow>
                    Inr \<lparr>lq_host = q ''host'', lq_level = q ''level'', lq_from = t1, lq_to = t2, lq_q = q ''q'',
                         lq_limit = n, lq_cursor = c\<rparr>))))"

text \<open>
  A panic in the handler (\<open>IndexPanic\<close> of the repository) would become a 500 in chi's \<open>Recoverer\<close>;
  it cannot occur here, because the validated limit is positive.
\<close>

definition handle_query_logs ::
  "('db, 'e) server_env \<Rightarrow> http_request \<Rightarrow> 'db server_state \<Rightarrow> response \<times> 'db server_state" where
  "handle_query_logs env r s =
     (case log_query_of env r of
        Inl msg \<Rightarrow> (write_error 400 msg, s)
      | Inr p0 \<Rightarrow>
        (case log_query_params_validate p0 of
           (Some e, p) \<Rightarrow> (write_error 400 (se_log_query_message env e), s)
         | (None, p) \<Rightarrow>
           (case query_log_rows (se_pool env) p (st_db s) of
              Inl e \<Rightarrow> (write_error 500 ''query error'', s)
            | Inr (results, next_cursor) \<Rightarrow>
              (json_response 200 (LogsBody results (if next_cursor > 0 then Some next_cursor else None)), s))))"

section \<open>Health, hosts and alerts\<close>

definition handle_healthz :: "http_request \<Rightarrow> 's \<Rightarrow> response \<times> 's" where
  "handle_healthz r s = (\<lparr>rs_status = 200, rs_content_type = [], rs_payload = TextBody ''ok''\<rparr>, s)"

definition handle_readyz ::
  "('db, 'e) server_env \<Rightarrow> http_request \<Rightarrow> 'db server_state \<Rightarrow> response \<times> 'db server_state" where
  "handle_readyz env r s =
     (case ping_metrics (se_pool env) (st_db s) of
        Some e \<Rightarrow> (write_error 503 ''db unavailable'', s)
      | None \<Rightarrow> (\<lparr>rs_status = 200, rs_content_type = [], rs_payload = TextBody ''ok''\<rparr>, s))"

definition handle_hosts ::
  "('db, 'e) server_env \<Rightarrow> http_request \<Rightarrow> 'db server_state \<Rightarrow> response \<times> 'db server_state" where
  "handle_hosts env r s =
     (json_response 200 (HostsBody (all_hosts (\<lambda>_. se_now env) (se_host_order env) (st_tracker s))), s)"

definition handle_alerts ::
  "('db, 'e) server_env \<Rightarrow> 'n evaluator option \<Rightarrow> http_request \<Rightarrow> 'db server_state \<Rightarrow> response \<times> 'db server_state" where
  "handle_alerts env alerter r s = (json_response 200 (AlertsBody (active_alerts (se_alert_order env) alerter)), s)"

end
