(* ===== verification/Dashboard.thy ===== *)
theory Dashboard
  imports Api
begin

text \<open>
  The dashboard, \<open>internal/server/dashboard/dashboard.go\<close>: the page and its two data endpoints.  The
  HTML template is a parameter.
\<close>

definition canonical_names :: "string list" where
  "canonical_names =
     [''cpu.usage_pct'', ''mem.used_pct'', ''mem.used_bytes'', ''mem.total_bytes'', ''disk.used_pct'',
      ''disk.used_bytes'', ''disk.total_bytes'', ''net.bytes_in'', ''net.bytes_out'']"

definition window_durations :: "(string \<times> duration) list" where
  "window_durations =
     [(''5m'', 5 * minute), (''15m'', 15 * minute), (''30m'', 30 * minute), (''1h'', hour), (''6h'', 6 * hour)]"

text \<open>
  The page: hosts are best effort, so those read before an error of the iteration are shown.  The
  template writes to the response as it runs: \<open>template\<close> gives what it has written and whether it
  failed.  \<open>http.Error\<close> can only change the status and the content type when nothing was written yet;
  later its message ends up in the page.
\<close>

definition template_error :: string where
  "template_error = ''template error'' @ [newline]"

definition handle_dashboard ::
  "('db, 'e) server_env \<Rightarrow> (payload \<Rightarrow> string \<times> bool) \<Rightarrow> 'n evaluator option \<Rightarrow> http_request \<Rightarrow> 'db server_state \<Rightarrow>
     response \<times> 'db server_state" where
  "handle_dashboard env template alerter r s =
     (let (hosts, err) = metric_hosts (se_pool env) (se_now env) (30 * minute) (st_db s);
          alerts = active_alerts (se_alert_order env) alerter;
          statuses = all_hosts (\<lambda>_. se_now env) (se_host_order env) (st_tracker s);
          (text, failed) = template (PageBody hosts statuses alerts 30)
      in (if failed \<and> text = []
          then \<lparr>rs_status = 500, rs_content_type = ''text/plain; charset=utf-8'', rs_payload = TextBody template_error\<rparr>
          else \<lparr>rs_status = 200, rs_content_type = ''text/html; charset=utf-8'',
                rs_payload = TextBody (text @ (if failed then template_error else []))\<rparr>, s))"

definition series_params :: "gotime \<Rightarrow> string \<Rightarrow> duration \<Rightarrow> string \<Rightarrow> query_params" where
  "series_params now host window name =
     \<lparr>q_host = host, q_name = name, q_from = now - window, q_to = now, q_bucket = ''1m'', q_agg = ''avg''\<rparr>"

definition metric_series ::
  "('db, 'e) server_env \<Rightarrow> string \<Rightarrow> duration \<Rightarrow> 'db \<Rightarrow> string \<Rightarrow> string \<times> query_point list" where
  "metric_series env host window db name =
     (name, case query_metrics (se_pool env) (series_params (se_now env) host window name) db of
              Inl e \<Rightarrow> []
            | Inr points \<Rightarrow> points)"

definition handle_dashboard_metrics ::
  "('db, 'e) server_env \<Rightarrow> http_request \<Rightarrow> 'db server_state \<Rightarrow> response \<times> 'db server_state" where
  "handle_dashboard_metrics env r s =
     (let host = hr_query r ''host''; window_str = or_else (hr_query r ''window'') ''30m''
      in if host = [] then (write_error 400 ''host is required'', s)
         else case map_of window_durations window_str of
           None \<Rightarrow> (write_error 400 ''invalid window: must be one of 5m,15m,30m,1h,6h'', s)
         | Some window \<Rightarrow>
           (json_response 200
              (SeriesBody host window_str (map (metric_series env host window (st_db s)) canonical_names)), s))"

definition dashboard_limit :: "string \<Rightarrow> int" where
  "dashboard_limit raw =
     (let n = (if raw \<noteq> []
               then case parse_int64 raw of
                      Some n \<Rightarrow> if n > 0 then n else 50
                    | None \<Rightarrow> 50
               else 50)
      in if n > 200 then 200 else n)"

definition handle_dashboard_logs ::
  "('db, 'e) server_env \<Rightarrow> http_request \<Rightarrow> 'db server_state \<Rightarrow> response \<times> 'db server_state" where
  "handle_dashboard_logs env r s =
     (let host = hr_query r ''host''
      in if host = [] then (write_error 400 ''host is required'', s)
         else let p = \<lparr>lq_host = host, lq_level = [], lq_from = zero_time, lq_to = zero_time, lq_q = [],
                       lq_limit = dashboard_limit (hr_query r ''limit''), lq_cursor = 0\<rparr>;
                  entries = (case query_log_rows (se_pool env) p (st_db s) of
                               Inl e \<Rightarrow> []
                             | Inr (rows, next_cursor) \<Rightarrow> rows)
              in (json_response 200 (LogsBody entries None), s))"

section \<open>Facts\<close>

lemma dashboard_limit_range: "1 \<le> dashboard_limit raw \<and> dashboard_limit raw \<le> 200"
  by (auto simp: dashboard_limit_def Let_def split: option.split)

text \<open>Every series of the dashboard asks for parameters that the query validation accepts.\<close>

lemma series_params_valid:
  assumes "trim_space host \<noteq> []" "map_of window_durations w = Some window" "name \<in> set canonical_names"
  shows "query_params_validate (series_params now host window name) = None"
proof -
  have "0 < window \<and> window \<le> 6 * hour"
    using map_of_SomeD [OF assms(2)] by (auto simp: window_durations_def minute_def hour_def)
  moreover have "name \<in> set storage_metric_names" using assms(3) by (simp add: canonical_names_def storage_metric_names_def)
  moreover from this have "trim_space name \<noteq> []"
    using solid_trim_space_nonempty [of "CHR ''e''" name] solid_trim_space_nonempty [of "CHR ''u''" name]
    by (auto simp: storage_metric_names_def solid_def space_seqs_def)
  ultimately show ?thesis
    using assms(1) time_sub_gt [of "30 * 24 * hour" now "now - window"]
    by (auto simp: query_params_validate_def series_params_def valid_buckets_def valid_aggs_def hour_def
        max_duration_def min_duration_def)
qed

end
