(* ===== verification/Prometheus.thy ===== *)
theory Prometheus
  imports Api
begin

text \<open>
  The Prometheus scrape endpoint, \<open>internal/server/api/prometheus.go\<close>.  \<open>%q\<close> is modelled for the ASCII
  bytes; how \<open>strconv.Quote\<close> renders a rune outside ASCII, and how many bytes after the first it takes,
  is the parameter \<open>wide\<close>.
\<close>

section \<open>Quoting\<close>

definition hex_digit :: "nat \<Rightarrow> char" where
  "hex_digit n = (if n < 10 then char_of (48 + n) else char_of (87 + n))"

definition quote_byte :: "char \<Rightarrow> string" where
  "quote_byte c =
     (if c = CHR 0x5C \<or> c = CHR 0x22 then [CHR 0x5C, c]
      else if CHR 0x20 \<le> c \<and> c < CHR 0x7F then [c]
      else if c = CHR 0x07 then CHR 0x5C # ''a''
      else if c = CHR 0x08 then CHR 0x5C # ''b''
      else if c = CHR 0x0C then CHR 0x5C # ''f''
      else if c = CHR 0x0A then CHR 0x5C # ''n''
      else if c = CHR 0x0D then CHR 0x5C # ''r''
      else if c = CHR 0x09 then CHR 0x5C # ''t''
      else if c = CHR 0x0B then CHR 0x5C # ''v''
      else CHR 0x5C # ''x'' @ [hex_digit (of_char c div 16), hex_digit (of_char c mod 16)])"

function quote_bytes :: "(string \<Rightarrow> string \<times> nat) \<Rightarrow> string \<Rightarrow> string" where
  "quote_bytes wide [] = []"
| "quote_bytes wide (c # s) =
     (if c < CHR 0x80 then quote_byte c @ quote_bytes wide s
      else fst (wide (c # s)) @ quote_bytes wide (drop (snd (wide (c # s))) s))"
  by pat_completeness auto
termination by (relation "measure (\<lambda>(_, s). length s)") auto

definition fmt_q :: "(string \<Rightarrow> string \<times> nat) \<Rightarrow> string \<Rightarrow> string" where
  "fmt_q wide s = [CHR 0x22] @ quote_bytes wide s @ [CHR 0x22]"

section \<open>The endpoint\<close>

text \<open>The names are ASCII, so the loop over runes visits every byte.\<close>

definition prom_metric_name :: "string \<Rightarrow> string" where
  "prom_metric_name name =
     ''miniobserv_'' @ map (\<lambda>c. if c = CHR ''.'' \<or> c = CHR ''-'' then CHR ''_'' else c) name"

definition prom_names :: "string list" where
  "prom_names =
     [''cpu.usage_pct'', ''mem.used_pct'', ''mem.used_bytes'', ''mem.total_bytes'', ''disk.used_pct'',
      ''disk.used_bytes'', ''disk.total_bytes'', ''net.bytes_in'', ''net.bytes_out'']"

text \<open>\<open>t.UnixMilli()\<close>: the zero time is 62135596800 seconds before the epoch.\<close>

definition unix_milli :: "gotime \<Rightarrow> int" where
  "unix_milli t = (t - 62135596800 * second) div millisecond"

definition prom_params :: "gotime \<Rightarrow> string \<Rightarrow> string \<Rightarrow> query_params" where
  "prom_params now name host =
     \<lparr>q_host = host, q_name = name, q_from = now - 2 * minute, q_to = now, q_bucket = ''1m'', q_agg = ''avg''\<rparr>"

text \<open>The latest point per host.\<close>

fun prom_rows ::
  "('db, 'e) server_env \<Rightarrow> 'db \<Rightarrow> string \<Rightarrow> string list \<Rightarrow> (string \<times> query_point) list" where
  "prom_rows env db name [] = []"
| "prom_rows env db name (h # hs) =
     (case query_metrics (se_pool env) (prom_params (se_now env) name h) db of
        Inl e \<Rightarrow> prom_rows env db name hs
      | Inr [] \<Rightarrow> prom_rows env db name hs
      | Inr (p # _) \<Rightarrow> (h, p) # prom_rows env db name hs)"

definition prom_sample :: "(string \<Rightarrow> string \<times> nat) \<Rightarrow> string \<Rightarrow> string \<times> query_point \<Rightarrow> string" where
  "prom_sample wide name row =
     prom_metric_name name @ ''{host='' @ fmt_q wide (fst row) @ ''} '' @ fmt_g (qp_value (snd row)) @ '' '' @
     fmt_d (unix_milli (qp_time (snd row))) @ [newline]"

definition prom_block ::
  "(string \<Rightarrow> string \<times> nat) \<Rightarrow> ('db, 'e) server_env \<Rightarrow> 'db \<Rightarrow> string list \<Rightarrow> string \<Rightarrow> string" where
  "prom_block wide env db hosts name =
     (let rows = prom_rows env db name hosts
      in if length rows = 0 then []
         else ''# HELP '' @ prom_metric_name name @ '' MiniObserv metric: '' @ name @ [newline] @
              ''# TYPE '' @ prom_metric_name name @ '' gauge'' @ [newline] @
              concat (map (prom_sample wide name) rows) @ [newline])"

definition handle_prometheus ::
  "(string \<Rightarrow> string \<times> nat) \<Rightarrow> ('db, 'e) server_env \<Rightarrow> http_request \<Rightarrow> 'db server_state \<Rightarrow>
     response \<times> 'db server_state" where
  "handle_prometheus wide env r s =
     (let (hosts, err) = metric_hosts (se_pool env) (se_now env) (2 * minute) (st_db s);
          text = (if err \<noteq> None \<or> length hosts = 0 then []
                  else concat (map (prom_block wide env (st_db s) hosts) prom_names))
      in (\<lparr>rs_status = 200, rs_content_type = ''text/plain; version=0.0.4; charset=utf-8'',
           rs_payload = TextBody text\<rparr>, s))"

section \<open>Facts\<close>

text \<open>The bytes a Prometheus metric name may have.\<close>

definition prom_char :: "char \<Rightarrow> bool" where
  "prom_char c \<longleftrightarrow> (CHR ''a'' \<le> c \<and> c \<le> CHR ''z'') \<or> c = CHR ''_''"

lemma prom_names_valid: "list_all (\<lambda>name. list_all prom_char (prom_metric_name name)) prom_names"
  by code_simp

lemma hex_digit_clean: "n < 16 \<Longrightarrow> hex_digit n \<noteq> newline"
proof
  assume "n < 16" "hex_digit n = newline"
  then have "of_char (hex_digit n) = (10 :: nat)" by (simp add: newline_def)
  with \<open>n < 16\<close> show False by (auto simp: hex_digit_def split: if_splits)
qed

lemma quote_byte_clean: "newline \<notin> set (quote_byte c)"
proof -
  have "of_char c div 16 < (16 :: nat)"
    using nat_of_char_less_256 [of c] by (intro less_mult_imp_div_less) simp
  then have "newline \<noteq> hex_digit (of_char c div 16)" "newline \<noteq> hex_digit (of_char c mod 16)"
    using hex_digit_clean [of "of_char c div 16"] hex_digit_clean [of "of_char c mod 16"] by auto
  then show ?thesis by (auto simp: quote_byte_def newline_def less_eq_char_def split: if_splits)
qed

lemma fmt_q_clean:
  assumes "\<And>s. newline \<notin> set (fst (wide s))"
  shows "newline \<notin> set (fmt_q wide s)"
proof -
  have "newline \<notin> set (quote_bytes wide s)"
    using assms by (induction wide s rule: quote_bytes.induct) (auto simp: quote_byte_clean)
  then show ?thesis by (simp add: fmt_q_def newline_def)
qed

lemma newline_not_digit: "\<not> is_digit newline"
  by (simp add: is_digit_def newline_def less_eq_char_def)

lemma itoa_clean: "newline \<notin> set (itoa n)"
  using itoa_digits [of n] newline_not_digit by (auto simp: list_all_iff)

lemma fmt_d_clean: "newline \<notin> set (fmt_d n)"
  by (auto simp: fmt_d_def itoa_clean newline_def) (metis itoa_clean newline_def)+

lemma shortest_clean: "newline \<notin> set (fst (shortest x))"
proof
  assume n: "newline \<in> set (fst (shortest x))"
  obtain c n where "shortest_from x (point_pos x) 1 16 = (c, n)" by fastforce
  with n have "newline \<in> set (itoa (nat c))"
    using set_strip_zeros [of "itoa (nat c)"] by (auto simp: shortest_def Let_def)
  then show False using itoa_clean by blast
qed

lemma fmt_g_pos_clean: "newline \<notin> set (fmt_g_pos x)"
proof -
  obtain ds p where s: "shortest x = (ds, p)" by fastforce
  then have "newline \<notin> set ds" using shortest_clean [of x] by simp
  then have "newline \<notin> set (take n ds)" "newline \<notin> set (drop n ds)" for n
    by (auto dest: in_set_takeD in_set_dropD)
  then show ?thesis
    using itoa_clean \<open>newline \<notin> set ds\<close>
    by (auto simp: fmt_g_pos_def s fmt_scientific_def fmt_positional_def zeros_def Let_def newline_def
        split: if_splits)
qed

lemma fmt_g_clean: "newline \<notin> set (fmt_g v)"
proof (cases v)
  case (Fin x)
  then show ?thesis
    using fmt_g_pos_clean [of x] fmt_g_pos_clean [of "- x"] by (auto simp: newline_def)
qed (auto simp: newline_def)

text \<open>
  A sample is one line whatever the host is called and whatever its value: the only newline is the
  last byte, so a host name cannot forge a line of the scrape; and the metric name has only letters
  and underscores.
\<close>

lemma sample_is_one_line:
  assumes "name \<in> set prom_names" and "\<And>s. newline \<notin> set (fst (wide s))"
  shows "\<exists>line. prom_sample wide name row = line @ [newline] \<and> newline \<notin> set line \<and>
    list_all prom_char (prom_metric_name name)"
proof -
  have n: "list_all prom_char (prom_metric_name name)" using prom_names_valid assms(1) by (auto simp: list_all_iff)
  moreover have "\<not> prom_char newline" by (simp add: prom_char_def newline_def less_eq_char_def)
  ultimately have "newline \<notin> set (prom_metric_name name)" by (auto simp: list_all_iff)
  then show ?thesis
    using n fmt_q_clean [OF assms(2)] fmt_g_clean fmt_d_clean
    by (auto simp: prom_sample_def newline_def)
qed


end
