(* ===== verification/Router.thy ===== *)
theory Router
  imports Dashboard Prometheus
begin

text \<open>
  \<open>api.NewRouter\<close> (\<open>internal/server/api/router.go\<close>): the routes, which of them ask for a token, and
  what a request does to the server.  How chi finds the route of a request and what it answers when it
  finds none are parameters; the middlewares \<open>RequestID\<close>, \<open>Recoverer\<close> and \<open>Timeout\<close> do not show in
  them: no handler panics, and a deadline reaches the handlers as an error of the pool.
\<close>

section \<open>chi\<close>

text \<open>\<open>chi_find\<close> picks a route by its position; \<open>chi_miss\<close> answers a request without a route.\<close>

record chi =
  chi_find :: "(string \<times> string) list \<Rightarrow> string \<Rightarrow> string \<Rightarrow> nat option"
  chi_miss :: "(string \<times> string) list \<Rightarrow> string \<Rightarrow> string \<Rightarrow> response"

text \<open>
  What chi documents for patterns without parameters: a request goes to the route with its method and
  its path, byte for byte; otherwise the answer is 405 when the path has a route of another method (or
  the method is none of HTTP's), and 404 when it has none.
\<close>

definition static_pattern :: "string \<Rightarrow> bool" where
  "static_pattern p \<longleftrightarrow> p \<noteq> [] \<and> CHR ''{'' \<notin> set p \<and> CHR ''*'' \<notin> set p"

definition http_methods :: "string list" where
  "http_methods =
     [''CONNECT'', ''DELETE'', ''GET'', ''HEAD'', ''OPTIONS'', ''PATCH'', ''POST'', ''PUT'', ''TRACE'']"

definition static_routing :: "chi \<Rightarrow> bool" where
  "static_routing c \<longleftrightarrow>
     (\<forall>keys m p. list_all (static_pattern \<circ> snd) keys \<longrightarrow> p \<noteq> [] \<longrightarrow> m \<in> set http_methods \<longrightarrow>
        (case chi_find c keys m p of
           Some i \<Rightarrow> i < length keys \<and> keys ! i = (m, p)
         | None \<Rightarrow> (m, p) \<notin> set keys) \<and>
        rs_status (chi_miss c keys m p) = (if p \<in> snd ` set keys then 405 else 404))"

text \<open>A request line that net/http lets through: a method of HTTP and a path.\<close>

definition proper_request :: "http_request \<Rightarrow> bool" where
  "proper_request r \<longleftrightarrow> hr_method r \<in> set http_methods \<and> hr_path r \<noteq> []"

text \<open>An instance: the first route that matches.\<close>

fun find_index :: "('a \<Rightarrow> bool) \<Rightarrow> 'a list \<Rightarrow> nat option" where
  "find_index P [] = None"
| "find_index P (x # xs) = (if P x then Some 0 else map_option Suc (find_index P xs))"

definition plain_chi :: chi where
  "plain_chi =
     \<lparr>chi_find = (\<lambda>keys m p. find_index (\<lambda>k. k = (m, p)) keys),
      chi_miss = (\<lambda>keys m p. \<lparr>rs_status = if p \<in> snd ` set keys then 405 else 404, rs_content_type = [], rs_payload = NoBody\<rparr>)\<rparr>"

lemma find_index_Some: "find_index P xs = Some i \<Longrightarrow> i < length xs \<and> P (xs ! i)"
  by (induction xs arbitrary: i) (auto split: if_splits)

lemma find_index_None: "find_index P xs = None \<longleftrightarrow> (\<forall>x\<in>set xs. \<not> P x)"
  by (induction xs) auto

lemma plain_chi_static: "static_routing plain_chi"
  by (auto simp: static_routing_def plain_chi_def find_index_None dest: find_index_Some split: option.split)

section \<open>The routes\<close>

text \<open>What \<open>NewRouter\<close> is given; \<open>rt_dash = None\<close> is a disabled dashboard.\<close>

record ('db, 'e, 'n) router =
  rt_env :: "('db, 'e) server_env"
  rt_secret :: string
  rt_dash :: "(payload \<Rightarrow> string \<times> bool) option"
  rt_alerter :: "'n evaluator option"
  rt_wide :: "string \<Rightarrow> string \<times> nat"
  rt_chi :: chi

type_synonym 's handler = "http_request \<Rightarrow> 's \<Rightarrow> response \<times> 's"

type_synonym 's route = "(string \<times> string) \<times> 's handler"

definition dash_routes :: "('db, 'e, 'n) router \<Rightarrow> 'db server_state route list" where
  "dash_routes rt =
     (case rt_dash rt of
        None \<Rightarrow> []
      | Some template \<Rightarrow>
        [((''GET'', ''/''), handle_dashboard (rt_env rt) template (rt_alerter rt)),
         ((''GET'', ''/api/v1/dashboard/metrics''), handle_dashboard_metrics (rt_env rt)),
         ((''GET'', ''/api/v1/dashboard/logs''), handle_dashboard_logs (rt_env rt))])"

definition public_routes :: "('db, 'e, 'n) router \<Rightarrow> 'db server_state route list" where
  "public_routes rt =
     [((''GET'', ''/healthz''), handle_healthz), ((''GET'', ''/readyz''), handle_readyz (rt_env rt))] @
     dash_routes rt @
     [((''GET'', ''/metrics''), handle_prometheus (rt_wide rt) (rt_env rt)),
      ((''GET'', ''/api/v1/alerts''), handle_alerts (rt_env rt) (rt_alerter rt)),
      ((''GET'', ''/api/v1/hosts''), handle_hosts (rt_env rt))]"

definition protected_routes :: "('db, 'e, 'n) router \<Rightarrow> 'db server_state route list" where
  "protected_routes rt =
     map (map_prod id (jwt_middleware (rt_env rt) (rt_secret rt)))
       [((''POST'', ''/api/v1/metrics''), handle_ingest (rt_env rt)),
        ((''GET'', ''/api/v1/metrics/query''), handle_query (rt_env rt)),
        ((''POST'', ''/api/v1/logs''), handle_ingest_logs (rt_env rt)),
        ((''GET'', ''/api/v1/logs/query''), handle_query_logs (rt_env rt))]"

definition routes :: "('db, 'e, 'n) router \<Rightarrow> 'db server_state route list" where
  "routes rt = public_routes rt @ protected_routes rt"

text \<open>One request to the server.\<close>

definition serve :: "('db, 'e, 'n) router \<Rightarrow> 'db server_state handler" where
  "serve rt r s =
     (let keys = map fst (routes rt)
      in case chi_find (rt_chi rt) keys (hr_method r) (hr_path r) of
           Some i \<Rightarrow> snd (routes rt ! i) r s
         | None \<Rightarrow> (chi_miss (rt_chi rt) keys (hr_method r) (hr_path r), s))"

section \<open>Reading the table\<close>

lemmas route_tables = routes_def public_routes_def protected_routes_def dash_routes_def

definition dash_keys :: "(string \<times> string) list" where
  "dash_keys = [(''GET'', ''/''), (''GET'', ''/api/v1/dashboard/metrics''), (''GET'', ''/api/v1/dashboard/logs'')]"

definition route_keys :: "bool \<Rightarrow> (string \<times> string) list" where
  "route_keys dash =
     [(''GET'', ''/healthz''), (''GET'', ''/readyz'')] @ (if dash then dash_keys else []) @
     [(''GET'', ''/metrics''), (''GET'', ''/api/v1/alerts''), (''GET'', ''/api/v1/hosts''),
      (''POST'', ''/api/v1/metrics''), (''GET'', ''/api/v1/metrics/query''), (''POST'', ''/api/v1/logs''),
      (''GET'', ''/api/v1/logs/query'')]"

lemma routes_keys: "map fst (routes rt) = route_keys (rt_dash rt \<noteq> None)"
  by (simp add: route_tables route_keys_def dash_keys_def split: option.split)

lemma route_keys_static: "list_all (static_pattern \<circ> snd) (route_keys dash)"
  by (cases dash) (simp_all add: route_keys_def dash_keys_def static_pattern_def)

lemma route_keys_distinct: "distinct (route_keys dash)"
  by (cases dash) (simp_all add: route_keys_def dash_keys_def)

lemma static_find:
  assumes "static_routing c" "proper_request r"
  shows "chi_find c (route_keys dash) (hr_method r) (hr_path r) = Some i \<Longrightarrow>
      i < length (route_keys dash) \<and> route_keys dash ! i = (hr_method r, hr_path r)"
    and "chi_find c (route_keys dash) (hr_method r) (hr_path r) = None \<longleftrightarrow>
      (hr_method r, hr_path r) \<notin> set (route_keys dash)"
    and "rs_status (chi_miss c (route_keys dash) (hr_method r) (hr_path r)) =
      (if hr_path r \<in> snd ` set (route_keys dash) then 405 else 404)"
proof -
  have *: "(case chi_find c (route_keys dash) (hr_method r) (hr_path r) of
           Some i \<Rightarrow> i < length (route_keys dash) \<and> route_keys dash ! i = (hr_method r, hr_path r)
         | None \<Rightarrow> (hr_method r, hr_path r) \<notin> set (route_keys dash)) \<and>
      rs_status (chi_miss c (route_keys dash) (hr_method r) (hr_path r)) =
      (if hr_path r \<in> snd ` set (route_keys dash) then 405 else 404)"
    using assms route_keys_static unfolding static_routing_def proper_request_def by blast
  show "chi_find c (route_keys dash) (hr_method r) (hr_path r) = Some i \<Longrightarrow>
      i < length (route_keys dash) \<and> route_keys dash ! i = (hr_method r, hr_path r)"
    using * by simp
  show "chi_find c (route_keys dash) (hr_method r) (hr_path r) = None \<longleftrightarrow>
      (hr_method r, hr_path r) \<notin> set (route_keys dash)"
    using * by (cases "chi_find c (route_keys dash) (hr_method r) (hr_path r)") (simp_all, metis nth_mem)
  show "rs_status (chi_miss c (route_keys dash) (hr_method r) (hr_path r)) =
      (if hr_path r \<in> snd ` set (route_keys dash) then 405 else 404)"
    using * by blast
qed

lemma serve_route:
  assumes "static_routing (rt_chi rt)" "proper_request r" "((hr_method r, hr_path r), h) \<in> set (routes rt)"
  shows "serve rt r s = h r s"
proof -
  let ?keys = "route_keys (rt_dash rt \<noteq> None)"
  have "(hr_method r, hr_path r) \<in> set ?keys" using assms(3) unfolding routes_keys [symmetric] by force
  then obtain i where i: "chi_find (rt_chi rt) ?keys (hr_method r) (hr_path r) = Some i"
    "i < length ?keys" "?keys ! i = (hr_method r, hr_path r)"
    using static_find(1,2) [OF assms(1,2)] by (metis option.exhaust)
  obtain j where j: "j < length (routes rt)" "routes rt ! j = ((hr_method r, hr_path r), h)"
    using assms(3) by (auto simp: in_set_conv_nth)
  have l: "length ?keys = length (routes rt)" "\<And>k. k < length (routes rt) \<Longrightarrow> ?keys ! k = fst (routes rt ! k)"
    by (simp_all only: routes_keys [symmetric] length_map nth_map)
  with i(2,3) j route_keys_distinct have "i = j" by (metis fst_conv nth_eq_iff_index_eq)
  with i(1) j(2) show ?thesis by (simp add: serve_def Let_def routes_keys)
qed

lemma serve_miss:
  assumes "static_routing (rt_chi rt)" "proper_request r"
    "(hr_method r, hr_path r) \<notin> set (route_keys (rt_dash rt \<noteq> None))"
  shows "\<exists>resp. serve rt r s = (resp, s) \<and> rs_status resp \<in> {404, 405} \<and>
    (hr_path r \<notin> snd ` set (route_keys (rt_dash rt \<noteq> None)) \<longrightarrow> rs_status resp = 404)"
proof -
  let ?keys = "route_keys (rt_dash rt \<noteq> None)"
  have "chi_find (rt_chi rt) ?keys (hr_method r) (hr_path r) = None"
    using static_find(2) [OF assms(1,2)] assms(3) by blast
  then show ?thesis using static_find(3) [OF assms(1,2)] unfolding serve_def Let_def routes_keys by force
qed

text \<open>The end a request can come to: a route of the table, or none.\<close>

lemma serve_cases:
  assumes "static_routing (rt_chi rt)" "proper_request r"
  obtains h where "((hr_method r, hr_path r), h) \<in> set (routes rt)" "serve rt r s = h r s"
  | resp where "serve rt r s = (resp, s)" "rs_status resp \<in> {404, 405}"
      "(hr_method r, hr_path r) \<notin> set (route_keys (rt_dash rt \<noteq> None))"
proof (cases "(hr_method r, hr_path r) \<in> set (route_keys (rt_dash rt \<noteq> None))")
  case True
  then obtain h where "((hr_method r, hr_path r), h) \<in> set (routes rt)" unfolding routes_keys [symmetric] by force
  with serve_route [OF assms this] that(1) show thesis by blast
next
  case False
  with serve_miss [OF assms False, where s = s] that(2) show thesis by blast
qed

section \<open>Handlers that only read\<close>

lemma api_reads [reads]:
  "snd (handle_healthz r s) = s"
  "snd (handle_readyz env r s') = s'"
  "snd (handle_hosts env r s') = s'"
  "snd (handle_alerts env alerter r s') = s'"
  "snd (handle_query env r s') = s'"
  "snd (handle_query_logs env r s') = s'"
  by (simp_all add: handle_healthz_def handle_readyz_def handle_hosts_def handle_alerts_def handle_query_def
      handle_query_logs_def Let_def split: option.split sum.split prod.split)

lemma dashboard_reads [reads]:
  "snd (handle_dashboard env template alerter r s) = s"
  "snd (handle_dashboard_metrics env r s) = s"
  "snd (handle_dashboard_logs env r s) = s"
  "snd (handle_prometheus wide env r s) = s"
  by (simp_all add: handle_dashboard_def handle_dashboard_metrics_def handle_dashboard_logs_def handle_prometheus_def
      Let_def case_prod_unfold split: option.split)

lemma jwt_middleware_reads [reads]: "snd (h r s) = s \<Longrightarrow> snd (jwt_middleware env secret h r s) = s"
  by (simp add: jwt_middleware_def)

definition protected_keys :: "(string \<times> string) list" where
  "protected_keys =
     [(''POST'', ''/api/v1/metrics''), (''GET'', ''/api/v1/metrics/query''), (''POST'', ''/api/v1/logs''),
      (''GET'', ''/api/v1/logs/query'')]"

lemma protected_route:
  "(k, h) \<in> set (routes rt) \<Longrightarrow> k \<in> set protected_keys \<Longrightarrow>
     \<exists>h'. h = jwt_middleware (rt_env rt) (rt_secret rt) h'"
  by (auto simp: route_tables protected_keys_def split: option.splits)

lemma public_reads: "(k, h) \<in> set (public_routes rt) \<Longrightarrow> snd (h r s) = s"
  by (cases "rt_dash rt") (auto simp: public_routes_def dash_routes_def reads)

lemma protected_cases:
  assumes "(k, h) \<in> set (protected_routes rt)"
  shows "k \<in> {(''POST'', ''/api/v1/metrics''), (''POST'', ''/api/v1/logs'')} \<or> snd (h r s) = s"
proof -
  have "k = (''POST'', ''/api/v1/metrics'') \<or> k = (''POST'', ''/api/v1/logs'') \<or>
      h = jwt_middleware (rt_env rt) (rt_secret rt) (handle_query (rt_env rt)) \<or>
      h = jwt_middleware (rt_env rt) (rt_secret rt) (handle_query_logs (rt_env rt))"
    using assms unfolding protected_routes_def list.map list.set map_prod_simp id_apply by blast
  then show ?thesis by (auto simp: reads)
qed

lemma reading_route:
  "(k, h) \<in> set (routes rt) \<Longrightarrow>
     k \<in> {(''POST'', ''/api/v1/metrics''), (''POST'', ''/api/v1/logs'')} \<or> snd (h r s) = s"
  using public_reads protected_cases unfolding routes_def set_append by blast

lemma protected_subset: "set protected_keys \<subseteq> set (route_keys dash)"
  unfolding protected_keys_def route_keys_def list.set set_append by blast

text \<open>
  C2. Without a valid token nothing behind the token is reached and nothing changes: each of the four
  protected routes answers 401 and leaves the database and the tracker alone, and a request that
  changes anything at all is a POST of metrics or logs with a valid token.
\<close>

theorem protected_routes_guarded:
  assumes "static_routing (rt_chi rt)" "proper_request r"
  shows "((hr_method r, hr_path r) \<in> set protected_keys \<and> \<not> jwt_authorized (rt_env rt) (rt_secret rt) r \<longrightarrow>
      serve rt r s = (write_error 401 ''unauthorized'', s)) \<and>
    (snd (serve rt r s) \<noteq> s \<longrightarrow>
      hr_method r = ''POST'' \<and> hr_path r \<in> {''/api/v1/metrics'', ''/api/v1/logs''} \<and>
      jwt_authorized (rt_env rt) (rt_secret rt) r)"
  using assms
proof (rule serve_cases [where s = s])
  fix h
  assume h: "((hr_method r, hr_path r), h) \<in> set (routes rt)" and v: "serve rt r s = h r s"
  have guarded: "h r s = (write_error 401 ''unauthorized'', s)"
    if "(hr_method r, hr_path r) \<in> set protected_keys" "\<not> jwt_authorized (rt_env rt) (rt_secret rt) r"
    using protected_route [OF h that(1)] that(2) by (auto simp: jwt_middleware_def)
  have "hr_method r = ''POST'' \<and> hr_path r \<in> {''/api/v1/metrics'', ''/api/v1/logs''} \<and>
      jwt_authorized (rt_env rt) (rt_secret rt) r" if changed: "snd (h r s) \<noteq> s"
  proof -
    have "(hr_method r, hr_path r) = (''POST'', ''/api/v1/metrics'') \<or>
        (hr_method r, hr_path r) = (''POST'', ''/api/v1/logs'')"
      using reading_route [OF h, where r = r and s = s] changed by blast
    moreover from this have "(hr_method r, hr_path r) \<in> set protected_keys"
      unfolding protected_keys_def list.set by blast
    then have "jwt_authorized (rt_env rt) (rt_secret rt) r" using guarded changed by (metis snd_conv)
    ultimately show ?thesis by blast
  qed
  with guarded show ?thesis unfolding v by blast
next
  fix resp
  assume "serve rt r s = (resp, s)" "(hr_method r, hr_path r) \<notin> set (route_keys (rt_dash rt \<noteq> None))"
  then show ?thesis using protected_subset by (metis snd_conv subsetD)
qed

lemma serve_ingest:
  assumes "static_routing (rt_chi rt)" "hr_method r = ''POST''" "hr_path r = ''/api/v1/metrics''"
    "jwt_authorized (rt_env rt) (rt_secret rt) r"
  shows "serve rt r s = handle_ingest (rt_env rt) r s"
proof -
  have "((hr_method r, hr_path r), jwt_middleware (rt_env rt) (rt_secret rt) (handle_ingest (rt_env rt))) \<in> set (routes rt)"
    using assms(2,3) by (simp add: routes_def protected_routes_def)
  moreover have "proper_request r" using assms(2,3) by (simp add: proper_request_def http_methods_def)
  ultimately show ?thesis using serve_route [OF assms(1)] assms(4) by (simp add: jwt_middleware_def)
qed

lemma serve_ingest_logs:
  assumes "static_routing (rt_chi rt)" "hr_method r = ''POST''" "hr_path r = ''/api/v1/logs''"
    "jwt_authorized (rt_env rt) (rt_secret rt) r"
  shows "serve rt r s = handle_ingest_logs (rt_env rt) r s"
proof -
  have "((hr_method r, hr_path r), jwt_middleware (rt_env rt) (rt_secret rt) (handle_ingest_logs (rt_env rt))) \<in> set (routes rt)"
    using assms(2,3) by (simp add: routes_def protected_routes_def)
  moreover have "proper_request r" using assms(2,3) by (simp add: proper_request_def http_methods_def)
  ultimately show ?thesis using serve_route [OF assms(1)] assms(4) by (simp add: jwt_middleware_def)
qed

lemma serve_unauthorized:
  assumes "static_routing (rt_chi rt)" "(hr_method r, hr_path r) \<in> set protected_keys"
    "\<not> jwt_authorized (rt_env rt) (rt_secret rt) r"
  shows "serve rt r s = (write_error 401 ''unauthorized'', s)"
proof -
  have "(hr_method r, hr_path r) \<in> fst ` set (routes rt)"
    using assms(2) protected_subset routes_keys [of rt] by (metis list.set_map subsetD)
  then obtain h where h: "((hr_method r, hr_path r), h) \<in> set (routes rt)" by auto
  moreover have "proper_request r" using assms(2) by (auto simp: protected_keys_def proper_request_def http_methods_def)
  ultimately have "serve rt r s = h r s" using serve_route [OF assms(1)] by blast
  with protected_route [OF h assms(2)] assms(3) show ?thesis by (auto simp: jwt_middleware_def)
qed

lemma serve_unknown_path:
  assumes "static_routing (rt_chi rt)" "proper_request r" "hr_path r \<notin> snd ` set (route_keys (rt_dash rt \<noteq> None))"
  shows "rs_status (fst (serve rt r s)) = 404 \<and> snd (serve rt r s) = s"
proof -
  have "(hr_method r, hr_path r) \<notin> set (route_keys (rt_dash rt \<noteq> None))" using assms(3) by force
  from serve_miss [OF assms(1,2) this, where s = s] assms(3) show ?thesis by auto
qed

section \<open>Ingesting metrics\<close>

text \<open>The body is a batch of 1 to 1000 well-formed metrics, and the database takes every row.\<close>

definition metrics_accepted ::
  "('db, 'e) server_env \<Rightarrow> string \<Rightarrow> 'db \<Rightarrow> metric_batch \<Rightarrow> 'db \<Rightarrow> bool" where
  "metrics_accepted env body db batch db' \<longleftrightarrow>
     decode_metric_batch body = Some batch \<and> mb_metrics batch \<noteq> [] \<and> length (mb_metrics batch) \<le> 1000 \<and>
     metric_batch_validate batch = None \<and>
     insert_metrics (se_pool env) marshal_labels batch db = ((length (mb_metrics batch), None), db')"

lemma insert_metrics_full:
  assumes "insert_metrics pool marshal batch db = ((n, None), db')"
  shows "n = length (mb_metrics batch)"
proof -
  obtain b where b: "queue_metrics marshal (mb_metrics batch) = Inr b"
    using assms by (auto simp: insert_metrics_def split: sum.splits)
  with assms have "exec_batch (fst (send_batch pool b db)) (length b) = (n, None)"
    by (auto simp: insert_metrics_def case_prod_unfold Let_def)
  with queue_metrics_length [OF b] show ?thesis by (simp add: exec_batch_ok)
qed

lemma handle_ingest_accepts:
  assumes "metrics_accepted env (hr_body r) (st_db s) batch db'"
  shows "handle_ingest env r s = (json_response 202 (Ingested (length (mb_metrics batch))),
     s\<lparr>st_db := db', st_tracker := heartbeat (se_now env) (mb_host batch) (st_tracker s)\<rparr>)"
  using assms by (simp add: metrics_accepted_def handle_ingest_def max_metric_batch_def)

lemma handle_ingest_rejects:
  assumes "\<nexists>batch db'. metrics_accepted env (hr_body r) (st_db s) batch db'"
  shows "rs_status (fst (handle_ingest env r s)) \<in> {400, 500} \<and>
    st_tracker (snd (handle_ingest env r s)) = st_tracker s"
  using assms insert_metrics_full [of "se_pool env" marshal_labels _ "st_db s"]
  by (auto simp: metrics_accepted_def handle_ingest_def max_metric_batch_def write_error_def json_response_def Let_def
      split: sum.split option.split prod.split)


section \<open>Witnesses\<close>

text \<open>
  A server over a database that counts its rows, where the only valid token is \<open>good\<close>.
\<close>

definition demo_metrics :: metric_batch where
  "demo_metrics = \<lparr>mb_host = ''h'', mb_metrics =
     [\<lparr>m_time = 5, m_host = ''h'', m_name = ''cpu.usage_pct'', m_value = Fin 1, m_labels = []\<rparr>]\<rparr>"

definition counting_pool :: "(nat, string) pool" where
  "counting_pool =
     \<lparr>send_batch = (\<lambda>b db. (\<lambda>i. None, db + length b)), query_points = (\<lambda>q db. Inl []), query_hosts = (\<lambda>q db. Inl []),
      query_logs = (\<lambda>q db. Inl []), exec_sql = (\<lambda>q db. None)\<rparr>"

definition demo_server_env :: "(nat, string) server_env" where
  "demo_server_env =
     \<lparr>se_now = hour, se_jwt = (\<lambda>secret token now. token = ''good''),
      se_metrics_syntax = (\<lambda>_. ''EOF''), se_logs_syntax = (\<lambda>_. ''EOF''), se_metric_message = (\<lambda>_. []), se_log_message = (\<lambda>_. []),
      se_query_message = (\<lambda>_. []), se_log_query_message = (\<lambda>_. []),
      se_pool = counting_pool, se_host_order = [], se_alert_order = []\<rparr>"

definition demo_router :: "(nat, string, unit) router" where
  "demo_router =
     \<lparr>rt_env = demo_server_env, rt_secret = ''0123456789abcdef'', rt_dash = None, rt_alerter = None,
      rt_wide = (\<lambda>_. ([], 0)), rt_chi = plain_chi\<rparr>"

definition demo_post :: "string \<Rightarrow> string \<Rightarrow> http_request" where
  "demo_post auth body =
     \<lparr>hr_method = ''POST'', hr_path = ''/api/v1/metrics'', hr_authorization = auth, hr_query = (\<lambda>_. []), hr_body = body\<rparr>"

lemma demo_router_static [simp]: "static_routing (rt_chi demo_router)"
  by (simp add: demo_router_def plain_chi_static)

lemma demo_post_proper: "proper_request (demo_post auth body)"
  by (simp add: demo_post_def proper_request_def http_methods_def)

lemma protected_routes_guarded_witness:
  "serve demo_router (demo_post ''Bearer bad'' ''one'') \<lparr>st_db = 7, st_tracker = None\<rparr> =
     (write_error 401 ''unauthorized'', \<lparr>st_db = 7, st_tracker = None\<rparr>)"
  using protected_routes_guarded [OF demo_router_static demo_post_proper, of "''Bearer bad''" "''one''"
      "\<lparr>st_db = 7, st_tracker = None\<rparr>"]
  by (simp add: demo_post_def protected_keys_def jwt_authorized_def demo_router_def demo_server_env_def)

lemma demo_metrics_valid: "metric_batch_validate demo_metrics = None"
proof -
  have "trim_space ''h'' \<noteq> []" by code_simp
  then show ?thesis
    by (simp add: metric_batch_validate_None demo_metrics_def metric_ok_def valid_metric_names_def zero_time_def
        is_finite_def)
qed

lemma demo_body: "decode_metric_batch (projr (marshal_metric_batch demo_metrics)) = Some demo_metrics"
proof -
  have "four_digit_year 5" by (simp add: four_digit_year_def hour_def)
  then obtain body where b: "marshal_metric_batch demo_metrics = Inr body"
    using marshal_metric_batch_total [of demo_metrics] demo_metrics_valid
    by (auto simp: metric_batch_validate_None) (auto simp: demo_metrics_def)
  have "wire_metric_batch demo_metrics = demo_metrics"
    by (simp add: wire_metric_batch_def wire_metric_def demo_metrics_def valid_constants valid_metric_names_def)
      code_simp
  moreover have "\<forall>m\<in>set (mb_metrics demo_metrics). is_f64 (m_value m)"
    using is_f64_consts(4) by (simp add: demo_metrics_def one_f64_def)
  ultimately show ?thesis using marshal_metric_batch_reads [OF _ b] b by simp
qed

lemma demo_accepted: "metrics_accepted demo_server_env (projr (marshal_metric_batch demo_metrics)) n demo_metrics (n + 1)"
  using demo_metrics_valid demo_body
  by (simp add: metrics_accepted_def demo_server_env_def counting_pool_def insert_metrics_def exec_batch_def
      demo_metrics_def Let_def)


end
