(* ===== verification/Collectors.thy ===== *)
theory Collectors
  imports Model_Json "HOL-Library.Word"
begin

text \<open>
  The collectors of the agent, \<open>internal/agent/collector\<close>: the registry, and the CPU, memory, disk and
  network collectors.  What gopsutil reports in one tick is the record \<open>readings\<close>; the clock is read by
  every collector, so it is a function of the collector's name; iteration over the map of interfaces
  takes its order from the readings as well.  Byte counters are 64-bit words.
\<close>

section \<open>Readings\<close>

record mem_stat =
  ms_used_percent :: f64
  ms_used :: "64 word"
  ms_total :: "64 word"

record usage_stat =
  us_total :: "64 word"
  us_used :: "64 word"
  us_used_percent :: f64

record io_stat =
  io_name :: string
  io_recv :: "64 word"
  io_sent :: "64 word"

record 'e readings =
  rd_now :: "string \<Rightarrow> gotime"
  rd_cpu :: "bool \<Rightarrow> ('e, f64 list) result"
  rd_mem :: "('e, mem_stat) result"
  rd_parts :: "('e, string list) result"
  rd_usage :: "string \<Rightarrow> ('e, usage_stat) result"
  rd_io :: "('e, io_stat list) result"
  rd_order :: "string list"

datatype 'e collect_error =
    CpuAggregate 'e
  | CpuEmpty
  | CpuPerCore 'e
  | MemoryFailed 'e
  | DiskPartitions 'e
  | NetworkIO 'e

text \<open>A Go result \<open>([]Metric, error)\<close>: both parts are returned.\<close>

type_synonym 'e collected = "metric list \<times> 'e collect_error err"

definition f64_of_uint64 :: "64 word \<Rightarrow> f64" where
  "f64_of_uint64 w = f64_of_int (uint w)"

section \<open>CPU\<close>

definition cpu_metric :: "gotime \<Rightarrow> string \<Rightarrow> f64 \<Rightarrow> string \<Rightarrow> metric" where
  "cpu_metric now host v core =
     \<lparr>m_time = now, m_host = host, m_name = ''cpu.usage_pct'', m_value = v, m_labels = [(''core'', core)]\<rparr>"

definition collect_cpu :: "string \<Rightarrow> 'e readings \<Rightarrow> 'e collected" where
  "collect_cpu host rd =
     (let now = rd_now rd ''cpu''
      in case rd_cpu rd False of
           Inl e \<Rightarrow> ([], Some (CpuAggregate e))
         | Inr [] \<Rightarrow> ([], Some CpuEmpty)
         | Inr (agg # _) \<Rightarrow>
           (case rd_cpu rd True of
              Inl e \<Rightarrow> ([], Some (CpuPerCore e))
            | Inr per_core \<Rightarrow>
              (cpu_metric now host agg ''total'' #
               map (\<lambda>(i, v). cpu_metric now host v (itoa i)) (enumerate 0 per_core), None)))"

section \<open>Memory\<close>

definition plain_metric :: "gotime \<Rightarrow> string \<Rightarrow> string \<Rightarrow> f64 \<Rightarrow> (string \<times> string) list \<Rightarrow> metric" where
  "plain_metric now host name v labels =
     \<lparr>m_time = now, m_host = host, m_name = name, m_value = v, m_labels = labels\<rparr>"

definition collect_memory :: "string \<Rightarrow> 'e readings \<Rightarrow> 'e collected" where
  "collect_memory host rd =
     (let now = rd_now rd ''memory''
      in case rd_mem rd of
           Inl e \<Rightarrow> ([], Some (MemoryFailed e))
         | Inr st \<Rightarrow>
           ([plain_metric now host ''mem.used_pct'' (ms_used_percent st) [],
             plain_metric now host ''mem.used_bytes'' (f64_of_uint64 (ms_used st)) [],
             plain_metric now host ''mem.total_bytes'' (f64_of_uint64 (ms_total st)) []], None))"

section \<open>Disk\<close>

definition disk_metrics :: "gotime \<Rightarrow> string \<Rightarrow> 'e readings \<Rightarrow> string \<Rightarrow> metric list" where
  "disk_metrics now host rd path =
     (case rd_usage rd path of
        Inl e \<Rightarrow> []
      | Inr u \<Rightarrow>
        if us_total u = 0 then []
        else let labels = [(''mount'', path)]
             in [plain_metric now host ''disk.used_pct'' (us_used_percent u) labels,
                 plain_metric now host ''disk.used_bytes'' (f64_of_uint64 (us_used u)) labels,
                 plain_metric now host ''disk.total_bytes'' (f64_of_uint64 (us_total u)) labels])"

definition collect_disk :: "string \<Rightarrow> string list \<Rightarrow> 'e readings \<Rightarrow> 'e collected" where
  "collect_disk host mounts rd =
     (let now = rd_now rd ''disk''
      in case (if length mounts > 0 then Inr mounts else rd_parts rd) of
           Inl e \<Rightarrow> ([], Some (DiskPartitions e))
         | Inr paths \<Rightarrow> (concat (map (disk_metrics now host rd) paths), None))"

section \<open>Network\<close>

text \<open>The collector's state: the last snapshot, \<open>None\<close> before the first call, and its time.\<close>

record net_state =
  ns_prev :: "(string \<rightharpoonup> io_stat) option"
  ns_prev_at :: gotime

definition new_net_state :: net_state where
  "new_net_state = \<lparr>ns_prev = None, ns_prev_at = zero_time\<rparr>"

definition contains_iface :: "string list \<Rightarrow> string \<Rightarrow> bool" where
  "contains_iface ifaces name = list_ex (\<lambda>i. i = name) ifaces"

fun net_snapshot :: "string list \<Rightarrow> io_stat list \<Rightarrow> (string \<rightharpoonup> io_stat) \<Rightarrow> string \<rightharpoonup> io_stat" where
  "net_snapshot ifaces [] cur = cur"
| "net_snapshot ifaces (s # ss) cur =
     (if io_name s = ''lo'' then net_snapshot ifaces ss cur
      else if length ifaces > 0 \<and> \<not> contains_iface ifaces (io_name s) then net_snapshot ifaces ss cur
      else net_snapshot ifaces ss (cur(io_name s \<mapsto> s)))"

text \<open>\<open>int64(cs) - int64(ps)\<close>, clamped: the conversion and the subtraction wrap around.\<close>

definition byte_delta :: "64 word \<Rightarrow> 64 word \<Rightarrow> int" where
  "byte_delta c p = (let d = sint (c - p) in if d < 0 then 0 else d)"

definition net_metrics ::
  "gotime \<Rightarrow> string \<Rightarrow> (string \<rightharpoonup> io_stat) \<Rightarrow> (string \<rightharpoonup> io_stat) \<Rightarrow> string \<Rightarrow> metric list" where
  "net_metrics now host prev cur name =
     (case cur name of
        None \<Rightarrow> []
      | Some cs \<Rightarrow>
        (case prev name of
           None \<Rightarrow> []
         | Some ps \<Rightarrow>
           let labels = [(''iface'', name)]
           in [plain_metric now host ''net.bytes_in'' (f64_of_int (byte_delta (io_recv cs) (io_recv ps))) labels,
               plain_metric now host ''net.bytes_out'' (f64_of_int (byte_delta (io_sent cs) (io_sent ps))) labels]))"

definition collect_network ::
  "string \<Rightarrow> string list \<Rightarrow> 'e readings \<Rightarrow> net_state \<Rightarrow> 'e collected \<times> net_state" where
  "collect_network host ifaces rd ns =
     (let now = rd_now rd ''network''
      in case rd_io rd of
           Inl e \<Rightarrow> (([], Some (NetworkIO e)), ns)
         | Inr stats \<Rightarrow>
           let cur = net_snapshot ifaces stats Map.empty;
               ns' = \<lparr>ns_prev = Some cur, ns_prev_at = now\<rparr>
           in case ns_prev ns of
                None \<Rightarrow> (([], None), ns')
              | Some prev \<Rightarrow> ((concat (map (net_metrics now host prev cur) (rd_order rd)), None), ns'))"

section \<open>The registry\<close>

record ('i, 's, 'e) named_collector =
  cl_name :: string
  cl_collect :: "'i \<Rightarrow> 's \<Rightarrow> 'e collected \<times> 's"

definition add_collector ::
  "('i, 's, 'e) named_collector list \<Rightarrow> ('i, 's, 'e) named_collector \<Rightarrow> ('i, 's, 'e) named_collector list"
where
  "add_collector cs c = cs @ [c]"

fun collect_all ::
  "('i, 's, 'e) named_collector list \<Rightarrow> 'i \<Rightarrow> 's \<Rightarrow>
     (metric list \<times> (string \<times> 'e collect_error) list) \<times> 's" where
  "collect_all [] i s = (([], []), s)"
| "collect_all (c # cs) i s =
     (let ((ms, err), s1) = cl_collect c i s;
          ((mss, errs), s2) = collect_all cs i s1
      in ((ms @ mss, (case err of Some e \<Rightarrow> [(cl_name c, e)] | None \<Rightarrow> []) @ errs), s2))"

text \<open>The registry that \<open>cmd/agent\<close> builds; only the network collector keeps state.\<close>

definition agent_registry ::
  "string \<Rightarrow> string list \<Rightarrow> string list \<Rightarrow> ('e readings, net_state, 'e) named_collector list" where
  "agent_registry host mounts ifaces =
     [\<lparr>cl_name = ''cpu'', cl_collect = \<lambda>rd ns. (collect_cpu host rd, ns)\<rparr>,
      \<lparr>cl_name = ''memory'', cl_collect = \<lambda>rd ns. (collect_memory host rd, ns)\<rparr>,
      \<lparr>cl_name = ''disk'', cl_collect = \<lambda>rd ns. (collect_disk host mounts rd, ns)\<rparr>,
      \<lparr>cl_name = ''network'', cl_collect = collect_network host ifaces\<rparr>]"

section \<open>The contract of a collector\<close>

text \<open>
  On sane readings every metric a source returns is well formed.  The registry of such sources is one
  again, and what a source collects makes a batch that the server's validation accepts.
\<close>

locale metric_source =
  fixes collect :: "'i \<Rightarrow> 's \<Rightarrow> 'e collected \<times> 's"
    and sane :: "'i \<Rightarrow> bool"
    and host :: string
  assumes collected_ok: "sane i \<Longrightarrow> m \<in> set (fst (fst (collect i s))) \<Longrightarrow> metric_ok m"
    and host_ok: "sane i \<Longrightarrow> trim_space host \<noteq> []"
begin

lemma batch_accepted:
  "sane i \<Longrightarrow> metric_batch_validate \<lparr>mb_host = host, mb_metrics = fst (fst (collect i s))\<rparr> = None"
  using collected_ok host_ok by (auto simp: metric_batch_validate_None)

end

definition sane_readings :: "string \<Rightarrow> string list \<Rightarrow> 'e readings \<Rightarrow> bool" where
  "sane_readings host mounts rd \<longleftrightarrow>
     trim_space host \<noteq> [] \<and> [] \<notin> set mounts \<and> (\<forall>n. rd_now rd n \<noteq> zero_time) \<and>
     (\<forall>b vs. rd_cpu rd b = Inr vs \<longrightarrow> (\<forall>v\<in>set vs. is_finite v)) \<and>
     (\<forall>st. rd_mem rd = Inr st \<longrightarrow> is_finite (ms_used_percent st)) \<and>
     (\<forall>ps. rd_parts rd = Inr ps \<longrightarrow> [] \<notin> set ps) \<and>
     (\<forall>p u. rd_usage rd p = Inr u \<longrightarrow> is_finite (us_used_percent u)) \<and>
     (\<forall>ss. rd_io rd = Inr ss \<longrightarrow> (\<forall>s\<in>set ss. io_name s \<noteq> []))"

lemma rnd_pos_bound:
  assumes "0 < x" "x < 2 powi k" "0 \<le> k"
  shows "rnd_pos x \<le> 2 powi k"
proof -
  have "ulp_exp x + 53 \<le> k" using expo_le [OF assms(1,2)] assms(3) by (simp add: ulp_exp_def)
  then have "(2 :: rat) powi (ulp_exp x + 53) \<le> 2 powi k" by (intro power_int_increasing) auto
  with rnd_pos_le_binade [OF assms(1)] show ?thesis by (rule order_trans)
qed

lemma finite_of_int:
  assumes "\<bar>n\<bar> < 2 ^ 64"
  shows "is_finite (f64_of_int n)"
proof -
  have "\<bar>of_int n :: rat\<bar> < of_int (2 ^ 64)" using assms by (simp only: of_int_less_iff flip: of_int_abs)
  then have b: "\<bar>of_int n :: rat\<bar> < 2 powi 64" by simp
  have "\<bar>rnd (of_int n)\<bar> \<le> 2 powi 64"
  proof (cases "n = 0")
    case False
    then have "rnd_pos \<bar>of_int n\<bar> \<le> 2 powi 64" "0 \<le> rnd_pos \<bar>of_int n\<bar>"
      using rnd_pos_bound [OF _ b] rnd_pos_nonneg [of "\<bar>of_int n\<bar>"] by (simp_all del: power_int_numeral)
    then show ?thesis using False by (auto simp: rnd_def abs_if split: if_splits)
  qed simp
  also have "2 powi 64 < max_exact" by (simp add: max_exact_def)
  finally show ?thesis by (simp add: f64_of_int_def f64_of_rat_Fin)
qed

lemma finite_uint64: "is_finite (f64_of_uint64 w)"
proof -
  have "uint w < 2 ^ 64" using uint_lt2p [of w] by simp
  then show ?thesis unfolding f64_of_uint64_def by (intro finite_of_int) simp
qed

lemma byte_delta_bounds: "0 \<le> byte_delta c p \<and> byte_delta c p < 2 ^ 63"
  using sint_lt [of "c - p"] by (auto simp: byte_delta_def Let_def)

lemma finite_delta: "is_finite (f64_of_int (byte_delta c p))"
  using byte_delta_bounds [of c p] by (intro finite_of_int) auto

lemma itoa_nonempty: "itoa n \<noteq> []" "[] \<noteq> itoa n"
  using itoa_digits [of n] by auto

lemma cpu_ok:
  "sane_readings host mounts rd \<Longrightarrow> m \<in> set (fst (collect_cpu host rd)) \<Longrightarrow> metric_ok m"
  by (auto simp: collect_cpu_def sane_readings_def cpu_metric_def metric_ok_def valid_metric_names_def
      in_set_enumerate_eq itoa_nonempty Let_def split: sum.splits list.splits)

lemma memory_ok:
  "sane_readings host mounts rd \<Longrightarrow> m \<in> set (fst (collect_memory host rd)) \<Longrightarrow> metric_ok m"
  by (auto simp: collect_memory_def sane_readings_def plain_metric_def metric_ok_def valid_metric_names_def
      finite_uint64 Let_def split: sum.splits)

lemma disk_ok:
  "sane_readings host mounts rd \<Longrightarrow> m \<in> set (fst (collect_disk host mounts rd)) \<Longrightarrow> metric_ok m"
  by (auto simp: collect_disk_def disk_metrics_def sane_readings_def plain_metric_def metric_ok_def
      valid_metric_names_def finite_uint64 Let_def split: sum.splits if_splits)

lemma snapshot_names:
  "net_snapshot ifaces ss cur k = Some s \<Longrightarrow> cur k = Some s \<or> (s \<in> set ss \<and> io_name s = k)"
  by (induction ifaces ss cur rule: net_snapshot.induct) (auto split: if_splits)

lemma snapshot_named: "\<forall>s\<in>set ss. io_name s \<noteq> [] \<Longrightarrow> net_snapshot ifaces ss Map.empty [] = None"
  using snapshot_names [of ifaces ss Map.empty "[]"] by (cases "net_snapshot ifaces ss Map.empty []") auto

lemma net_metrics_ok:
  assumes "m \<in> set (net_metrics now host prev cur name)"
    and "trim_space host \<noteq> []" "now \<noteq> zero_time" "cur [] = None"
  shows "metric_ok m"
  using assms
  by (auto simp: net_metrics_def plain_metric_def metric_ok_def valid_metric_names_def finite_delta Let_def
      split: option.splits)

lemma network_ok:
  "sane_readings host mounts rd \<Longrightarrow> m \<in> set (fst (fst (collect_network host ifaces rd ns))) \<Longrightarrow> metric_ok m"
  using snapshot_named
  by (auto simp: collect_network_def sane_readings_def Let_def split: sum.splits option.splits
      elim!: net_metrics_ok)

interpretation cpu_source: metric_source "\<lambda>rd ns. (collect_cpu host rd, ns)" "sane_readings host mounts" host
  for host mounts
  by unfold_locales (simp_all add: cpu_ok sane_readings_def)

interpretation memory_source: metric_source "\<lambda>rd ns. (collect_memory host rd, ns)" "sane_readings host mounts" host
  for host mounts
  by unfold_locales (simp_all add: memory_ok sane_readings_def)

interpretation disk_source: metric_source "\<lambda>rd ns. (collect_disk host mounts rd, ns)" "sane_readings host mounts" host
  for host mounts
  by unfold_locales (simp_all add: disk_ok sane_readings_def)

interpretation network_source: metric_source "collect_network host ifaces" "sane_readings host mounts" host
  for host mounts ifaces
  by unfold_locales (simp_all add: network_ok sane_readings_def)

text \<open>The registry passes the contract on.\<close>

lemma collect_all_members:
  "m \<in> set (fst (fst (collect_all cs i s))) \<Longrightarrow> \<exists>c\<in>set cs. \<exists>s'. m \<in> set (fst (fst (cl_collect c i s')))"
proof (induction cs arbitrary: s)
  case (Cons c cs)
  obtain ms err s1 where c: "cl_collect c i s = ((ms, err), s1)" by (metis surj_pair)
  obtain mss errs s2 where cs: "collect_all cs i s1 = ((mss, errs), s2)" by (metis surj_pair)
  have "m \<in> set ms \<or> m \<in> set mss" using Cons.prems c cs by simp
  then show ?case
  proof
    assume "m \<in> set ms"
    then have "m \<in> set (fst (fst (cl_collect c i s)))" by (simp add: c)
    then show ?thesis by auto
  next
    assume "m \<in> set mss"
    then show ?thesis using Cons.IH [of s1] cs by auto
  qed
qed simp

definition registry_collect ::
  "string \<Rightarrow> string list \<Rightarrow> string list \<Rightarrow> 'e readings \<Rightarrow> net_state \<Rightarrow> 'e collected \<times> net_state" where
  "registry_collect host mounts ifaces rd ns =
     (let ((ms, errs), ns') = collect_all (agent_registry host mounts ifaces) rd ns in ((ms, None), ns'))"

interpretation registry_source: metric_source "registry_collect host mounts ifaces" "sane_readings host mounts" host
  for host mounts ifaces
proof
  fix rd :: "'e readings" and m ns
  assume rd: "sane_readings host mounts rd"
  then show "trim_space host \<noteq> []" by (simp add: sane_readings_def)
  assume "m \<in> set (fst (fst (registry_collect host mounts ifaces rd ns)))"
  then have "m \<in> set (fst (fst (collect_all (agent_registry host mounts ifaces) rd ns)))"
    by (simp add: registry_collect_def case_prod_unfold Let_def)
  then obtain c ns' where "c \<in> set (agent_registry host mounts ifaces)" "m \<in> set (fst (fst (cl_collect c rd ns')))"
    by (blast dest: collect_all_members)
  with cpu_source.collected_ok [OF rd] memory_source.collected_ok [OF rd] disk_source.collected_ok [OF rd]
    network_source.collected_ok [OF rd]
  show "metric_ok m" by (auto simp: agent_registry_def)
qed

text \<open>
  What comes from the system are \<open>float64\<close> values, read in a year JSON can write; so is what is collected.
\<close>

definition typed_readings :: "'e readings \<Rightarrow> bool" where
  "typed_readings rd \<longleftrightarrow>
     (\<forall>n. four_digit_year (rd_now rd n)) \<and>
     (\<forall>b vs. rd_cpu rd b = Inr vs \<longrightarrow> (\<forall>v\<in>set vs. is_f64 v)) \<and>
     (\<forall>st. rd_mem rd = Inr st \<longrightarrow> is_f64 (ms_used_percent st)) \<and>
     (\<forall>p u. rd_usage rd p = Inr u \<longrightarrow> is_f64 (us_used_percent u))"

lemma collected_typed:
  assumes rd: "typed_readings rd"
    and m: "m \<in> set (fst (fst (collect_all (agent_registry host mounts ifaces) rd ns)))"
  shows "is_f64 (m_value m) \<and> four_digit_year (m_time m)"
proof -
  obtain c ns' where c: "c \<in> set (agent_registry host mounts ifaces)" "m \<in> set (fst (fst (cl_collect c rd ns')))"
    using m by (blast dest: collect_all_members)
  have now: "four_digit_year (rd_now rd n)" for n using rd by (simp add: typed_readings_def)
  consider "m \<in> set (fst (collect_cpu host rd))" | "m \<in> set (fst (collect_memory host rd))"
    | "m \<in> set (fst (collect_disk host mounts rd))" | "m \<in> set (fst (fst (collect_network host ifaces rd ns')))"
    using c by (auto simp: agent_registry_def)
  then show ?thesis
  proof cases
    case 1
    then show ?thesis using rd now
      by (auto simp: collect_cpu_def cpu_metric_def typed_readings_def in_set_enumerate_eq Let_def split: sum.splits list.splits)
  next
    case 2
    then show ?thesis using rd now
      by (auto simp: collect_memory_def plain_metric_def typed_readings_def f64_of_uint64_def Let_def split: sum.splits)
  next
    case 3
    then show ?thesis using rd now
      by (auto simp: collect_disk_def disk_metrics_def plain_metric_def typed_readings_def f64_of_uint64_def Let_def
          split: sum.splits if_splits)
  next
    case 4
    then show ?thesis using now
      by (auto simp: collect_network_def net_metrics_def plain_metric_def Let_def split: sum.splits option.splits)
  qed
qed

text \<open>
  C28. What the agent collects in a tick passes the server's validation, whichever collectors fail and
  whatever the counters do: it is enough that the host is not blank, that no mount point or interface
  has an empty name, and that the percentages the system reports are finite.
\<close>

theorem collected_batch_valid:
  assumes "sane_readings host mounts rd"
    and "collect_all (agent_registry host mounts ifaces) rd ns = ((ms, errs), ns')"
  shows "metric_batch_validate \<lparr>mb_host = host, mb_metrics = ms\<rparr> = None"
  using registry_source.batch_accepted [OF assms(1), of ifaces ns]
  by (simp add: registry_collect_def assms(2))

section \<open>Network deltas\<close>

text \<open>
  The 64-bit difference in closed form: the increase of the counter modulo \<open>2 ^ 64\<close>, so a counter that
  wraps at 64 bits is still measured, and nothing where that increase does not fit 63 bits.
\<close>

lemma byte_delta_mod:
  "byte_delta c p =
     (let d = (uint c - uint p) mod 2 ^ 64 in if d < 2 ^ 63 then d else 0)"
proof -
  have u: "uint (c - p) = (uint c - uint p) mod 2 ^ 64"
    by (simp add: uint_word_ariths)
  show ?thesis
  proof (cases "uint (c - p) < 2 ^ 63")
    case True
    then have "sint (c - p) = uint (c - p)"
      using signed_take_bit_int_eq_self [of 63 "uint (c - p)"] uint_ge_0 [of "c - p"] by (simp add: sint_uint)
    with True show ?thesis using uint_ge_0 [of "c - p"] unfolding byte_delta_def Let_def u [symmetric] by simp
  next
    case False
    then have "sint (c - p) \<le> uint (c - p) - 2 ^ 64"
      using signed_take_bit_int_less_eq [of 63 "uint (c - p)"] by (simp add: sint_uint)
    then have "sint (c - p) < 0" using uint_lt2p [of "c - p"] by simp
    with False show ?thesis unfolding byte_delta_def Let_def u [symmetric] by simp
  qed
qed

lemma snapshot_filter:
  "net_snapshot ifaces ss cur k = Some s \<Longrightarrow>
     cur k = Some s \<or> (k \<noteq> ''lo'' \<and> (ifaces = [] \<or> k \<in> set ifaces) \<and> s \<in> set ss \<and> io_name s = k)"
  by (induction ifaces ss cur rule: net_snapshot.induct)
    (auto simp: contains_iface_def list_ex_iff split: if_splits)

text \<open>What a tick reports for one direction of one interface.\<close>

definition delta_metric ::
  "gotime \<Rightarrow> string \<Rightarrow> string \<Rightarrow> string \<Rightarrow> 64 word \<Rightarrow> 64 word \<Rightarrow> metric" where
  "delta_metric now host metric_name iface c p =
     (let d = (uint c - uint p) mod 2 ^ 64
      in plain_metric now host metric_name (f64_of_int (if d < 2 ^ 63 then d else 0)) [(''iface'', iface)])"

lemma net_metrics_eq:
  "net_metrics now host prev cur name =
     (case (cur name, prev name) of
        (Some cs, Some ps) \<Rightarrow>
          [delta_metric now host ''net.bytes_in'' name (io_recv cs) (io_recv ps),
           delta_metric now host ''net.bytes_out'' name (io_sent cs) (io_sent ps)]
      | _ \<Rightarrow> [])"
  by (simp add: net_metrics_def delta_metric_def byte_delta_mod Let_def split: option.split)

text \<open>
  C29. From the second call on, the network collector reports for exactly the interfaces it saw in both
  calls the growth of the two counters, modulo \<open>2 ^ 64\<close>, where it fits 63 bits and zero where it does
  not, whatever the iteration order of the map; it never reports the loopback interface or one that is
  not on the allow list, and keeps the snapshot for the next call.
\<close>

theorem network_deltas:
  assumes "rd_io rd = Inr stats" and "ns_prev ns = Some prev"
    and "cur = net_snapshot ifaces stats Map.empty" and "ranges (rd_order rd) cur"
  shows "\<exists>ms ns'. collect_network host ifaces rd ns = ((ms, None), ns') \<and> ns_prev ns' = Some cur \<and>
    set ms = (\<Union>name \<in> dom cur \<inter> dom prev.
      {delta_metric (rd_now rd ''network'') host ''net.bytes_in'' name
         (io_recv (the (cur name))) (io_recv (the (prev name))),
       delta_metric (rd_now rd ''network'') host ''net.bytes_out'' name
         (io_sent (the (cur name))) (io_sent (the (prev name)))}) \<and>
    (\<forall>name \<in> dom cur. name \<noteq> ''lo'' \<and> (ifaces = [] \<or> name \<in> set ifaces))"
proof -
  let ?now = "rd_now rd ''network''"
  let ?D = "\<lambda>name.
    {delta_metric ?now host ''net.bytes_in'' name (io_recv (the (cur name))) (io_recv (the (prev name))),
     delta_metric ?now host ''net.bytes_out'' name (io_sent (the (cur name))) (io_sent (the (prev name)))}"
  let ?ms = "concat (map (net_metrics ?now host prev cur) (rd_order rd))"
  have one: "set (net_metrics ?now host prev cur name) = (if name \<in> dom cur \<inter> dom prev then ?D name else {})" for name
    by (auto simp: net_metrics_eq split: option.split)
  have "set ?ms = (\<Union>name \<in> dom cur. if name \<in> dom cur \<inter> dom prev then ?D name else {})"
    using assms(4) by (simp only: set_concat set_map image_image one ranges_def)
  also have "\<dots> = (\<Union>name \<in> dom cur \<inter> dom prev. ?D name)" by (auto split: if_splits)
  finally have ms: "set ?ms = (\<Union>name \<in> dom cur \<inter> dom prev. ?D name)" .
  have "\<forall>name \<in> dom cur. name \<noteq> ''lo'' \<and> (ifaces = [] \<or> name \<in> set ifaces)"
    using snapshot_filter [of ifaces stats Map.empty] assms(3) by fastforce
  moreover have "collect_network host ifaces rd ns = ((?ms, None), \<lparr>ns_prev = Some cur, ns_prev_at = ?now\<rparr>)"
    using assms(1-3) by (simp add: collect_network_def Let_def)
  ultimately show ?thesis using ms
    by (intro exI [of _ ?ms] exI [of _ "\<lparr>ns_prev = Some cur, ns_prev_at = ?now\<rparr>"]) (simp del: set_concat)
qed

section \<open>Witnesses\<close>

definition demo_readings :: "string readings" where
  "demo_readings =
     \<lparr>rd_now = (\<lambda>n. 5), rd_cpu = (\<lambda>b. Inr [Fin 40]), rd_mem = Inl ''no meminfo'', rd_parts = Inr [''/''],
      rd_usage = (\<lambda>p. Inr \<lparr>us_total = 100, us_used = 25, us_used_percent = Fin 25\<rparr>),
      rd_io = Inr [\<lparr>io_name = ''lo'', io_recv = 9, io_sent = 9\<rparr>, \<lparr>io_name = ''eth0'', io_recv = 4, io_sent = 30\<rparr>],
      rd_order = [''eth0'']\<rparr>"

lemma collected_batch_valid_witness:
  "metric_batch_validate \<lparr>mb_host = ''h'',
     mb_metrics = fst (fst (collect_all (agent_registry ''h'' [] []) demo_readings new_net_state))\<rparr> = None"
proof -
  have h: "trim_space ''h'' \<noteq> []" by code_simp
  have "sane_readings ''h'' [] demo_readings"
    by (auto simp: sane_readings_def demo_readings_def h zero_time_def)
  then show ?thesis
    by (rule collected_batch_valid [where errs = "snd (fst (collect_all (agent_registry ''h'' [] []) demo_readings
        new_net_state))" and ns' = "snd (collect_all (agent_registry ''h'' [] []) demo_readings new_net_state)"]) simp
qed

text \<open>The received bytes were at \<open>2 ^ 64 - 6\<close> before: ten bytes later the counter has wrapped to 4.\<close>

lemma network_deltas_witness:
  "delta_metric 5 ''h'' ''net.bytes_in'' ''eth0'' 4 (- 6) \<in>
     set (fst (fst (collect_network ''h'' [] demo_readings
       \<lparr>ns_prev = Some [''eth0'' \<mapsto> \<lparr>io_name = ''eth0'', io_recv = - 6, io_sent = 50\<rparr>], ns_prev_at = 1\<rparr>)))"
proof -
  let ?ns = "\<lparr>ns_prev = Some [''eth0'' \<mapsto> \<lparr>io_name = ''eth0'', io_recv = - 6, io_sent = 50\<rparr>], ns_prev_at = 1\<rparr>"
  let ?stats = "[\<lparr>io_name = ''lo'', io_recv = 9, io_sent = 9\<rparr>, \<lparr>io_name = ''eth0'', io_recv = 4, io_sent = 30\<rparr>]"
  have io: "rd_io demo_readings = Inr ?stats" by (simp add: demo_readings_def)
  have snap: "net_snapshot [] ?stats Map.empty = [''eth0'' \<mapsto> \<lparr>io_name = ''eth0'', io_recv = 4, io_sent = 30\<rparr>]"
    by simp
  have "ranges (rd_order demo_readings) (net_snapshot [] ?stats Map.empty)"
    unfolding snap by (simp add: ranges_def demo_readings_def)
  moreover have "ns_prev ?ns = Some [''eth0'' \<mapsto> \<lparr>io_name = ''eth0'', io_recv = - 6, io_sent = 50\<rparr>]" by simp
  ultimately obtain ms ns' where n: "collect_network ''h'' [] demo_readings ?ns = ((ms, None), ns')"
    "delta_metric (rd_now demo_readings ''network'') ''h'' ''net.bytes_in'' ''eth0'' 4 (- 6) \<in> set ms"
    using network_deltas [OF io _ refl, of ?ns _ "[]" "''h''"] unfolding snap by auto
  then show ?thesis by (simp add: demo_readings_def)
qed

end
