(* ===== verification/Agent_Loop.thy ===== *)
theory Agent_Loop
  imports Collectors Send_Loop
begin

text \<open>
  The agent, \<open>internal/agent/agent.go\<close>: a collecting goroutine and a sending goroutine joined by a
  buffered channel.  The channel is the locale \<open>bounded_queue\<close>; the two goroutines are a step
  relation whose steps are the points where they communicate, in any interleaving.
\<close>

section \<open>Bounded queues\<close>

datatype 'a queue_op = Put 'a | Take

locale bounded_queue =
  fixes try_put :: "'a \<Rightarrow> 'q \<Rightarrow> 'q option"
    and take_first :: "'q \<Rightarrow> ('a \<times> 'q) option"
    and items :: "'q \<Rightarrow> 'a list"
    and capacity :: "'q \<Rightarrow> nat"
  assumes put_full: "try_put x q = None \<longleftrightarrow> \<not> length (items q) < capacity q"
    and put_items: "try_put x q = Some q' \<Longrightarrow> items q' = items q @ [x] \<and> capacity q' = capacity q"
    and take_empty: "take_first q = None \<longleftrightarrow> items q = []"
    and take_items: "take_first q = Some (x, q') \<Longrightarrow> items q = x # items q' \<and> capacity q' = capacity q"
begin

lemma put_bound: "try_put x q = Some q' \<Longrightarrow> length (items q') \<le> capacity q'"
  using put_items [of x q q'] put_full [of x q] by simp

lemma take_bound: "length (items q) \<le> capacity q \<Longrightarrow> take_first q = Some (x, q') \<Longrightarrow> length (items q') \<le> capacity q'"
  using take_items [of q x q'] by simp

text \<open>Puts on a full queue are lost; the rest comes out in the order it went in.\<close>

fun run_queue :: "'a queue_op list \<Rightarrow> 'q \<Rightarrow> 'q \<times> 'a list \<times> 'a list" where
  "run_queue [] q = (q, [], [])"
| "run_queue (Put x # ops) q =
     (case try_put x q of
        None \<Rightarrow> run_queue ops q
      | Some q1 \<Rightarrow> (case run_queue ops q1 of (q2, ins, outs) \<Rightarrow> (q2, x # ins, outs)))"
| "run_queue (Take # ops) q =
     (case take_first q of
        None \<Rightarrow> run_queue ops q
      | Some (x, q1) \<Rightarrow> (case run_queue ops q1 of (q2, ins, outs) \<Rightarrow> (q2, ins, x # outs)))"

lemma fifo: "run_queue ops q = (q', ins, outs) \<Longrightarrow> items q @ ins = outs @ items q'"
  by (induction ops q arbitrary: q' ins outs rule: run_queue.induct)
    (fastforce split: option.splits prod.splits dest!: put_items take_items)+

end

section \<open>The channel\<close>

record 'a chan =
  ch_buf :: "'a list"
  ch_cap :: nat
  ch_open :: bool

definition make_chan :: "nat \<Rightarrow> 'a chan" where
  "make_chan n = \<lparr>ch_buf = [], ch_cap = n, ch_open = True\<rparr>"

text \<open>\<open>select { case ch <- x: default: }\<close>.\<close>

definition chan_try_send :: "'a \<Rightarrow> 'a chan \<Rightarrow> 'a chan option" where
  "chan_try_send x c = (if length (ch_buf c) < ch_cap c then Some (c\<lparr>ch_buf := ch_buf c @ [x]\<rparr>) else None)"

text \<open>A receive; \<open>None\<close> blocks on an open channel and ends the range loop on a closed one.\<close>

definition chan_recv :: "'a chan \<Rightarrow> ('a \<times> 'a chan) option" where
  "chan_recv c = (case ch_buf c of [] \<Rightarrow> None | x # xs \<Rightarrow> Some (x, c\<lparr>ch_buf := xs\<rparr>))"

definition chan_close :: "'a chan \<Rightarrow> 'a chan" where
  "chan_close c = c\<lparr>ch_open := False\<rparr>"

interpretation batch_queue: bounded_queue chan_try_send chan_recv ch_buf ch_cap
  by unfold_locales (auto simp: chan_try_send_def chan_recv_def split: if_splits list.splits)

section \<open>The agent\<close>

text \<open>Where the sending goroutine is.\<close>

datatype sender_pc = Receiving | Sending metric_batch | SenderDone

text \<open>
  The last three fields are not in the code: the batches the channel accepted, those handed to
  \<open>Send\<close>, and the number dropped.
\<close>

record agent_state =
  ag_chan :: "metric_batch chan"
  ag_collecting :: bool
  ag_sender :: sender_pc
  ag_cancelled :: bool
  ag_accepted :: "metric_batch list"
  ag_handed :: "metric_batch list"
  ag_dropped :: nat

definition new_agent :: "int \<Rightarrow> agent_state" where
  "new_agent buf_size =
     (let n = (if buf_size \<le> 0 then 10 else buf_size)
      in \<lparr>ag_chan = make_chan (nat n), ag_collecting = True, ag_sender = Receiving, ag_cancelled = False,
          ag_accepted = [], ag_handed = [], ag_dropped = 0\<rparr>)"

text \<open>The tick branch of \<open>collectLoop\<close>; \<open>ms\<close> is what \<open>CollectAll\<close> returned.\<close>

definition on_tick :: "string \<Rightarrow> metric list \<Rightarrow> agent_state \<Rightarrow> agent_state" where
  "on_tick host ms s =
     (if length ms = 0 then s
      else let batch = \<lparr>mb_host = host, mb_metrics = ms\<rparr>
           in case chan_try_send batch (ag_chan s) of
                Some c \<Rightarrow> s\<lparr>ag_chan := c, ag_accepted := ag_accepted s @ [batch]\<rparr>
              | None \<Rightarrow> s\<lparr>ag_dropped := Suc (ag_dropped s)\<rparr>)"

datatype agent_event = Cancel | Tick "metric list" | CollectorStops | Receive | SendReturns bool

inductive agent_step :: "string \<Rightarrow> agent_state \<Rightarrow> agent_event \<Rightarrow> agent_state \<Rightarrow> bool" for host where
  cancel: "\<not> ag_cancelled s \<Longrightarrow> agent_step host s Cancel (s\<lparr>ag_cancelled := True\<rparr>)"
| tick: "ag_collecting s \<Longrightarrow> agent_step host s (Tick ms) (on_tick host ms s)"
| stops: "ag_collecting s \<Longrightarrow> ag_cancelled s \<Longrightarrow>
    agent_step host s CollectorStops (s\<lparr>ag_collecting := False, ag_chan := chan_close (ag_chan s)\<rparr>)"
| receive: "ag_sender s = Receiving \<Longrightarrow> chan_recv (ag_chan s) = Some (b, c) \<Longrightarrow>
    agent_step host s Receive (s\<lparr>ag_chan := c, ag_sender := Sending b, ag_handed := ag_handed s @ [b]\<rparr>)"
| closed: "ag_sender s = Receiving \<Longrightarrow> chan_recv (ag_chan s) = None \<Longrightarrow> \<not> ch_open (ag_chan s) \<Longrightarrow>
    agent_step host s Receive (s\<lparr>ag_sender := SenderDone\<rparr>)"
| sent: "ag_sender s = Sending b \<Longrightarrow> agent_step host s (SendReturns True) (s\<lparr>ag_sender := Receiving\<rparr>)"
| failed: "ag_sender s = Sending b \<Longrightarrow>
    agent_step host s (SendReturns False)
      (s\<lparr>ag_sender := (if ag_cancelled s then SenderDone else Receiving)\<rparr>)"

inductive_cases agent_stepE: "agent_step host s e s'"

inductive agent_run :: "string \<Rightarrow> agent_state \<Rightarrow> agent_event list \<Rightarrow> agent_state \<Rightarrow> bool" for host where
  idle: "agent_run host s [] s"
| more: "agent_step host s e s' \<Longrightarrow> agent_run host s' es s'' \<Longrightarrow> agent_run host s (e # es) s''"

section \<open>Invariants\<close>

definition agent_inv :: "string \<Rightarrow> agent_state \<Rightarrow> bool" where
  "agent_inv host s \<longleftrightarrow>
     length (ch_buf (ag_chan s)) \<le> ch_cap (ag_chan s) \<and>
     ag_accepted s = ag_handed s @ ch_buf (ag_chan s) \<and>
     ch_open (ag_chan s) = ag_collecting s \<and>
     (\<forall>b. ag_sender s = Sending b \<longrightarrow> ag_handed s \<noteq> [] \<and> last (ag_handed s) = b) \<and>
     (\<forall>b\<in>set (ag_accepted s). mb_host b = host \<and> mb_metrics b \<noteq> [])"

lemma on_tick_inv: "agent_inv host s \<Longrightarrow> agent_inv host (on_tick host ms s)"
  by (auto simp: agent_inv_def on_tick_def chan_try_send_def Let_def split: option.split)

lemma chan_recv_open: "chan_recv c = Some (x, c') \<Longrightarrow> ch_open c' = ch_open c"
  by (auto simp: chan_recv_def split: list.splits)

lemma agent_step_inv: "agent_step host s e s' \<Longrightarrow> agent_inv host s \<Longrightarrow> agent_inv host s'"
proof (induction rule: agent_step.induct)
  case (tick s ms)
  then show ?case by (simp add: on_tick_inv)
next
  case (receive s b c)
  with batch_queue.take_items [OF receive(2)] batch_queue.take_bound [OF _ receive(2)] chan_recv_open [OF receive(2)]
  show ?case by (auto simp: agent_inv_def)
qed (auto simp: agent_inv_def chan_close_def)

text \<open>Ticks that found metrics.\<close>

definition batches_made :: "agent_event list \<Rightarrow> nat" where
  "batches_made es = length (filter (\<lambda>e. case e of Tick ms \<Rightarrow> ms \<noteq> [] | _ \<Rightarrow> False) es)"

lemma agent_step_count:
  "agent_step host s e s' \<Longrightarrow>
     length (ag_accepted s') + ag_dropped s' = length (ag_accepted s) + ag_dropped s + batches_made [e]"
  by (induction rule: agent_step.induct)
    (auto simp: on_tick_def batches_made_def Let_def split: option.split)

lemma agent_run_inv: "agent_run host s es s' \<Longrightarrow> agent_inv host s \<Longrightarrow> agent_inv host s'"
  by (induction rule: agent_run.induct) (auto dest: agent_step_inv)

lemma agent_run_count:
  "agent_run host s es s' \<Longrightarrow>
     length (ag_accepted s') + ag_dropped s' = length (ag_accepted s) + ag_dropped s + batches_made es"
  by (induction rule: agent_run.induct)
    (auto dest!: agent_step_count simp: batches_made_def split: agent_event.splits if_splits)

lemma agent_cap: "agent_step host s e s' \<Longrightarrow> ch_cap (ag_chan s') = ch_cap (ag_chan s)"
  by (induction rule: agent_step.induct)
    (auto simp: on_tick_def chan_close_def Let_def dest: batch_queue.take_items batch_queue.put_items
      split: option.split)

lemma agent_run_cap: "agent_run host s es s' \<Longrightarrow> ch_cap (ag_chan s') = ch_cap (ag_chan s)"
  by (induction rule: agent_run.induct) (auto dest: agent_cap)

lemma new_agent_inv: "agent_inv host (new_agent n)"
  by (simp add: agent_inv_def new_agent_def make_chan_def Let_def)

text \<open>
  C25. In every interleaving of the two goroutines the channel never holds more than its capacity (ten
  by default), the sender gets the accepted batches in the order they were made, each once, and every
  non-empty tick is either accepted or counted as dropped: nothing is lost otherwise.
\<close>

theorem agent_conservation:
  assumes "agent_run host (new_agent n) es s"
  shows "ag_accepted s = ag_handed s @ ch_buf (ag_chan s) \<and>
    int (length (ch_buf (ag_chan s))) \<le> (if n \<le> 0 then 10 else n) \<and>
    length (ag_accepted s) + ag_dropped s = batches_made es \<and>
    (\<forall>b\<in>set (ag_accepted s). mb_host b = host \<and> mb_metrics b \<noteq> [])"
proof -
  have inv: "agent_inv host s" using agent_run_inv [OF assms new_agent_inv] .
  have "ch_cap (ag_chan s) = nat (if n \<le> 0 then 10 else n)"
    using agent_run_cap [OF assms] by (simp add: new_agent_def make_chan_def Let_def)
  moreover have "length (ag_accepted s) + ag_dropped s = batches_made es"
    using agent_run_count [OF assms] by (simp add: new_agent_def Let_def)
  ultimately show ?thesis using inv by (auto simp: agent_inv_def split: if_splits)
qed

section \<open>Shutdown\<close>

fun sender_weight :: "sender_pc \<Rightarrow> nat" where
  "sender_weight Receiving = 1"
| "sender_weight (Sending b) = 2"
| "sender_weight SenderDone = 0"

definition shutdown_left :: "agent_state \<Rightarrow> nat" where
  "shutdown_left s =
     2 * length (ch_buf (ag_chan s)) + sender_weight (ag_sender s) + (if ag_cancelled s then 0 else 1)"

lemma shutdown_step:
  "agent_step host s e s' \<Longrightarrow> \<not> ag_collecting s \<Longrightarrow> \<not> ag_collecting s' \<and> shutdown_left s' < shutdown_left s"
  by (induction rule: agent_step.induct) (auto simp: shutdown_left_def dest: batch_queue.take_items)

lemma shutdown_run:
  "agent_run host s es s' \<Longrightarrow> \<not> ag_collecting s \<Longrightarrow>
     \<not> ag_collecting s' \<and> length es + shutdown_left s' \<le> shutdown_left s"
  by (induction rule: agent_run.induct) (auto dest: shutdown_step)

lemma sender_progress:
  assumes "agent_inv host s" "\<not> ag_collecting s" "ag_sender s \<noteq> SenderDone"
  shows "\<exists>e s'. agent_step host s e s'"
proof (cases "ag_sender s")
  case Receiving
  have "\<not> ch_open (ag_chan s)" using assms by (simp add: agent_inv_def)
  with Receiving show ?thesis
    by (cases "chan_recv (ag_chan s)") (auto intro: agent_step.receive agent_step.closed)
next
  case (Sending b)
  then show ?thesis by (blast intro: agent_step.sent)
qed (use assms in simp)

text \<open>
  C26. Shutdown ends: once the collecting goroutine has returned, the agent makes at most twice as many
  further steps as there are batches in the channel plus three, and as long as the sending goroutine
  has not returned it can make one (a \<open>Send\<close> that is under way being taken to return); so \<open>Run\<close>
  returns.
\<close>

theorem agent_shutdown:
  assumes "agent_run host (new_agent n) es0 s0" and "\<not> ag_collecting s0" and "agent_run host s0 es s"
  shows "length es \<le> 2 * length (ch_buf (ag_chan s0)) + 3 \<and>
    (ag_sender s = SenderDone \<or> (\<exists>e s'. agent_step host s e s'))"
proof -
  have "shutdown_left s0 \<le> 2 * length (ch_buf (ag_chan s0)) + 3"
    by (cases "ag_sender s0") (simp_all add: shutdown_left_def)
  moreover have "agent_inv host s"
    using agent_run_inv [OF assms(3) agent_run_inv [OF assms(1) new_agent_inv]] .
  ultimately show ?thesis
    using shutdown_run [OF assms(3,2)] sender_progress [of host s] by auto
qed

section \<open>Witnesses\<close>

text \<open>A run with a channel of one: the second tick is dropped, the first batch is sent.\<close>

definition demo_tick :: "metric list" where
  "demo_tick = [\<lparr>m_time = 1, m_host = ''h'', m_name = ''cpu.usage_pct'', m_value = Fin 7, m_labels = []\<rparr>]"

definition demo_batch :: metric_batch where
  "demo_batch = \<lparr>mb_host = ''h'', mb_metrics = demo_tick\<rparr>"

definition after_ticks :: agent_state where
  "after_ticks = on_tick ''h'' demo_tick (on_tick ''h'' demo_tick (new_agent 1))"

lemma agent_conservation_witness:
  "ag_accepted after_ticks = ag_handed after_ticks @ ch_buf (ag_chan after_ticks) \<and>
     int (length (ch_buf (ag_chan after_ticks))) \<le> 1"
proof -
  have "agent_run ''h'' (new_agent 1) [Tick demo_tick, Tick demo_tick] after_ticks"
    unfolding after_ticks_def
    by (rule agent_run.more [OF agent_step.tick agent_run.more [OF agent_step.tick agent_run.idle]])
      (simp_all add: new_agent_def on_tick_def demo_tick_def chan_try_send_def make_chan_def Let_def)
  from agent_conservation [OF this] show ?thesis by simp
qed

definition stopping :: agent_state where
  "stopping =
     \<lparr>ag_chan = \<lparr>ch_buf = [demo_batch], ch_cap = 1, ch_open = False\<rparr>, ag_collecting = False,
      ag_sender = Receiving, ag_cancelled = True, ag_accepted = [demo_batch], ag_handed = [], ag_dropped = 0\<rparr>"

lemma agent_shutdown_witness:
  "length [Receive] \<le> 2 * length (ch_buf (ag_chan stopping)) + 3"
proof -
  have "agent_run ''h'' (new_agent 1) [Tick demo_tick, Cancel, CollectorStops] stopping"
    by (rule agent_run.more [OF agent_step.tick] agent_run.more [OF agent_step.cancel]
        agent_run.more [OF agent_step.stops] | simp add: new_agent_def on_tick_def chan_try_send_def
        make_chan_def chan_close_def demo_tick_def stopping_def demo_batch_def Let_def agent_run.idle)+
  moreover have "agent_run ''h'' stopping [Receive]
      (stopping\<lparr>ag_chan := \<lparr>ch_buf = [], ch_cap = 1, ch_open = False\<rparr>, ag_sender := Sending demo_batch,
        ag_handed := ag_handed stopping @ [demo_batch]\<rparr>)"
    by (rule agent_run.more [OF agent_step.receive agent_run.idle]) (simp_all add: stopping_def chan_recv_def)
  moreover have "\<not> ag_collecting stopping" by (simp add: stopping_def)
  ultimately show ?thesis using agent_shutdown by blast
qed

end
