(* ===== verification/Level_Parser.thy ===== *)
theory Level_Parser
  imports Model
begin

text \<open>
  Log-level detection, \<open>internal/agent/logtail/parser.go\<close>.  The four regular expressions are
  written as syntax trees and matched by a backtracking matcher that lists the matches in the
  leftmost-first order of Go's \<open>regexp\<close>; a string is matched byte by byte, which agrees with the
  rune-wise matching of Go because every class involved is either ASCII or spelled out in UTF-8.
\<close>

section \<open>Leftmost-first matching\<close>

datatype re =
    Eps
  | Bol
  | Byte "char \<Rightarrow> bool"
  | Str string
  | Seq re re
  | Alt re re
  | Star re
  | Cap re

text \<open>A match state: the offset in the line, the rest of the line and the captured text.\<close>

type_synonym mstate = "nat \<times> string \<times> string"

function (sequential) matches :: "re \<Rightarrow> mstate \<Rightarrow> mstate list" where
  "matches Eps st = [st]"
| "matches Bol (n, s, c) = (if n = 0 then [(n, s, c)] else [])"
| "matches (Byte P) (n, s, c) =
     (case s of [] \<Rightarrow> [] | x # t \<Rightarrow> if P x then [(Suc n, t, c)] else [])"
| "matches (Str w) (n, s, c) =
     (case drop_prefix w s of None \<Rightarrow> [] | Some t \<Rightarrow> [(n + length w, t, c)])"
| "matches (Seq r q) st = concat (map (matches q) (matches r st))"
| "matches (Alt r q) st = matches r st @ matches q st"
| "matches (Star r) st =
     concat (map (matches (Star r))
       (filter (\<lambda>st'. length (fst (snd st')) < length (fst (snd st))) (matches r st))) @ [st]"
| "matches (Cap r) (n, s, c) =
     map (\<lambda>(n', s', _). (n', s', take (n' - n) s)) (matches r (n, s, c))"
  by pat_completeness auto
termination
  by (relation "measures [\<lambda>(r, st). size r, \<lambda>(r, st). length (fst (snd st))]") auto

lemmas matches_star = matches.simps(7)

declare matches.simps(7) [simp del]

abbreviation Plus :: "re \<Rightarrow> re" where
  "Plus r \<equiv> Seq r (Star r)"

abbreviation Optional :: "re \<Rightarrow> re" where
  "Optional r \<equiv> Alt r Eps"

text \<open>\<open>FindStringSubmatch\<close>: the capture of the first match at the leftmost position that has one.\<close>

fun find_submatch :: "re \<Rightarrow> nat \<Rightarrow> string \<Rightarrow> string option" where
  "find_submatch r n [] =
     (case matches r (n, [], []) of (_, _, c) # _ \<Rightarrow> Some c | [] \<Rightarrow> None)"
| "find_submatch r n (x # t) =
     (case matches r (n, x # t, []) of
        (_, _, c) # _ \<Rightarrow> Some c
      | [] \<Rightarrow> find_submatch r (Suc n) t)"

section \<open>The classes, under \<open>(?i)\<close>\<close>

definition is_lower :: "char \<Rightarrow> bool" where
  "is_lower c \<longleftrightarrow> CHR ''a'' \<le> c \<and> c \<le> CHR ''z''"

definition is_letter :: "char \<Rightarrow> bool" where
  "is_letter c \<longleftrightarrow> is_lower (lower_char c)"

definition word_byte :: "char \<Rightarrow> bool" where
  "word_byte c \<longleftrightarrow> is_letter c \<or> is_digit c \<or> c = CHR ''_''"

text \<open>
  \<open>\w\<close>: letters, digits and underscore; case folding adds U+017F and U+212A, which fold to \<open>s\<close> and
  \<open>k\<close>.
\<close>

definition re_word :: re where
  "re_word = Alt (Byte word_byte)
     (Alt (Str [CHR 0xC5, CHR 0xBF]) (Str [CHR 0xE2, CHR 0x84, CHR 0xAA]))"

definition space_byte :: "char \<Rightarrow> bool" where
  "space_byte c \<longleftrightarrow> c \<in> {CHR 0x09, CHR 0x0A, CHR 0x0C, CHR 0x0D, CHR '' ''}"

definition re_space :: re where
  "re_space = Byte space_byte"

definition re_nonspace :: re where
  "re_nonspace = Byte (\<lambda>c. \<not> space_byte c)"

definition re_char :: "char \<Rightarrow> re" where
  "re_char c = Byte (\<lambda>d. d = c)"

text \<open>A lower-case letter under case folding.\<close>

definition re_fold :: "char \<Rightarrow> re" where
  "re_fold c =
     (if c = CHR ''s'' then Alt (Byte (\<lambda>d. lower_char d = c)) (Str [CHR 0xC5, CHR 0xBF])
      else Byte (\<lambda>d. lower_char d = c))"

fun re_folds :: "string \<Rightarrow> re" where
  "re_folds [] = Eps"
| "re_folds (c # w) = Seq (re_fold c) (re_folds w)"

definition timestamp_byte :: "char \<Rightarrow> bool" where
  "timestamp_byte c \<longleftrightarrow>
     is_digit c \<or> space_byte c \<or> c \<in> {CHR ''-'', CHR '':'', CHR ''.''} \<or>
     lower_char c \<in> {CHR ''t'', CHR ''z''}"

section \<open>The expressions of the source\<close>

definition re_json_level :: re where
  "re_json_level =
     Seq (re_char (CHR 0x22)) (Seq (Alt (re_folds ''level'') (re_folds ''severity''))
       (Seq (re_char (CHR 0x22)) (Seq (Star re_space) (Seq (re_char (CHR '':''))
         (Seq (Star re_space) (Seq (re_char (CHR 0x22)) (Seq (Cap (Plus re_word))
           (re_char (CHR 0x22)))))))))"

definition re_bracketed :: re where
  "re_bracketed = Seq (re_char (CHR ''['')) (Seq (Cap (Plus re_word)) (re_char (CHR '']'')))"

definition re_prefixed :: re where
  "re_prefixed =
     Seq Bol (Seq (Optional (Seq (Byte is_digit) (Star (Byte timestamp_byte))))
       (Seq (Star re_space) (Seq (Cap (Plus re_word)) (Seq (Star re_space) (re_char (CHR '':''))))))"

definition re_first_word :: re where
  "re_first_word =
     Seq Bol (Seq (Star re_space) (Seq (Plus re_nonspace) (Seq (Plus re_space) (Cap (Plus re_word)))))"

definition level_norm :: "(string \<times> string) list" where
  "level_norm =
     [(''error'', ''error''), (''err'', ''error''), (''critical'', ''error''), (''fatal'', ''error''),
      (''panic'', ''error''), (''warn'', ''warn''), (''warning'', ''warn''), (''info'', ''info''),
      (''information'', ''info''), (''debug'', ''debug''), (''dbg'', ''debug''), (''trace'', ''debug'')]"

text \<open>The loop of \<open>ParseLevel\<close>: an expression that does not match, or whose capture is no known
  level word, hands over to the next one.\<close>

fun parse_level_with :: "re list \<Rightarrow> string \<Rightarrow> string" where
  "parse_level_with [] line = ''info''"
| "parse_level_with (r # rs) line =
     (case find_submatch r 0 line of
        None \<Rightarrow> parse_level_with rs line
      | Some w \<Rightarrow>
        (case map_of level_norm (to_lower w) of
           Some level \<Rightarrow> level
         | None \<Rightarrow> parse_level_with rs line))"

definition parse_level :: "string \<Rightarrow> string" where
  "parse_level = parse_level_with [re_json_level, re_bracketed, re_prefixed, re_first_word]"

section \<open>Facts about the matcher\<close>

lemma level_norm_range: "map_of level_norm w = Some l \<Longrightarrow> l \<in> set valid_log_levels"
  by (drule map_of_SomeD) (auto simp: level_norm_def valid_log_levels_def)

lemma parse_level_with_valid: "parse_level_with rs line \<in> set valid_log_levels"
proof (induction rs)
  case Nil
  show ?case by (simp add: valid_log_levels_def)
next
  case (Cons r rs)
  then show ?case by (simp add: level_norm_range split: option.split)
qed

lemma parse_level_range: "parse_level line \<in> set valid_log_levels"
  unfolding parse_level_def by (rule parse_level_with_valid)

text \<open>One greedy byte at a time: where each byte of \<open>u\<close> is matched in one way, alone, and what
  follows is not matched, the longest match comes first and the others end inside \<open>u\<close>.\<close>

definition eats :: "re \<Rightarrow> char \<Rightarrow> bool" where
  "eats r x \<longleftrightarrow> (\<forall>n t c. matches r (n, x # t, c) = [(Suc n, t, c)])"

definition stops :: "re \<Rightarrow> string \<Rightarrow> bool" where
  "stops r t \<longleftrightarrow> (\<forall>n c. matches r (n, t, c) = [])"

definition inside :: "string \<Rightarrow> string \<Rightarrow> mstate \<Rightarrow> bool" where
  "inside u t st \<longleftrightarrow> (\<exists>x v. fst (snd st) = x # v @ t \<and> x \<in> set u)"

lemma star_eats:
  assumes "\<forall>x\<in>set u. eats r x" and "stops r t"
  shows "\<exists>ys. matches (Star r) (n, u @ t, c) = (n + length u, t, c) # ys \<and> list_all (inside u t) ys"
  using assms(1)
proof (induction u arbitrary: n)
  case Nil
  then show ?case using assms(2) by (simp add: stops_def matches_star)
next
  case (Cons x u)
  from Cons.prems have "matches r (n, x # u @ t, c) = [(Suc n, u @ t, c)]" by (simp add: eats_def)
  then have step: "matches (Star r) (n, (x # u) @ t, c) =
      matches (Star r) (Suc n, u @ t, c) @ [(n, (x # u) @ t, c)]"
    by (simp add: matches_star [of r "(n, x # u @ t, c)"])
  from Cons obtain ys where ys: "matches (Star r) (Suc n, u @ t, c) = (Suc n + length u, t, c) # ys"
      "list_all (inside u t) ys"
    by (metis list.set_intros(2))
  from ys(2) have "list_all (inside (x # u) t) ys"
    by (auto simp: list_all_iff inside_def)
  moreover have "inside (x # u) t (n, (x # u) @ t, c)" by (simp add: inside_def)
  ultimately show ?case using ys(1) step by simp
qed

lemma plus_eats:
  assumes "u \<noteq> []" "\<forall>x\<in>set u. eats r x" "stops r t"
  shows "\<exists>ys. matches (Plus r) (n, u @ t, c) = (n + length u, t, c) # ys \<and> list_all (inside u t) ys"
proof -
  obtain x v where u: "u = x # v" using assms(1) by (cases u) auto
  with assms star_eats [of v r t "Suc n" c] obtain ys where
    "matches (Star r) (Suc n, v @ t, c) = (Suc n + length v, t, c) # ys" "list_all (inside v t) ys"
    by auto
  moreover from assms(2) u have "matches r (n, x # v @ t, c) = [(Suc n, v @ t, c)]"
    by (simp add: eats_def)
  ultimately show ?thesis using u by (auto simp: list_all_iff inside_def)
qed

text \<open>A capture of \<open>u\<close> followed by something that cannot start inside \<open>u\<close>.\<close>

definition refuses :: "re \<Rightarrow> char \<Rightarrow> bool" where
  "refuses q x \<longleftrightarrow> (\<forall>n t c. matches q (n, x # t, c) = [])"

lemma capture_then:
  assumes "u \<noteq> []" "\<forall>x\<in>set u. eats r x \<and> refuses q x" "stops r t"
  shows "matches (Seq (Cap (Plus r)) q) (n, u @ t, c) = matches q (n + length u, t, u)"
proof -
  obtain ys where ys: "matches (Plus r) (n, u @ t, c) = (n + length u, t, c) # ys"
      "list_all (inside u t) ys"
    using plus_eats [of u r t n c] assms by auto
  have "concat (map (\<lambda>st. matches q (case st of (n', s', _) \<Rightarrow> (n', s', take (n' - n) (u @ t)))) ys) = []"
    using ys(2) assms(2) by (force simp: list_all_iff inside_def refuses_def)
  then show ?thesis using ys(1) by (simp add: comp_def)
qed

lemma seq_head:
  "matches r (n, s, c) = [st] \<Longrightarrow> matches (Seq r q) (n, s, c) = matches q st"
  by simp

section \<open>The classes of the expressions\<close>

lemma word_not_special:
  assumes "word_byte x"
  shows "x \<noteq> CHR 0x22" "x \<noteq> CHR '']''" "x \<noteq> CHR ''[''" "x \<noteq> CHR '':''" "x \<noteq> CHR 0xC5" "x \<noteq> CHR 0xE2"
    "\<not> space_byte x"
  using assms
  by (auto simp: word_byte_def is_letter_def is_lower_def lower_char_def char_eval space_byte_def
      split: if_splits)

lemma not_word_byte [simp]:
  "\<not> word_byte (CHR 0xC5)" "\<not> word_byte (CHR 0xE2)" "\<not> word_byte (CHR 0x22)"
  "\<not> word_byte (CHR '']'')" "\<not> word_byte (CHR '':'')"
  using word_not_special by blast+

lemma word_eats: "word_byte x \<Longrightarrow> eats re_word x"
  by (auto simp: eats_def re_word_def word_not_special)

lemma word_stops: "(\<forall>x u. t = x # u \<longrightarrow> \<not> word_byte x \<and> x \<noteq> CHR 0xC5 \<and> x \<noteq> CHR 0xE2) \<Longrightarrow> stops re_word t"
  by (cases t) (auto simp: stops_def re_word_def)

lemma char_refuses: "x \<noteq> c \<Longrightarrow> refuses (re_char c) x"
  by (simp add: refuses_def re_char_def)

lemma char_match [simp]:
  "matches (re_char c) (n, x # t, d) = (if x = c then [(Suc n, t, d)] else [])"
  by (simp add: re_char_def)

text \<open>The star over a class does nothing where the next byte is outside the class.\<close>

lemma star_skip: "stops r t \<Longrightarrow> matches (Star r) (n, t, c) = [(n, t, c)]"
  by (simp add: stops_def matches_star)

lemma space_stops: "\<not> space_byte x \<Longrightarrow> stops re_space (x # t)"
  by (simp add: stops_def re_space_def)

lemma not_space_byte [simp]: "\<not> space_byte (CHR 0x22)" "\<not> space_byte (CHR '':'')"
  by (simp_all add: space_byte_def)

definition json_level_prefix :: string where
  "json_level_prefix = CHR 0x22 # ''level'' @ [CHR 0x22, CHR '':'', CHR 0x22]"

lemma json_head:
  "matches (Seq (re_char (CHR 0x22)) (Seq (Alt (re_folds ''level'') (re_folds ''severity''))
     (Seq (re_char (CHR 0x22)) (Seq (Star re_space) (Seq (re_char (CHR '':''))
       (Seq (Star re_space) (Seq (re_char (CHR 0x22)) Q)))))))
     (n, json_level_prefix @ s, c) = matches Q (n + 9, s, c)"
  by (simp add: json_level_prefix_def re_fold_def lower_char_def less_eq_char_def star_skip space_stops
      numeral_eq_Suc)

section \<open>Recognised lines\<close>

lemma word_list_eats: "list_all word_byte w \<Longrightarrow> \<forall>x\<in>set w. eats re_word x"
  by (simp add: list_all_iff word_eats)

text \<open>A text in which no level field can begin.\<close>

definition field_start :: "char \<Rightarrow> bool" where
  "field_start y \<longleftrightarrow> lower_char y \<in> {CHR ''l'', CHR ''s''} \<or> y = CHR 0xC5"

fun no_level_field :: "string \<Rightarrow> bool" where
  "no_level_field [] = True"
| "no_level_field (x # s) =
     ((x = CHR 0x22 \<longrightarrow> s \<noteq> [] \<and> \<not> field_start (hd s)) \<and> no_level_field s)"

lemma no_level_match:
  assumes "x \<noteq> CHR 0x22 \<or> (s \<noteq> [] \<and> \<not> field_start (hd s))"
  shows "matches re_json_level (n, x # s, c) = []"
proof (cases "x = CHR 0x22")
  case True
  then obtain y t where "s = y # t" "\<not> field_start y" using assms by (cases s) auto
  moreover from this have "matches (re_fold (CHR ''l'')) (Suc n, y # t, c) = []" "matches (re_fold (CHR ''s'')) (Suc n, y # t, c) = []"
    by (auto simp: field_start_def re_fold_def)
  ultimately show ?thesis using True by (simp add: re_json_level_def)
qed (simp add: re_json_level_def)

lemma find_skip: "no_level_field p \<Longrightarrow> find_submatch re_json_level n (p @ t) = find_submatch re_json_level (n + length p) t"
proof (induction p arbitrary: n)
  case (Cons x p)
  then have "x \<noteq> CHR 0x22 \<or> (p @ t \<noteq> [] \<and> \<not> field_start (hd (p @ t)))" by (cases p) auto
  from no_level_match [OF this, of n "[]"] Cons show ?case by simp
qed simp

lemma find_json_level:
  assumes "no_level_field p" "w \<noteq> []" "list_all word_byte w"
  shows "find_submatch re_json_level n (p @ json_level_prefix @ w @ CHR 0x22 # rest) = Some w"
proof -
  let ?Q = "Seq (Cap (Plus re_word)) (re_char (CHR 0x22))" and ?n = "n + length p"
  let ?s = "w @ CHR 0x22 # rest"
  have "matches ?Q (?n + 9, ?s, []) = [(Suc (?n + 9 + length w), rest, w)]"
    using assms by (subst capture_then) (auto simp: list_all_iff word_eats char_refuses
        word_not_special word_stops)
  then have "matches re_json_level (?n, json_level_prefix @ ?s, []) = [(Suc (?n + 9 + length w), rest, w)]"
    by (simp only: re_json_level_def json_head)
  moreover obtain y where "json_level_prefix @ ?s = CHR 0x22 # y"
    by (simp add: json_level_prefix_def)
  ultimately show ?thesis by (simp add: find_skip [OF assms(1)])
qed

lemma parse_json_level:
  assumes "no_level_field p" "list_all word_byte w" "map_of level_norm (to_lower w) = Some l"
  shows "parse_level (p @ json_level_prefix @ w @ CHR 0x22 # rest) = l"
proof -
  have "w \<noteq> []" using assms(3) by (auto simp: level_norm_def)
  from find_json_level [OF assms(1) this assms(2)] assms(3) show ?thesis
    by (simp add: parse_level_def del: find_submatch.simps)
qed

lemma find_none:
  assumes "\<And>n s c. s = [] \<or> x \<noteq> hd s \<Longrightarrow> matches r (n, s, c) = []" and "x \<notin> set s"
  shows "find_submatch r n s = None"
  using assms(2) by (induction s arbitrary: n) (simp_all add: assms(1))

lemma no_quote_no_json: "CHR 0x22 \<notin> set s \<Longrightarrow> find_submatch re_json_level n s = None"
  by (rule find_none [where x = "CHR 0x22"])
    (auto simp: re_json_level_def re_char_def split: list.splits)

lemma find_bracketed:
  assumes "w \<noteq> []" "list_all word_byte w"
  shows "find_submatch re_bracketed 0 (CHR ''['' # w @ CHR '']'' # rest) = Some w"
proof -
  let ?Q = "Seq (Cap (Plus re_word)) (re_char (CHR '']''))"
  let ?s = "w @ CHR '']'' # rest"
  have "matches ?Q (1, ?s, []) = [(Suc (1 + length w), rest, w)]"
    using assms by (subst capture_then) (auto simp: list_all_iff word_eats char_refuses
        word_not_special word_stops)
  moreover have "matches re_bracketed (0, CHR ''['' # ?s, []) = matches ?Q (1, ?s, [])"
    unfolding re_bracketed_def by (rule seq_head) simp
  ultimately show ?thesis by simp
qed

lemma parse_bracketed:
  assumes "list_all word_byte w" "map_of level_norm (to_lower w) = Some l"
    and "CHR 0x22 \<notin> set rest"
  shows "parse_level (CHR ''['' # w @ CHR '']'' # rest) = l"
proof -
  have w: "w \<noteq> []" using assms(2) by (auto simp: level_norm_def)
  have "CHR 0x22 \<notin> set (CHR ''['' # w @ CHR '']'' # rest)"
    using assms(1,3) by (auto simp: list_all_iff)
  from no_quote_no_json [OF this] find_bracketed [OF w assms(1)] assms(2) show ?thesis
    by (simp add: parse_level_def del: find_submatch.simps)
qed

text \<open>
  Every line has one of the four levels the server accepts, whatever the bytes of the line.
\<close>

theorem parse_level_valid: "parse_level line \<in> set valid_log_levels"
  by (rule parse_level_range)

text \<open>
  C40. A structured line gets the level of its first JSON field \<open>"level":"w"\<close>, in any capitalisation,
  whatever stands before it that is not such a field and whatever follows it.
\<close>

theorem json_line_level:
  assumes "no_level_field p" and "list_all word_byte w" and "map_of level_norm (to_lower w) = Some l"
  shows "parse_level (p @ json_level_prefix @ w @ CHR 0x22 # rest) = l"
  using assms by (rule parse_json_level)

lemma json_line_level_witness:
  "parse_level (''{[WARN] '' @ json_level_prefix @ ''Fatal'' @ CHR 0x22 # '',m:[INFO]'') = ''error''"
  by (rule json_line_level) code_simp+

text \<open>
  A line that starts with a bracketed level word and has no double quote gets that level, even
  where other level words follow.
\<close>

theorem bracketed_line_level:
  assumes "list_all word_byte w" and "map_of level_norm (to_lower w) = Some l"
    and "CHR 0x22 \<notin> set rest"
  shows "parse_level (CHR ''['' # w @ CHR '']'' # rest) = l"
  using assms by (rule parse_bracketed)

lemma bracketed_line_level_witness:
  "parse_level (CHR ''['' # ''Warning'' @ CHR '']'' # '' level=error'') = ''warn''"
  by (rule bracketed_line_level) code_simp+

text \<open>
  The first bracketed word hides the rest of the line: when it is no level word, a level in a later
  bracket is not looked for.
\<close>

lemma first_bracket_hides: "parse_level ''[main] [ERROR] disk failure'' = ''info''"
  by code_simp

end
