(* ===== verification/Tailer.thy ===== *)
theory Tailer
  imports Level_Parser Send_Loop
begin

text \<open>
  The log tailer, \<open>internal/agent/logtail/tailer.go\<close>.  The file system and the fsnotify watcher are a
  record of what the calls return at the moment they are made; open files are handles of any type.
  \<open>bufio.Scanner\<close> with its 64 KiB buffer is modelled on the bytes from the offset to the end of file.
\<close>

section \<open>Scanning lines\<close>

definition newline_byte :: char where
  "newline_byte = CHR 0x0A"

text \<open>\<open>bufio.ScanLines\<close> drops one carriage return.\<close>

definition drop_cr :: "string \<Rightarrow> string" where
  "drop_cr line = (if line \<noteq> [] \<and> last line = CHR 0x0D then butlast line else line)"

definition scan_buf_size :: nat where
  "scan_buf_size = 64 * 1024"

text \<open>
  The tokens of the scanner: a line that fills the buffer without its newline ends the scan
  (\<open>ErrTooLong\<close>), and what follows is not seen.
\<close>

function scan_lines :: "string \<Rightarrow> string list" where
  "scan_lines [] = []"
| "scan_lines (c # s) =
     (let line = takeWhile (\<lambda>d. d \<noteq> newline_byte) (c # s);
          rest = dropWhile (\<lambda>d. d \<noteq> newline_byte) (c # s)
      in if length line \<ge> scan_buf_size then []
         else drop_cr line # scan_lines (drop 1 rest))"
  by pat_completeness auto
termination
proof (relation "measure length")
  fix c s and rest :: string
  assume "rest = dropWhile (\<lambda>d. d \<noteq> newline_byte) (c # s)"
  then have "length rest \<le> length (c # s)" by (simp only: length_dropWhile_le)
  then show "(drop 1 rest, c # s) \<in> measure length" by simp
qed simp

declare scan_lines.simps(2) [simp del]

section \<open>State and environment\<close>

definition max_line_bytes :: nat where
  "max_line_bytes = 4096"

definition max_batch_size :: nat where
  "max_batch_size = 1000"

record 'h tailer =
  tl_paths :: "string list"
  tl_host :: string
  tl_offsets :: "string \<rightharpoonup> int"
  tl_files :: "string \<rightharpoonup> 'h"
  tl_watched :: "string set" \<comment> \<open>the watches of \<open>watcher\<close>\<close>

record ('h, 'e) fs_view =
  fs_open :: "string \<Rightarrow> ('e, 'h) result"
  fs_size :: "'h \<Rightarrow> ('e, int) result"
  fs_seek :: "'h \<Rightarrow> int \<Rightarrow> 'e err"
  fs_read :: "'h \<Rightarrow> int \<Rightarrow> string" \<comment> \<open>the bytes from an offset to the end\<close>
  fs_watch :: "string \<Rightarrow> 'e err"
  fs_now :: gotime

text \<open>A missing key of the map reads as zero.\<close>

definition offset_of :: "'h tailer \<Rightarrow> string \<Rightarrow> int" where
  "offset_of t path = (case tl_offsets t path of Some n \<Rightarrow> n | None \<Rightarrow> 0)"

definition set_offset :: "string \<Rightarrow> int \<Rightarrow> 'h tailer \<Rightarrow> 'h tailer" where
  "set_offset path n t = t\<lparr>tl_offsets := (tl_offsets t)(path \<mapsto> n)\<rparr>"

text \<open>\<open>watcher.Add\<close>, whose error is returned.\<close>

definition add_watch :: "('h, 'e) fs_view \<Rightarrow> string \<Rightarrow> 'h tailer \<Rightarrow> 'e err \<times> 'h tailer" where
  "add_watch fs path t =
     (case fs_watch fs path of
        Some e \<Rightarrow> (Some e, t)
      | None \<Rightarrow> (None, t\<lparr>tl_watched := insert path (tl_watched t)\<rparr>))"

section \<open>Operations\<close>

definition close_path :: "string \<Rightarrow> 'h tailer \<Rightarrow> 'h tailer" where
  "close_path path t = (if tl_files t path \<noteq> None then t\<lparr>tl_files := (tl_files t)(path := None)\<rparr> else t)"

definition open_and_seek_eof :: "('h, 'e) fs_view \<Rightarrow> string \<Rightarrow> 'h tailer \<Rightarrow> 'e err \<times> 'h tailer" where
  "open_and_seek_eof fs path t =
     (case fs_open fs path of
        Inl e \<Rightarrow> (Some e, t)
      | Inr f \<Rightarrow>
        (case fs_size fs f of
           Inl e \<Rightarrow> (Some e, t)
         | Inr n \<Rightarrow> (None, set_offset path n (t\<lparr>tl_files := (tl_files t)(path \<mapsto> f)\<rparr>))))"

fun open_paths :: "('h, 'e) fs_view \<Rightarrow> string list \<Rightarrow> 'h tailer \<Rightarrow> 'h tailer" where
  "open_paths fs [] t = t"
| "open_paths fs (p # ps) t =
     (case open_and_seek_eof fs p t of
        (Some e, t1) \<Rightarrow> open_paths fs ps t1
      | (None, t1) \<Rightarrow>
        (case add_watch fs p t1 of
           (Some e, t2) \<Rightarrow> open_paths fs ps (close_path p t2)
         | (None, t2) \<Rightarrow> open_paths fs ps t2))"

text \<open>\<open>watcher\<close> is the error of \<open>fsnotify.NewWatcher\<close>.\<close>

definition new_tailer ::
  "'e err \<Rightarrow> ('h, 'e) fs_view \<Rightarrow> string list \<Rightarrow> string \<Rightarrow> ('e, 'h tailer) result" where
  "new_tailer watcher fs paths host =
     (case watcher of
        Some e \<Rightarrow> Inl e
      | None \<Rightarrow>
        Inr (open_paths fs paths
          \<lparr>tl_paths = paths, tl_host = host, tl_offsets = Map.empty, tl_files = Map.empty, tl_watched = {}\<rparr>))"

definition line_entry :: "gotime \<Rightarrow> string \<Rightarrow> string \<Rightarrow> string \<Rightarrow> log_entry" where
  "line_entry now host path line =
     (let l = (if length line > max_line_bytes then take max_line_bytes line else line)
      in \<lparr>e_time = now, e_host = host, e_path = path, e_level = parse_level l, e_message = l\<rparr>)"

definition line_entries :: "gotime \<Rightarrow> string \<Rightarrow> string \<Rightarrow> string list \<Rightarrow> log_entry list" where
  "line_entries now host path ls =
     map (line_entry now host path) (filter (\<lambda>line. trim_space line \<noteq> []) ls)"

text \<open>The part of \<open>readNewLines\<close> after the file is open.\<close>

definition read_handle :: "('h, 'e) fs_view \<Rightarrow> string \<Rightarrow> 'h \<Rightarrow> 'h tailer \<Rightarrow> log_entry list \<times> 'h tailer" where
  "read_handle fs path f t =
     (case fs_size fs f of
        Inl e \<Rightarrow> ([], t)
      | Inr cur_size \<Rightarrow>
        let t1 = (if cur_size < offset_of t path then set_offset path 0 t else t)
        in if cur_size = offset_of t1 path then ([], t1)
           else (case fs_seek fs f (offset_of t1 path) of
             Some e \<Rightarrow> ([], t1)
           | None \<Rightarrow>
             (line_entries (fs_now fs) (tl_host t) path (scan_lines (fs_read fs f (offset_of t1 path))),
              set_offset path cur_size t1)))"

definition read_new_lines :: "('h, 'e) fs_view \<Rightarrow> string \<Rightarrow> 'h tailer \<Rightarrow> log_entry list \<times> 'h tailer" where
  "read_new_lines fs path t =
     (case tl_files t path of
        Some f \<Rightarrow> read_handle fs path f t
      | None \<Rightarrow>
        (case fs_open fs path of
           Inl e \<Rightarrow> ([], t)
         | Inr f \<Rightarrow> read_handle fs path f (t\<lparr>tl_files := (tl_files t)(path \<mapsto> f)\<rparr>)))"

text \<open>
  \<open>sendChunked\<close>: the batches handed to \<open>SendLogs\<close>.  \<open>deliver n\<close> is the result of call number \<open>n\<close>,
  \<open>cancelled n\<close> whether the context is cancelled after it.
\<close>

function send_chunks ::
  "string \<Rightarrow> (nat \<Rightarrow> log_batch \<Rightarrow> 'e err) \<Rightarrow> (nat \<Rightarrow> bool) \<Rightarrow> nat \<Rightarrow> log_entry list \<Rightarrow> log_batch list" where
  "send_chunks host deliver cancelled n entries =
     (if entries = [] then []
      else let batch = \<lparr>lb_host = host, lb_entries = take max_batch_size entries\<rparr>
           in if deliver n batch \<noteq> None \<and> cancelled n then [batch]
              else batch # send_chunks host deliver cancelled (Suc n) (drop max_batch_size entries))"
  by pat_completeness auto
termination
  by (relation "measure (\<lambda>(_, _, _, _, entries). length entries)") (auto simp: max_batch_size_def)

declare send_chunks.simps [simp del]

definition send_chunked ::
  "string \<Rightarrow> (nat \<Rightarrow> log_batch \<Rightarrow> 'e err) \<Rightarrow> (nat \<Rightarrow> bool) \<Rightarrow> log_entry list \<Rightarrow> log_batch list" where
  "send_chunked host deliver cancelled entries =
     (if length entries = 0 then [] else send_chunks host deliver cancelled 0 entries)"

text \<open>An event has a set of operations; the first case that applies is taken.\<close>

datatype fs_op = OpCreate | OpWrite | OpRemove | OpRename | OpChmod

record fs_event =
  fe_name :: string
  fe_ops :: "fs_op list"

definition has_op :: "fs_event \<Rightarrow> fs_op \<Rightarrow> bool" where
  "has_op ev op = list_ex (\<lambda>x. x = op) (fe_ops ev)"

text \<open>The entries \<open>handleEvent\<close> passes to \<open>sendChunked\<close>, and the new state.\<close>

definition handle_event :: "('h, 'e) fs_view \<Rightarrow> fs_event \<Rightarrow> 'h tailer \<Rightarrow> log_entry list \<times> 'h tailer" where
  "handle_event fs ev t =
     (let path = fe_name ev
      in if has_op ev OpWrite then read_new_lines fs path t
         else if has_op ev OpRename \<or> has_op ev OpRemove
         then ([], set_offset path 0 (close_path path t))
         else if has_op ev OpCreate
         then (case open_and_seek_eof fs path (close_path path t) of
                 (Some e, t1) \<Rightarrow> ([], t1)
               | (None, t1) \<Rightarrow> ([], snd (add_watch fs path (set_offset path 0 t1))))
         else ([], t))"

fun handle_events :: "(('h, 'e) fs_view \<times> fs_event) list \<Rightarrow> 'h tailer \<Rightarrow> log_entry list \<times> 'h tailer" where
  "handle_events [] t = ([], t)"
| "handle_events ((fs, ev) # evs) t =
     (let (es, t1) = handle_event fs ev t; (es', t2) = handle_events evs t1 in (es @ es', t2))"

text \<open>The handles \<open>closeAll\<close> closes, in the iteration order of the map.\<close>

definition close_all :: "string list \<Rightarrow> 'h tailer \<Rightarrow> 'h list" where
  "close_all order t = List.map_filter (tl_files t) order"

section \<open>Chunks\<close>

lemma send_chunks_prefix:
  "\<exists>rest. entries = concat (map lb_entries (send_chunks host deliver cancelled n entries)) @ rest"
proof (induction host deliver cancelled n entries rule: send_chunks.induct)
  case (1 host deliver cancelled n entries)
  show ?case
  proof (cases "entries = []")
    case False
    let ?b = "\<lparr>lb_host = host, lb_entries = take max_batch_size entries\<rparr>"
    show ?thesis
    proof (cases "deliver n ?b \<noteq> None \<and> cancelled n")
      case True
      then show ?thesis
        by (subst send_chunks.simps) (auto simp: Let_def False intro: exI [of _ "drop max_batch_size entries"])
    next
      case go: False
      from 1 [OF False refl go] obtain rest where
        "drop max_batch_size entries = concat (map lb_entries
           (send_chunks host deliver cancelled (Suc n) (drop max_batch_size entries))) @ rest" by blast
      then have "entries = take max_batch_size entries @ concat (map lb_entries
           (send_chunks host deliver cancelled (Suc n) (drop max_batch_size entries))) @ rest"
        by (metis append_take_drop_id)
      with False go show ?thesis by (subst send_chunks.simps) (auto simp: Let_def)
    qed
  qed (simp add: send_chunks.simps)
qed

lemma send_chunks_sizes:
  "b \<in> set (send_chunks host deliver cancelled n entries) \<Longrightarrow>
     lb_host b = host \<and> lb_entries b \<noteq> [] \<and> length (lb_entries b) \<le> 1000 \<and> set (lb_entries b) \<subseteq> set entries"
proof (induction host deliver cancelled n entries rule: send_chunks.induct)
  case (1 host deliver cancelled n entries)
  show ?case
  proof (cases "entries = []")
    case False
    let ?b = "\<lparr>lb_host = host, lb_entries = take max_batch_size entries\<rparr>"
    have b: "lb_entries ?b \<noteq> [] \<and> length (lb_entries ?b) \<le> 1000 \<and> set (lb_entries ?b) \<subseteq> set entries"
      using False by (auto simp: max_batch_size_def dest: in_set_takeD)
    show ?thesis
    proof (cases "b = ?b")
      case True
      with b show ?thesis by simp
    next
      case rest: False
      with 1(2) False have go: "\<not> (deliver n ?b \<noteq> None \<and> cancelled n)"
        and mem: "b \<in> set (send_chunks host deliver cancelled (Suc n) (drop max_batch_size entries))"
        by (subst (asm) send_chunks.simps, auto simp: Let_def split: if_splits)+
      from 1(1) [OF False refl go mem] show ?thesis by (meson in_set_dropD subset_iff)
    qed
  qed (use 1(2) in \<open>simp add: send_chunks.simps\<close>)
qed

lemma send_chunks_all:
  "concat (map lb_entries (send_chunks host deliver (\<lambda>_. False) n entries)) = entries"
proof (induction entries arbitrary: n rule: length_induct)
  case (1 entries)
  show ?case
  proof (cases "entries = []")
    case True
    then show ?thesis by (simp add: send_chunks.simps)
  next
    case False
    then have "length (drop max_batch_size entries) < length entries" by (simp add: max_batch_size_def)
    with 1 False show ?thesis by (subst send_chunks.simps) (simp add: Let_def)
  qed
qed

lemma send_chunked_sizes:
  "b \<in> set (send_chunked host deliver cancelled entries) \<Longrightarrow>
     lb_host b = host \<and> lb_entries b \<noteq> [] \<and> length (lb_entries b) \<le> 1000 \<and> set (lb_entries b) \<subseteq> set entries"
  using send_chunks_sizes [of b host deliver cancelled 0 entries] by (simp add: send_chunked_def split: if_splits)

lemma send_chunked_all: "concat (map lb_entries (send_chunked host deliver (\<lambda>_. False) entries)) = entries"
  by (simp add: send_chunked_def send_chunks_all)

text \<open>
  The entries of an event are sent in order, in batches of one to a thousand under the tailer's
  host: what was handed to the sender is always a beginning of the entries, and all of them as long as
  the context is not cancelled, whichever batches fail.
\<close>

lemma chunks_cover:
  "(\<exists>rest. entries = concat (map lb_entries (send_chunked host deliver cancelled entries)) @ rest) \<and>
   (\<forall>b\<in>set (send_chunked host deliver cancelled entries).
      lb_host b = host \<and> lb_entries b \<noteq> [] \<and> length (lb_entries b) \<le> 1000) \<and>
   ((\<forall>m. \<not> cancelled m) \<longrightarrow> concat (map lb_entries (send_chunked host deliver cancelled entries)) = entries)"
proof -
  have "concat (map lb_entries (send_chunks host deliver cancelled 0 entries)) = entries" if "\<forall>m. \<not> cancelled m"
  proof -
    from that have "cancelled = (\<lambda>_. False)" by (simp add: fun_eq_iff)
    then show ?thesis by (simp only: send_chunks_all)
  qed
  then show ?thesis
    using send_chunks_prefix [of entries host deliver cancelled 0]
      send_chunked_sizes [of _ host deliver cancelled entries]
    by (auto simp: send_chunked_def)
qed

section \<open>Lines\<close>

definition short_lines :: "string \<Rightarrow> bool" where
  "short_lines s \<longleftrightarrow> (\<forall>w\<in>set (split_on newline_byte s). length w < scan_buf_size)"

lemma split_on_first: "c \<notin> set u \<Longrightarrow> split_on c (u @ c # v) = u # split_on c v"
  by (induction u) auto

lemma split_on_none: "c \<notin> set s \<Longrightarrow> split_on c s = [s]"
  by (induction s) auto

lemma takeWhile_line: "newline_byte \<notin> set u \<Longrightarrow> takeWhile (\<lambda>d. d \<noteq> newline_byte) (u @ newline_byte # r) = u"
  by (induction u) auto

lemma dropWhile_line:
  "newline_byte \<notin> set u \<Longrightarrow> dropWhile (\<lambda>d. d \<noteq> newline_byte) (u @ newline_byte # r) = newline_byte # r"
  by (induction u) auto

lemma scan_line:
  assumes "newline_byte \<notin> set u" "length u < scan_buf_size"
  shows "scan_lines (u @ newline_byte # r) = drop_cr u # scan_lines r"
proof -
  obtain c s where cs: "u @ newline_byte # r = c # s" by (cases u) auto
  show ?thesis
    using takeWhile_line [OF assms(1), of r] dropWhile_line [OF assms(1), of r] assms(2)
    by (simp only: cs scan_lines.simps(2) Let_def) simp
qed

lemma scan_last:
  assumes "u \<noteq> []" "newline_byte \<notin> set u" "length u < scan_buf_size"
  shows "scan_lines u = [drop_cr u]"
proof -
  obtain c s where cs: "u = c # s" using assms(1) by (cases u) auto
  have "takeWhile (\<lambda>d. d \<noteq> newline_byte) u = u" "dropWhile (\<lambda>d. d \<noteq> newline_byte) u = []"
    using assms(2) by (auto simp: takeWhile_eq_all_conv dropWhile_eq_Nil_conv)
  with assms(3) show ?thesis by (simp only: cs scan_lines.simps(2) Let_def) simp
qed

text \<open>Text that ends with a newline, or is empty.\<close>

definition whole_lines :: "string \<Rightarrow> bool" where
  "whole_lines s \<longleftrightarrow> s = [] \<or> last s = newline_byte"

lemma whole_linesE:
  assumes "whole_lines s" "s \<noteq> []"
  obtains u r where "s = u @ newline_byte # r" "newline_byte \<notin> set u" "whole_lines r"
proof -
  have "newline_byte \<in> set s" using assms last_in_set [of s] by (auto simp: whole_lines_def)
  then obtain u r where s: "s = u @ newline_byte # r" "newline_byte \<notin> set u" by (meson split_list_first)
  then have "whole_lines r" using assms by (auto simp: whole_lines_def split: if_splits)
  with s that show thesis by blast
qed

lemma short_lines_cons:
  "newline_byte \<notin> set u \<Longrightarrow> short_lines (u @ newline_byte # r) \<longleftrightarrow> length u < scan_buf_size \<and> short_lines r"
  by (simp add: short_lines_def split_on_first)

lemma scan_lines_append:
  "whole_lines a \<Longrightarrow> short_lines a \<Longrightarrow> scan_lines (a @ b) = scan_lines a @ scan_lines b"
proof (induction a rule: length_induct)
  case (1 a)
  show ?case
  proof (cases "a = []")
    case False
    from whole_linesE [OF 1(2) False] obtain u r where
      a: "a = u @ newline_byte # r" "newline_byte \<notin> set u" "whole_lines r" by blast
    with 1 have "length u < scan_buf_size" "short_lines r" by (simp_all add: short_lines_cons)
    moreover from this a 1(1) have "scan_lines (r @ b) = scan_lines r @ scan_lines b" by simp
    ultimately show ?thesis using a by (simp add: scan_line)
  qed simp
qed

lemma scan_lines_length: "line \<in> set (scan_lines s) \<Longrightarrow> length line \<le> length s"
proof (induction s rule: scan_lines.induct)
  case (2 c s)
  let ?l = "takeWhile (\<lambda>d. d \<noteq> newline_byte) (c # s)" and ?r = "dropWhile (\<lambda>d. d \<noteq> newline_byte) (c # s)"
  have l: "length (drop_cr ?l) \<le> length (c # s)"
    using length_takeWhile_le [of "\<lambda>d. d \<noteq> newline_byte" "c # s"] by (auto simp: drop_cr_def)
  have r: "length (drop 1 ?r) \<le> length (c # s)"
    using length_dropWhile_le [of "\<lambda>d. d \<noteq> newline_byte" "c # s"] by (simp only: length_drop)
  have "line \<in> set (if length ?l \<ge> scan_buf_size then [] else drop_cr ?l # scan_lines (drop 1 ?r))"
    using 2(2) by (simp only: scan_lines.simps(2) Let_def)
  then consider "line = drop_cr ?l" | "\<not> length ?l \<ge> scan_buf_size" "line \<in> set (scan_lines (drop 1 ?r))"
    by (auto split: if_splits)
  then show ?case
  proof cases
    case 2
    with "2.IH" r show ?thesis by (meson order_trans)
  qed (use l in simp)
qed simp

section \<open>Reading a growing file\<close>

text \<open>The messages made of a text read at once.\<close>

definition shipped_lines :: "string \<Rightarrow> string list" where
  "shipped_lines s = map (take 4096) (filter (\<lambda>line. trim_space line \<noteq> []) (scan_lines s))"

lemma line_entry_message: "e_message (line_entry now host path line) = take 4096 line"
  by (simp add: line_entry_def max_line_bytes_def Let_def)

lemma line_entries_messages: "map e_message (line_entries now host path (scan_lines s)) = shipped_lines s"
  by (simp add: line_entries_def shipped_lines_def line_entry_message comp_def)

lemma shipped_lines_append:
  "whole_lines a \<Longrightarrow> short_lines a \<Longrightarrow> shipped_lines (a @ b) = shipped_lines a @ shipped_lines b"
  by (simp add: shipped_lines_def scan_lines_append)

text \<open>
  Write events on a file whose handle is open and to which the chunks \<open>cs\<close> are appended, one before
  each event, and nothing between the call of \<open>Stat\<close> and the end of the scan.
\<close>

fun appends :: "string \<Rightarrow> 'h \<Rightarrow> string \<Rightarrow> string list \<Rightarrow> (('h, 'e) fs_view \<times> fs_event) list \<Rightarrow> bool" where
  "appends path f content [] evs \<longleftrightarrow> evs = []"
| "appends path f content (c # cs) evs \<longleftrightarrow>
     (case evs of
        [] \<Rightarrow> False
      | (fs, ev) # evs' \<Rightarrow>
        fe_name ev = path \<and> has_op ev OpWrite \<and> fs_size fs f = Inr (int (length (content @ c))) \<and>
        fs_seek fs f (int (length content)) = None \<and> fs_read fs f (int (length content)) = c \<and>
        appends path f (content @ c) cs evs')"

lemma read_appended:
  assumes "tl_files t path = Some f" "offset_of t path = int (length content)"
    and "fs_size fs f = Inr (int (length (content @ c)))" "fs_seek fs f (int (length content)) = None"
    and "fs_read fs f (int (length content)) = c" and "read_new_lines fs path t = (es, t')"
  shows "map e_message es = shipped_lines c \<and> tl_files t' path = Some f \<and>
    offset_of t' path = int (length (content @ c))"
proof (cases "c = []")
  case True
  with assms show ?thesis by (auto simp: read_new_lines_def read_handle_def shipped_lines_def)
next
  case False
  with assms show ?thesis
    by (auto simp: read_new_lines_def read_handle_def line_entries_messages set_offset_def offset_of_def)
qed

lemma read_appends:
  "appends path f content cs evs \<Longrightarrow> tl_files t path = Some f \<Longrightarrow> offset_of t path = int (length content) \<Longrightarrow>
     handle_events evs t = (es, t') \<Longrightarrow>
     map e_message es = concat (map shipped_lines cs) \<and> offset_of t' path = int (length (content @ concat cs))"
proof (induction cs arbitrary: content evs t es t')
  case (Cons c cs)
  then obtain fs ev evs' where evs: "evs = (fs, ev) # evs'" by (auto split: list.splits)
  obtain es1 t1 where 1: "read_new_lines fs path t = (es1, t1)" by fastforce
  obtain es2 t2 where 2: "handle_events evs' t1 = (es2, t2)" by fastforce
  have h: "handle_event fs ev t = (es1, t1)" using Cons.prems(1) evs 1 by (auto simp: handle_event_def)
  have r: "map e_message es1 = shipped_lines c \<and> tl_files t1 path = Some f \<and>
      offset_of t1 path = int (length (content @ c))"
    using Cons.prems(1) evs by (intro read_appended [OF Cons.prems(2,3) _ _ _ 1]) auto
  then have "map e_message es2 = concat (map shipped_lines cs) \<and>
      offset_of t2 path = int (length ((content @ c) @ concat cs))"
    using Cons.IH [of "content @ c" evs' t1 es2 t2] Cons.prems(1) evs 2 by auto
  with r Cons.prems(4) evs h 2 show ?case by auto
qed auto

lemma shipped_lines_concat:
  "\<forall>c\<in>set cs. whole_lines c \<and> short_lines c \<Longrightarrow> shipped_lines (concat cs) = concat (map shipped_lines cs)"
  by (induction cs) (auto simp: shipped_lines_append, simp add: shipped_lines_def)

text \<open>
  C4. No line is lost or shipped twice: when whole lines are appended to a followed file, in any number
  of pieces, one before each write event, the messages of all the entries are the lines of everything
  appended, in order, blank lines left out and long ones cut at 4096 bytes, and the offset ends at the
  end of the file.
\<close>

theorem appended_lines_once:
  assumes "appends path f content cs evs" and "tl_files t path = Some f"
    and "offset_of t path = int (length content)" and "\<forall>c\<in>set cs. whole_lines c \<and> short_lines c"
    and "handle_events evs t = (es, t')"
  shows "map e_message es = shipped_lines (concat cs) \<and>
    offset_of t' path = int (length (content @ concat cs))"
  using read_appends [OF assms(1-3,5)] shipped_lines_concat [OF assms(4)] by simp

text \<open>
  C36. A line is shipped as soon as any part of it is in the file: a line that is written in two pieces,
  with a write event after each, becomes two entries, each with a level of its own.
\<close>

theorem partial_line_split:
  assumes "appends path f content [u, v @ [newline_byte]] evs" and "tl_files t path = Some f"
    and "offset_of t path = int (length content)" and "handle_events evs t = (es, t')"
    and "\<forall>w\<in>{u, v}. newline_byte \<notin> set w \<and> drop_cr w = w \<and> trim_space w \<noteq> [] \<and> length w \<le> 4096"
  shows "map e_message es = [u, v]"
proof -
  have "u \<noteq> []" using assms(5) trim_space_Nil by blast
  then have "shipped_lines u = [u]" and "shipped_lines (v @ [newline_byte]) = [v]"
    using assms(5) scan_last [of u] scan_line [of v "[]"]
    by (auto simp: shipped_lines_def scan_buf_size_def)
  with read_appends [OF assms(1-4)] show ?thesis by simp
qed

section \<open>The host of a tailer\<close>

lemma open_and_seek_host [simp]: "tl_host (snd (open_and_seek_eof fs path t)) = tl_host t"
  by (simp add: open_and_seek_eof_def set_offset_def split: sum.split)

lemma close_path_host [simp]: "tl_host (close_path path t) = tl_host t"
  by (simp add: close_path_def)

lemma add_watch_host [simp]: "tl_host (snd (add_watch fs path t)) = tl_host t"
  by (simp add: add_watch_def split: option.split)

lemma open_paths_host: "tl_host (open_paths fs ps t) = tl_host t"
proof (induction ps arbitrary: t)
  case (Cons p ps)
  obtain e t1 where o: "open_and_seek_eof fs p t = (e, t1)" by fastforce
  with open_and_seek_host [of fs p t] have "tl_host t1 = tl_host t" by simp
  moreover obtain e' t2 where "add_watch fs p t1 = (e', t2)" by fastforce
  moreover from this add_watch_host [of fs p t1] have "tl_host t2 = tl_host t1" by simp
  ultimately show ?case using Cons o by (simp split: option.split)
qed simp

lemma read_handle_host [simp]: "tl_host (snd (read_handle fs path f t)) = tl_host t"
  by (simp add: read_handle_def set_offset_def Let_def split: sum.split option.split)

lemma handle_event_host: "handle_event fs ev t = (es, t') \<Longrightarrow> tl_host t' = tl_host t"
proof -
  have c: "open_and_seek_eof fs path (close_path path t) = (e, t1) \<Longrightarrow> tl_host t1 = tl_host t" for path e t1
    using open_and_seek_host [of fs path "close_path path t"] by simp
  have r: "read_new_lines fs path t = (es, t1) \<Longrightarrow> tl_host t1 = tl_host t" for path es t1
  proof -
    assume "read_new_lines fs path t = (es, t1)"
    then have "t1 = snd (read_new_lines fs path t)" by simp
    then show "tl_host t1 = tl_host t" by (simp add: read_new_lines_def split: option.split sum.split)
  qed
  show "handle_event fs ev t = (es, t') \<Longrightarrow> tl_host t' = tl_host t"
    using c r by (auto simp: handle_event_def set_offset_def Let_def split: if_splits prod.splits option.splits)
qed

lemma handle_events_host: "handle_events evs t = (es, t') \<Longrightarrow> tl_host t' = tl_host t"
proof (induction evs arbitrary: t es t')
  case (Cons x evs)
  obtain fs ev where x: "x = (fs, ev)" by (cases x)
  obtain es1 t1 where 1: "handle_event fs ev t = (es1, t1)" by fastforce
  obtain es2 t2 where 2: "handle_events evs t1 = (es2, t2)" by fastforce
  from Cons.IH [OF 2] handle_event_host [OF 1] Cons.prems show ?case by (simp add: x 1 2)
qed simp

lemma new_tailer_host: "new_tailer watcher fs paths host = Inr t \<Longrightarrow> tl_host t = host"
  by (auto simp: new_tailer_def open_paths_host split: option.splits)

section \<open>What the server makes of it\<close>

lemma line_entry_ok:
  assumes "trim_space host \<noteq> []" "now \<noteq> zero_time" "trim_space line \<noteq> []" "length line \<le> 4096"
  shows "log_entry_ok (line_entry now host path line)"
  using assms by (simp add: log_entry_ok_def line_entry_def max_line_bytes_def parse_level_range)

lemma handle_event_entries:
  "handle_event fs ev t = (es, t') \<Longrightarrow>
     es = [] \<or> (\<exists>f n. es = line_entries (fs_now fs) (tl_host t) (fe_name ev) (scan_lines (fs_read fs f n)))"
  by (auto simp: handle_event_def read_new_lines_def read_handle_def set_offset_def Let_def
      split: if_splits option.splits sum.splits prod.splits)

text \<open>
  As long as no line is longer than 4096 bytes, every batch that an event makes the tailer send
  passes the server's validation, whatever the bytes of the lines, under a host that is not blank.
\<close>

lemma tailed_batches_accepted:
  assumes "handle_event fs ev t = (es, t')" and "trim_space (tl_host t) \<noteq> []" and "fs_now fs \<noteq> zero_time"
    and "\<And>f n line. line \<in> set (scan_lines (fs_read fs f n)) \<Longrightarrow> length line \<le> 4096"
    and "b \<in> set (send_chunked (tl_host t) deliver cancelled es)"
  shows "log_batch_validate b = None"
proof -
  have "\<forall>e\<in>set es. log_entry_ok e"
    using handle_event_entries [OF assms(1)] assms(2-4) by (auto simp: line_entries_def line_entry_ok)
  moreover have "lb_host b = tl_host t \<and> lb_entries b \<noteq> [] \<and> length (lb_entries b) \<le> 1000 \<and> set (lb_entries b) \<subseteq> set es"
    using send_chunked_sizes [OF assms(5)] .
  ultimately show ?thesis using assms(2) by (auto simp: log_batch_validate_None)
qed

text \<open>
  C35. The blank-line test comes before the cut: a line whose first 4096 bytes are white space becomes
  an entry with a blank message, and the server rejects the whole batch it is in.
\<close>

theorem cut_line_rejected:
  assumes "line \<in> set ls" and "trim_space line \<noteq> []" and "trim_space (take 4096 line) = []"
  shows "\<exists>b\<in>set (send_chunked host deliver (\<lambda>_. False) (line_entries now host path ls)).
    log_batch_validate b \<noteq> None"
proof -
  let ?es = "line_entries now host path ls" and ?e = "line_entry now host path line"
  have e: "?e \<in> set ?es" using assms by (auto simp: line_entries_def)
  then have "?e \<in> set (concat (map lb_entries (send_chunked host deliver (\<lambda>_. False) ?es)))"
    by (simp only: send_chunked_all)
  then obtain b where "b \<in> set (send_chunked host deliver (\<lambda>_. False) ?es)" "?e \<in> set (lb_entries b)" by auto
  moreover have "\<not> log_entry_ok ?e"
    using assms(3) by (simp add: log_entry_ok_def line_entry_message)
  ultimately show ?thesis by (auto simp: log_batch_validate_None)
qed

section \<open>Witnesses\<close>

lemma trim_blanks: "trim_while space_seqs (replicate n (CHR '' '')) = []"
proof (induction n)
  case (Suc n)
  have "first_drop space_seqs (CHR '' '' # s) = Some s" for s by (simp add: space_seqs_def)
  with Suc show ?case by (subst trim_while.simps) simp
qed (simp add: trim_while.simps space_seqs_def)

lemma trim_space_blanks: "trim_space (replicate n (CHR '' '')) = []"
  using trim_space_Nil by (simp add: trim_space_def trim_left_def trim_blanks trim_right_def)
    (simp add: trim_while.simps space_seqs_def)

text \<open>A view of a file by its content; every call succeeds.\<close>

definition file_view :: "string \<Rightarrow> (unit, string) fs_view" where
  "file_view content =
     \<lparr>fs_open = (\<lambda>p. Inr ()), fs_size = (\<lambda>f. Inr (int (length content))), fs_seek = (\<lambda>f n. None),
      fs_read = (\<lambda>f n. drop (nat n) content), fs_watch = (\<lambda>p. None), fs_now = 7\<rparr>"

definition write_event :: "string \<Rightarrow> fs_event" where
  "write_event path = \<lparr>fe_name = path, fe_ops = [OpWrite]\<rparr>"

definition demo_tailer :: "unit tailer" where
  "demo_tailer =
     \<lparr>tl_paths = [''/l''], tl_host = ''h'', tl_offsets = [''/l'' \<mapsto> 2], tl_files = [''/l'' \<mapsto> ()],
      tl_watched = {''/l''}\<rparr>"

lemma appended_lines_once_witness:
  "map e_message (fst (handle_events
      [(file_view (''ab'' @ ''x'' @ [newline_byte]), write_event ''/l''),
       (file_view (''ab'' @ ''x'' @ [newline_byte] @ ''y'' @ [newline_byte]), write_event ''/l'')] demo_tailer)) =
   shipped_lines (concat [''x'' @ [newline_byte], ''y'' @ [newline_byte]])"
proof -
  let ?evs = "[(file_view (''ab'' @ ''x'' @ [newline_byte]), write_event ''/l''),
       (file_view (''ab'' @ ''x'' @ [newline_byte] @ ''y'' @ [newline_byte]), write_event ''/l'')]"
  have a: "appends ''/l'' () ''ab'' [''x'' @ [newline_byte], ''y'' @ [newline_byte]] ?evs"
    by (simp add: file_view_def write_event_def has_op_def)
  have c: "\<forall>c\<in>set [''x'' @ [newline_byte], ''y'' @ [newline_byte]]. whole_lines c \<and> short_lines c"
    by (simp add: whole_lines_def short_lines_def newline_byte_def scan_buf_size_def)
  have t: "tl_files demo_tailer ''/l'' = Some ()" "offset_of demo_tailer ''/l'' = int (length ''ab'')"
    by (simp_all add: demo_tailer_def offset_of_def)
  obtain es t' where h: "handle_events ?evs demo_tailer = (es, t')" by fastforce
  from appended_lines_once [OF a t c h] h show ?thesis by simp
qed

lemma partial_line_split_witness:
  "map e_message (fst (handle_events
      [(file_view (''ab'' @ ''err''), write_event ''/l''),
       (file_view (''ab'' @ ''err'' @ ''or'' @ [newline_byte]), write_event ''/l'')] demo_tailer)) = [''err'', ''or'']"
proof -
  let ?evs = "[(file_view (''ab'' @ ''err''), write_event ''/l''),
       (file_view (''ab'' @ ''err'' @ ''or'' @ [newline_byte]), write_event ''/l'')]"
  have "appends ''/l'' () ''ab'' [''err'', ''or'' @ [newline_byte]] ?evs"
    by (simp add: file_view_def write_event_def has_op_def)
  moreover have "tl_files demo_tailer ''/l'' = Some ()" "offset_of demo_tailer ''/l'' = int (length ''ab'')"
    by (simp_all add: demo_tailer_def offset_of_def)
  moreover have "trim_space ''err'' \<noteq> []" "trim_space ''or'' \<noteq> []" by code_simp+
  then have "\<forall>w\<in>{''err'', ''or''}. newline_byte \<notin> set w \<and> drop_cr w = w \<and> trim_space w \<noteq> [] \<and> length w \<le> 4096"
    by (simp add: newline_byte_def drop_cr_def)
  moreover obtain es t' where "handle_events ?evs demo_tailer = (es, t')" by fastforce
  ultimately show ?thesis using partial_line_split by fastforce
qed

lemma cut_line_rejected_witness:
  "\<exists>b\<in>set (send_chunked ''h'' (\<lambda>n b. None :: string err) (\<lambda>_. False)
     (line_entries 7 ''h'' ''/l'' [''ok'', replicate 4096 (CHR '' '') @ ''x''])). log_batch_validate b \<noteq> None"
proof (rule cut_line_rejected)
  show "trim_space (take 4096 (replicate 4096 (CHR '' '') @ ''x'')) = []" by (simp add: trim_space_blanks)
  show "trim_space (replicate 4096 (CHR '' '') @ ''x'') \<noteq> []"
    by (rule solid_trim_space_nonempty [of "CHR ''x''"]) (simp_all add: solid_def space_seqs_def)
qed simp

end
