(* ===== verification/Go_Slog.thy ===== *)
theory Go_Slog
  imports Go_Json
begin

text \<open>
  The JSON handler of \<open>log/slog\<close>, which all programs of the repository log through: its levels and the
  line it writes for a record of the years 0 to 9999.
\<close>

section \<open>Levels\<close>

datatype slog_level = LevelDebug | LevelInfo | LevelWarn | LevelError

text \<open>The numbers of \<open>log/slog\<close>; a handler shows the records at its level or above.\<close>

primrec slog_value :: "slog_level \<Rightarrow> int" where
  "slog_value LevelDebug = -4"
| "slog_value LevelInfo = 0"
| "slog_value LevelWarn = 4"
| "slog_value LevelError = 8"

lemma slog_value_inject [simp]: "slog_value a = slog_value b \<longleftrightarrow> a = b"
  by (cases a; cases b) auto

instantiation slog_level :: linorder
begin

definition less_eq_slog_level :: "slog_level \<Rightarrow> slog_level \<Rightarrow> bool" where
  "less_eq_slog_level a b \<longleftrightarrow> slog_value a \<le> slog_value b"

definition less_slog_level :: "slog_level \<Rightarrow> slog_level \<Rightarrow> bool" where
  "less_slog_level a b \<longleftrightarrow> slog_value a < slog_value b"

instance
  by standard (auto simp: less_eq_slog_level_def less_slog_level_def)

end

text \<open>\<open>Level.String\<close>.\<close>

primrec level_text :: "slog_level \<Rightarrow> string" where
  "level_text LevelDebug = ''DEBUG''"
| "level_text LevelInfo = ''INFO''"
| "level_text LevelWarn = ''WARN''"
| "level_text LevelError = ''ERROR''"

section \<open>Lines\<close>

datatype slog_value_kind = SlogString string | SlogInt int

text \<open>The time is in the zone of the process, \<open>offset\<close> seconds east of Greenwich.\<close>

definition slog_attr :: "string \<times> slog_value_kind \<Rightarrow> string \<times> json" where
  "slog_attr kv =
     (slog_string (fst kv), case snd kv of SlogString s \<Rightarrow> JStr (slog_string s) | SlogInt n \<Rightarrow> json_of_int n)"

definition slog_record :: "int \<Rightarrow> gotime \<Rightarrow> slog_level \<Rightarrow> string \<Rightarrow> (string \<times> slog_value_kind) list \<Rightarrow> json" where
  "slog_record offset now level msg attrs =
     JObj ([(''time'', JStr (format_zoned offset now)), (''level'', JStr (level_text level)), (''msg'', JStr (slog_string msg))] @
       map slog_attr attrs)"

text \<open>Without the newline that ends it.\<close>

definition slog_line :: "int \<Rightarrow> gotime \<Rightarrow> slog_level \<Rightarrow> string \<Rightarrow> (string \<times> slog_value_kind) list \<Rightarrow> string" where
  "slog_line offset now level msg attrs = render (slog_record offset now level msg attrs)"

lemma raw_string_slog [simp]: "raw_string (slog_string s)"
  by (simp add: raw_string_def slog_string_def slog_escaper.scan)

lemma level_plain: "list_all plain_char (level_text l)"
  by (cases l) (simp_all add: plain_char_def dquote_def bslash_def)

text \<open>Every line is one JSON object, whatever the message and the attributes are.\<close>

lemma slog_record_well_formed: "well_formed 0 (slog_record offset now level msg attrs)"
proof -
  have "raw_string ''time''" "raw_string ''level''" "raw_string ''msg''"
    by (rule raw_string_plain, simp add: plain_char_def dquote_def bslash_def)+
  moreover have "raw_string (format_zoned offset now)" "raw_string (level_text level)"
    by (simp_all add: raw_string_plain plain_zoned level_plain)
  moreover have "raw_string k \<and> well_formed 1 j" if "slog_attr kv = (k, j)" for kv k j
    using that by (auto simp: slog_attr_def split: slog_value_kind.splits)
  ultimately show ?thesis by (fastforce simp: slog_record_def max_nesting_def)
qed

definition slog_head :: "int \<Rightarrow> gotime \<Rightarrow> string" where
  "slog_head offset now =
     CHR ''{'' # dquote # ''time'' @ dquote # CHR '':'' # dquote # format_zoned offset now @ [dquote, CHR '','']"

lemma slog_line_start:
  "\<exists>rest. slog_line offset now level msg attrs =
     slog_head offset now @ dquote # ''level'' @ dquote # CHR '':'' # dquote # level_text level @ dquote # rest"
  by (simp add: slog_line_def slog_record_def slog_head_def quoted_def)

lemma raw_one_line: "raw_string r \<Longrightarrow> newline \<notin> set r"
  using scan_string_clean by (metis raw_string_def)

lemma commas_set: "set (commas xs) \<subseteq> insert (CHR '','') (\<Union>x\<in>set xs. set x)"
  by (induction xs rule: commas.induct) auto

lemma number_one_line: "number_ok ip fr \<Longrightarrow> newline \<notin> set (number_text neg ip fr ex)"
proof -
  have d: "newline \<notin> set ds" if "list_all is_digit ds" for ds
    using that by (auto simp: list_all_iff is_digit_def newline_def less_eq_char_def)
  show "number_ok ip fr \<Longrightarrow> newline \<notin> set (number_text neg ip fr ex)"
    using d itoa_digits by (auto simp: number_text_def number_ok_def newline_def split: option.splits)
qed

lemma render_one_line: "well_formed d j \<Longrightarrow> newline \<notin> set (render j)"
proof (induction j arbitrary: d)
  case (JArr js)
  then have "newline \<notin> (\<Union>x\<in>set (map render js). set x)" by fastforce
  then show ?case using commas_set [of "map render js"] by (auto simp: newline_def)
next
  case (JObj ms)
  let ?f = "\<lambda>(k, j). quoted k @ CHR '':'' # render j"
  have "newline \<notin> set (?f m)" if m: "m \<in> set ms" for m
  proof -
    obtain k j where kj: "m = (k, j)" by (cases m)
    have "raw_string k" "well_formed (d + 1) j" using JObj.prems m kj by auto
    moreover from this have "newline \<notin> set (render j)" using JObj.IH m kj by fastforce
    ultimately show ?thesis using raw_one_line [of k] kj by (simp add: quoted_def dquote_def newline_def)
  qed
  then have "newline \<notin> (\<Union>x\<in>set (map ?f ms). set x)" by auto
  then show ?case using commas_set [of "map ?f ms"] by (auto simp: newline_def)
next
  case (JNum neg ip fr ex)
  then show ?case using number_one_line by simp
qed (auto simp: quoted_def dquote_def newline_def dest: raw_one_line)

lemma slog_line_one_line: "newline \<notin> set (slog_line offset now level msg attrs)"
  unfolding slog_line_def using slog_record_well_formed by (rule render_one_line)

end
