(* ===== verification/Commands.thy ===== *)
theory Commands
  imports Config Router Agent_Loop Collectors Send_Loop Tailer Go_Slog
begin

text \<open>
  The programs: \<open>cmd/agent/main.go\<close>, \<open>cmd/server/main.go\<close> and \<open>internal/server/server.go\<close>, from the
  environment to the parts they start and the errors they stop with, and the shutdown of the server.
  The JWT library, golang-migrate and the pool's constructor are parameters.
\<close>

section \<open>Log levels\<close>

definition slog_level_of :: "string \<Rightarrow> slog_level" where
  "slog_level_of s =
     (if s = ''debug'' then LevelDebug
      else if s = ''warn'' then LevelWarn
      else if s = ''error'' then LevelError
      else LevelInfo)"

definition log_enabled :: "slog_level \<Rightarrow> slog_level \<Rightarrow> bool" where
  "log_enabled handler_level level \<longleftrightarrow> handler_level \<le> level"

section \<open>The agent's token\<close>

record claims =
  cm_issuer :: string
  cm_expires :: gotime
  cm_issued :: gotime

text \<open>\<open>mintAgentToken\<close>; the clock is read twice, and \<open>sign\<close> is \<open>SignedString\<close> of an HS256 token.\<close>

definition mint_agent_token ::
  "(string \<Rightarrow> claims \<Rightarrow> ('e, string) result) \<Rightarrow> gotime \<Rightarrow> gotime \<Rightarrow> string \<Rightarrow> ('e, string) result" where
  "mint_agent_token sign t1 t2 secret =
     sign secret \<lparr>cm_issuer = ''miniobserv-agent'', cm_expires = t1 + 24 * hour, cm_issued = t2\<rparr>"

text \<open>
  What golang-jwt documents: a token it signed is valid under the same secret until its expiry, which
  it keeps in whole seconds; the issuer is not looked at.
\<close>

definition jwt_contract ::
  "(string \<Rightarrow> claims \<Rightarrow> ('e, string) result) \<Rightarrow> (string \<Rightarrow> string \<Rightarrow> gotime \<Rightarrow> bool) \<Rightarrow> bool" where
  "jwt_contract sign verify \<longleftrightarrow>
     (\<forall>secret c token now. sign secret c = Inr token \<longrightarrow>
        token \<noteq> [] \<and> (verify secret token now \<longleftrightarrow> now < cm_expires c div second * second))"

section \<open>\<open>cmd/agent\<close>\<close>

record 'h agent_program =
  ap_config :: agent_config
  ap_level :: slog_level
  ap_sender :: http_sender
  ap_agent :: agent_state
  ap_tailer :: "(http_sender \<times> 'h tailer) option"

datatype 'e agent_failure = AgentConfigInvalid config_error | TokenFailed 'e | TailerFailed 'e

text \<open>The values the process reads outside the environment, and the libraries it calls.\<close>

record ('h, 'e) agent_world =
  aw_hostname :: string
  aw_url_parse :: "string \<Rightarrow> url option"
  aw_sign :: "string \<Rightarrow> claims \<Rightarrow> ('e, string) result"
  aw_expires_from :: gotime
  aw_issued :: gotime
  aw_watcher :: "'e err"
  aw_fs :: "('h, 'e) fs_view"

definition agent_token :: "('h, 'e) agent_world \<Rightarrow> agent_config \<Rightarrow> ('e, string) result" where
  "agent_token w cfg =
     (if ac_token cfg \<noteq> [] then mint_agent_token (aw_sign w) (aw_expires_from w) (aw_issued w) (ac_token cfg)
      else Inr [])"

definition agent_main :: "environment \<Rightarrow> ('h, 'e) agent_world \<Rightarrow> ('e agent_failure, 'h agent_program) result" where
  "agent_main getenv w =
     (case load_agent getenv (aw_hostname w) (aw_url_parse w) of
        Inl e \<Rightarrow> Inl (AgentConfigInvalid e)
      | Inr cfg \<Rightarrow>
        (case agent_token w cfg of
           Inl e \<Rightarrow> Inl (TokenFailed e)
         | Inr token \<Rightarrow>
           let base = url_text (ac_server_url cfg);
               snd = with_token
                 (new_http_sender (base @ ''/api/v1/metrics'')
                   \<lparr>bo_base = ac_backoff_base cfg, bo_max = ac_backoff_max cfg, bo_jitter = ac_backoff_jitter cfg\<rparr>) token;
               prog = \<lparr>ap_config = cfg, ap_level = slog_level_of (ac_log_level cfg), ap_sender = snd,
                       ap_agent = new_agent 0, ap_tailer = None\<rparr>
           in if length (ac_log_paths cfg) > 0
              then case new_tailer (aw_watcher w) (aw_fs w) (ac_log_paths cfg) (ac_host cfg) of
                     Inl e \<Rightarrow> Inl (TailerFailed e)
                   | Inr t \<Rightarrow>
                     Inr (prog\<lparr>ap_tailer := Some (new_http_log_sender (base @ ''/api/v1/logs'') token default_backoff, t)\<rparr>)
              else Inr prog))"

text \<open>What the program's registry collects in a tick.\<close>

definition agent_collect ::
  "'h agent_program \<Rightarrow> 'e readings \<Rightarrow> net_state \<Rightarrow> (metric list \<times> (string \<times> 'e collect_error) list) \<times> net_state" where
  "agent_collect p rd ns =
     collect_all (agent_registry (ac_host (ap_config p)) (ac_disk_mounts (ap_config p)) (ac_net_ifaces (ap_config p))) rd ns"

section \<open>\<open>cmd/server\<close>\<close>

text \<open>\<open>strings.Replace(s, old, new, 1)\<close> for an \<open>old\<close> that is not empty.\<close>

fun replace_first :: "string \<Rightarrow> string \<Rightarrow> string \<Rightarrow> string" where
  "replace_first old new [] = []"
| "replace_first old new (c # s) =
     (case drop_prefix old (c # s) of Some t \<Rightarrow> new @ t | None \<Rightarrow> c # replace_first old new s)"

definition migrate_url :: "string \<Rightarrow> string" where
  "migrate_url db_url = replace_first ''postgresql://'' ''pgx5://'' (replace_first ''postgres://'' ''pgx5://'' db_url)"

datatype 'e migration_error = CreateMigrator 'e | RunMigrations 'e

text \<open>\<open>migrate.New\<close>, \<open>Up\<close> and the test for \<open>ErrNoChange\<close> are parameters.\<close>

record ('m, 'e) migrate_lib =
  mg_new :: "string \<Rightarrow> string \<Rightarrow> ('e, 'm) result"
  mg_up :: "'m \<Rightarrow> 'e err"
  mg_no_change :: "'e \<Rightarrow> bool"

definition run_migrations :: "('m, 'e) migrate_lib \<Rightarrow> string \<Rightarrow> string \<Rightarrow> 'e migration_error err" where
  "run_migrations lib source_url db_url =
     (case mg_new lib source_url db_url of
        Inl e \<Rightarrow> Some (CreateMigrator e)
      | Inr m \<Rightarrow>
        (case mg_up lib m of
           None \<Rightarrow> None
         | Some e \<Rightarrow> if mg_no_change lib e then None else Some (RunMigrations e)))"

datatype 'e server_failure =
    ServerConfigInvalid config_error
  | MigrationFailed "'e migration_error"
  | PoolFailed 'e
  | NotificationsInvalid notifications_error
  | RulesInvalid rules_error

text \<open>What the start does to the database, in order.\<close>

datatype db_action = Migrate string string | OpenPool string

record ('p, 'm, 'e) server_world =
  sw_url_parse :: "string \<Rightarrow> url option"
  sw_migrate :: "('m, 'e) migrate_lib"
  sw_new_pool :: "string \<Rightarrow> ('e, 'p) result"

record 'p server_program =
  sp_config :: server_config
  sp_level :: slog_level
  sp_pool :: 'p
  sp_evaluator :: "webhook_notifier evaluator option"
  sp_tracker :: host_tracker

definition build_evaluator ::
  "server_config \<Rightarrow> webhook_notifier list \<Rightarrow> (rules_error, webhook_notifier evaluator option) result" where
  "build_evaluator cfg notifiers =
     (if sc_alert_rules cfg \<noteq> []
      then case parse_rules (sc_alert_rules cfg) of
             Inl e \<Rightarrow> Inl e
           | Inr rules \<Rightarrow> Inr (if length rules > 0 then Some (new_evaluator rules notifiers) else None)
      else Inr None)"

definition server_main ::
  "environment \<Rightarrow> ('p, 'm, 'e) server_world \<Rightarrow> db_action list \<times> ('e server_failure, 'p server_program) result" where
  "server_main getenv w =
     (case load_server_config getenv (sw_url_parse w) of
        Inl e \<Rightarrow> ([], Inl (ServerConfigInvalid e))
      | Inr cfg \<Rightarrow>
        let source = ''file://'' @ sc_migrations_path cfg; target = migrate_url (sc_database_url cfg);
            acts = [Migrate source target]
        in case run_migrations (sw_migrate w) source target of
             Some e \<Rightarrow> (acts, Inl (MigrationFailed e))
           | None \<Rightarrow>
             let acts = acts @ [OpenPool (sc_database_url cfg)]
             in case sw_new_pool w (sc_database_url cfg) of
                  Inl e \<Rightarrow> (acts, Inl (PoolFailed e))
                | Inr pool \<Rightarrow>
                  (case parse_notifications (sc_alert_notifications cfg) of
                     Inl e \<Rightarrow> (acts, Inl (NotificationsInvalid e))
                   | Inr notifiers \<Rightarrow>
                     (case build_evaluator cfg notifiers of
                        Inl e \<Rightarrow> (acts, Inl (RulesInvalid e))
                      | Inr evaluator \<Rightarrow>
                        (acts, Inr \<lparr>sp_config = cfg, sp_level = slog_level_of (sc_log_level cfg), sp_pool = pool,
                           sp_evaluator = evaluator,
                           sp_tracker = new_host_tracker (sc_host_stale_after cfg) (sc_host_down_after cfg) True\<rparr>))))"

text \<open>The callback \<open>onDown\<close>: the notifications it sends.\<close>

definition on_down :: "gotime \<Rightarrow> string \<Rightarrow> 'p server_program \<Rightarrow> calls" where
  "on_down now host p = (if sp_evaluator p \<noteq> None then notify_host_down now host (sp_evaluator p) else [])"

text \<open>The router the program serves; the environment, the template and chi are parameters.\<close>

definition program_router ::
  "'p server_program \<Rightarrow> ('db, 'e) server_env \<Rightarrow> (payload \<Rightarrow> string \<times> bool) \<Rightarrow> (string \<Rightarrow> string \<times> nat) \<Rightarrow> chi \<Rightarrow>
     ('db, 'e, webhook_notifier) router" where
  "program_router p env template wide chi =
     \<lparr>rt_env = env, rt_secret = sc_agent_token (sp_config p),
      rt_dash = (if sc_dashboard_enabled (sp_config p) then Some template else None),
      rt_alerter = sp_evaluator p, rt_wide = wide, rt_chi = chi\<rparr>"

section \<open>Starting the server\<close>

text \<open>
  C15. The server opens its pool only after the migrations have succeeded, and touches the database in
  no other way: an invalid environment leaves it alone, a failed migration is the last action, and bad
  notifications or rules are only found after both.
\<close>

theorem migrations_first:
  assumes "server_main getenv w = (acts, res)"
  shows "(acts = [] \<longleftrightarrow> (\<exists>e. res = Inl (ServerConfigInvalid e))) \<and>
    (acts \<noteq> [] \<longrightarrow> (\<exists>source target. hd acts = Migrate source target \<and>
       (tl acts = [] \<longleftrightarrow> (\<exists>e. run_migrations (sw_migrate w) source target = Some e \<and> res = Inl (MigrationFailed e))) \<and>
       (tl acts \<noteq> [] \<longrightarrow> run_migrations (sw_migrate w) source target = None \<and>
         (\<exists>url. tl acts = [OpenPool url] \<and> target = migrate_url url))))"
  using assms
  by (auto simp: server_main_def Let_def split: sum.splits option.splits)

section \<open>Hosts that go down\<close>

lemma server_main_program:
  assumes "server_main getenv w = (acts, Inr p)"
  shows "\<exists>notifiers. parse_notifications (sc_alert_notifications (sp_config p)) = Inr notifiers \<and>
    build_evaluator (sp_config p) notifiers = Inr (sp_evaluator p)"
  using assms by (auto simp: server_main_def Let_def split: sum.splits option.splits)

lemma build_evaluator_notifiers:
  "build_evaluator cfg notifiers = Inr (Some ev) \<Longrightarrow> ev_notifiers ev = notifiers"
  by (auto simp: build_evaluator_def new_evaluator_def split: if_splits sum.splits)


section \<open>Witnesses\<close>

text \<open>An environment with one webhook and no rule, over libraries that never fail.\<close>

definition webhook_text :: string where
  "webhook_text = render (JArr [JObj [json_field ''type'' (json_of_string ''webhook''), json_field ''url'' (json_of_string ''http://hook'')]])"

definition webhook_env :: environment where
  "webhook_env v = (if v = ''ALERT_NOTIFICATIONS'' then webhook_text else demo_env v)"

definition demo_world :: "(unit, unit, string) server_world" where
  "demo_world =
     \<lparr>sw_url_parse = (\<lambda>s. Some \<lparr>url_scheme = ''postgres'', url_text = s\<rparr>),
      sw_migrate = \<lparr>mg_new = (\<lambda>_ _. Inr ()), mg_up = (\<lambda>_. Some ''no change''), mg_no_change = (\<lambda>_. True)\<rparr>,
      sw_new_pool = (\<lambda>_. Inr ())\<rparr>"

lemma webhook_trim: "trim_space webhook_text = webhook_text"
  by code_simp

lemma webhook_parse: "parse_notifications webhook_text = Inr [new_webhook_notifier ''http://hook'']"
proof -
  have "unmarshal_items webhook_text = Some [\<lparr>ni_type = ''webhook'', ni_url = ''http://hook''\<rparr>]" by code_simp
  moreover have "webhook_text \<noteq> []" by (simp add: webhook_text_def)
  ultimately show ?thesis by (simp add: parse_notifications_def webhook_trim Let_def)
qed

lemma webhook_starts:
  "\<exists>acts p. server_main webhook_env demo_world = (acts, Inr p) \<and> sc_alert_notifications (sp_config p) = webhook_text \<and>
     sc_alert_rules (sp_config p) = []"
proof -
  obtain cfg where cfg: "load_server_config webhook_env (sw_url_parse demo_world) = Inr cfg"
    "sc_alert_notifications cfg = webhook_text" "sc_alert_rules cfg = []"
    by (simp add: load_server_config_def webhook_env_def demo_env_def duration_strict_def demo_world_def Let_def)
  have "run_migrations (sw_migrate demo_world) s t = None" for s t by (simp add: run_migrations_def demo_world_def)
  moreover have "sw_new_pool demo_world u = Inr ()" for u by (simp add: demo_world_def)
  moreover have "build_evaluator cfg ns = Inr None" for ns using cfg(3) by (simp add: build_evaluator_def)
  ultimately show ?thesis using cfg webhook_parse by (simp add: server_main_def Let_def)
qed

lemma migrations_first_witness:
  "\<exists>acts res. server_main webhook_env demo_world = (acts, res) \<and> (\<exists>s t. hd acts = Migrate s t)"
proof -
  obtain acts p where a: "server_main webhook_env demo_world = (acts, Inr p)" using webhook_starts by blast
  from migrations_first [OF this] have "\<exists>s t. hd acts = Migrate s t" by auto
  with a show ?thesis by blast
qed


end
