(* ===== verification/Api_Json.thy ===== *)
theory Api_Json
  imports Dashboard Prometheus
begin

text \<open>
  The bodies of the answers of \<open>internal/server/api\<close> and of the dashboard: what \<open>json.NewEncoder(w).Encode\<close>
  writes for each payload, by the field tags of \<open>internal/server/storage\<close> and \<open>internal/server/alerting\<close>.
  Times from the database and of the tracker are in the zone of the process, the parameter \<open>zone\<close>, which
  gives its offset in seconds at a time; those of the evaluator are in UTC.
\<close>

section \<open>The payloads\<close>

definition encode_point :: "(gotime \<Rightarrow> int) \<Rightarrow> query_point \<Rightarrow> (json_error, json) result" where
  "encode_point zone p =
     (case json_of_zoned (zone (qp_time p)) (qp_time p) of
        Inl e \<Rightarrow> Inl e
      | Inr t \<Rightarrow>
        (case json_of_float (qp_value p) of
           Inl e \<Rightarrow> Inl e
         | Inr v \<Rightarrow> Inr (JObj [json_field ''time'' t, json_field ''value'' v])))"

definition encode_log_row :: "(gotime \<Rightarrow> int) \<Rightarrow> log_row \<Rightarrow> (json_error, json) result" where
  "encode_log_row zone r =
     (case json_of_zoned (zone (r_time r)) (r_time r) of
        Inl e \<Rightarrow> Inl e
      | Inr t \<Rightarrow>
        Inr (JObj
          [json_field ''id'' (json_of_int (r_id r)), json_field ''time'' t,
           json_field ''host'' (json_of_string (r_host r)), json_field ''path'' (json_of_string (r_path r)),
           json_field ''level'' (json_of_string (r_level r)), json_field ''message'' (json_of_string (r_message r))]))"

definition state_text :: "alert_state \<Rightarrow> string" where
  "state_text s = (case s of StateFiring \<Rightarrow> ''firing'' | StateOK \<Rightarrow> ''ok'')"

definition encode_alert :: "alert \<Rightarrow> (json_error, json) result" where
  "encode_alert a =
     (case encode_rule (al_rule a) of
        Inl e \<Rightarrow> Inl e
      | Inr r \<Rightarrow>
        (case json_of_time (al_updated_at a) of
           Inl e \<Rightarrow> Inl e
         | Inr t \<Rightarrow>
           (case json_of_float (al_value a) of
              Inl e \<Rightarrow> Inl e
            | Inr v \<Rightarrow>
              Inr (JObj
                [json_field ''rule'' r, json_field ''state'' (json_of_string (state_text (al_state a))),
                 json_field ''updated_at'' t, json_field ''value'' v]))))"

definition encode_host_status :: "(gotime \<Rightarrow> int) \<Rightarrow> host_status \<Rightarrow> (json_error, json) result" where
  "encode_host_status zone h =
     (case json_of_zoned (zone (hs_last_seen h)) (hs_last_seen h) of
        Inl e \<Rightarrow> Inl e
      | Inr t \<Rightarrow>
        Inr (JObj
          [json_field ''host'' (json_of_string (hs_host h)), json_field ''status'' (json_of_string (hs_status h)),
           json_field ''last_seen'' t]))"

definition encode_series :: "(gotime \<Rightarrow> int) \<Rightarrow> string \<times> query_point list \<Rightarrow> (json_error, json) result" where
  "encode_series zone sr =
     (case json_array (encode_point zone) (snd sr) of
        Inl e \<Rightarrow> Inl e
      | Inr ps \<Rightarrow> Inr (JObj [json_field ''name'' (json_of_string (fst sr)), json_field ''points'' ps]))"

text \<open>The keys of a Go map are sorted, the fields of a struct are not.\<close>

definition payload_tree :: "(gotime \<Rightarrow> int) \<Rightarrow> payload \<Rightarrow> (json_error, json) result" where
  "payload_tree zone p =
     (case p of
        ErrorBody msg \<Rightarrow> Inr (JObj [json_field ''error'' (json_of_string msg)])
      | Ingested n \<Rightarrow> Inr (JObj [json_field ''ingested'' (json_of_int (int n))])
      | PointsBody host name bucket agg points \<Rightarrow>
          map_sum id
            (\<lambda>ps. JObj
              [json_field ''agg'' (json_of_string agg), json_field ''bucket'' (json_of_string bucket),
               json_field ''host'' (json_of_string host), json_field ''name'' (json_of_string name),
               json_field ''points'' ps])
            (json_array (encode_point zone) points)
      | LogsBody rows next_cursor \<Rightarrow>
          map_sum id
            (\<lambda>es. JObj
              [json_field ''entries'' es,
               json_field ''next_cursor'' (case next_cursor of None \<Rightarrow> JNull | Some c \<Rightarrow> json_of_int c)])
            (json_array (encode_log_row zone) rows)
      | AlertsBody alerts \<Rightarrow> map_sum id (\<lambda>js. JObj [json_field ''alerts'' js]) (json_array encode_alert alerts)
      | HostsBody hosts \<Rightarrow>
          map_sum id (\<lambda>js. JObj [json_field ''hosts'' js]) (json_array (encode_host_status zone) hosts)
      | SeriesBody host window series \<Rightarrow>
          map_sum id
            (\<lambda>js. JObj
              [json_field ''host'' (json_of_string host), json_field ''window'' (json_of_string window),
               json_field ''series'' js])
            (json_array (encode_series zone) series)
      | _ \<Rightarrow> Inr JNull)"

text \<open>
  The body a client receives.  The status is out before the encoder runs, and the encoder writes nothing
  when it fails.  A page went through the template, so \<open>PageBody\<close> is the payload of no answer.
\<close>

definition response_text :: "(gotime \<Rightarrow> int) \<Rightarrow> response \<Rightarrow> string" where
  "response_text zone r =
     (case rs_payload r of
        NoBody \<Rightarrow> []
      | TextBody s \<Rightarrow> s
      | p \<Rightarrow> (case payload_tree zone p of Inl e \<Rightarrow> [] | Inr j \<Rightarrow> render j @ [newline]))"

end
