(* ===== verification/Sha256.thy ===== *)
theory Sha256
  imports Prelude "HOL-Library.Word"
begin

text \<open>
  HMAC-SHA256 as \<open>crypto/hmac\<close> and \<open>crypto/sha256\<close> compute it (FIPS 180-4, RFC 2104), over byte strings
  and 32-bit words; the additions are modulo \<open>2 ^ 32\<close>.
\<close>

unbundle bit_operations_syntax

type_synonym u32 = "32 word"

section \<open>SHA-256\<close>

definition sha_k :: "u32 list" where
  "sha_k =
     [1116352408, 1899447441, 3049323471, 3921009573, 961987163, 1508970993,
      2453635748, 2870763221, 3624381080, 310598401, 607225278, 1426881987,
      1925078388, 2162078206, 2614888103, 3248222580, 3835390401, 4022224774,
      264347078, 604807628, 770255983, 1249150122, 1555081692, 1996064986,
      2554220882, 2821834349, 2952996808, 3210313671, 3336571891, 3584528711,
      113926993, 338241895, 666307205, 773529912, 1294757372, 1396182291,
      1695183700, 1986661051, 2177026350, 2456956037, 2730485921, 2820302411,
      3259730800, 3345764771, 3516065817, 3600352804, 4094571909, 275423344,
      430227734, 506948616, 659060556, 883997877, 958139571, 1322822218,
      1537002063, 1747873779, 1955562222, 2024104815, 2227730452, 2361852424,
      2428436474, 2756734187, 3204031479, 3329325298]"

record hash_state =
  hA :: u32  hB :: u32  hC :: u32  hD :: u32
  hE :: u32  hF :: u32  hG :: u32  hH :: u32

definition sha_init :: hash_state where
  "sha_init =
     \<lparr>hA = 0x6a09e667, hB = 0xbb67ae85, hC = 0x3c6ef372, hD = 0xa54ff53a,
      hE = 0x510e527f, hF = 0x9b05688c, hG = 0x1f83d9ab, hH = 0x5be0cd19\<rparr>"

definition rotr :: "nat \<Rightarrow> u32 \<Rightarrow> u32" where
  "rotr n x = drop_bit n x OR push_bit (32 - n) x"

definition small_sigma0 :: "u32 \<Rightarrow> u32" where
  "small_sigma0 x = rotr 7 x XOR rotr 18 x XOR drop_bit 3 x"

definition small_sigma1 :: "u32 \<Rightarrow> u32" where
  "small_sigma1 x = rotr 17 x XOR rotr 19 x XOR drop_bit 10 x"

text \<open>The schedule, newest word first: 16 words of the block and 48 more.\<close>

fun extend_schedule :: "nat \<Rightarrow> u32 list \<Rightarrow> u32 list" where
  "extend_schedule 0 w = w"
| "extend_schedule (Suc n) w =
     extend_schedule n ((small_sigma1 (w ! 1) + w ! 6 + small_sigma0 (w ! 14) + w ! 15) # w)"

definition sha_round :: "hash_state \<Rightarrow> u32 \<times> u32 \<Rightarrow> hash_state" where
  "sha_round s kw =
     (let s1 = rotr 6 (hE s) XOR rotr 11 (hE s) XOR rotr 25 (hE s);
          ch = (hE s AND hF s) XOR (NOT (hE s) AND hG s);
          t1 = hH s + s1 + ch + fst kw + snd kw;
          s0 = rotr 2 (hA s) XOR rotr 13 (hA s) XOR rotr 22 (hA s);
          maj = (hA s AND hB s) XOR (hA s AND hC s) XOR (hB s AND hC s);
          t2 = s0 + maj
      in \<lparr>hA = t1 + t2, hB = hA s, hC = hB s, hD = hC s, hE = hD s + t1, hF = hE s, hG = hF s, hH = hG s\<rparr>)"

definition add_states :: "hash_state \<Rightarrow> hash_state \<Rightarrow> hash_state" where
  "add_states s t =
     \<lparr>hA = hA s + hA t, hB = hB s + hB t, hC = hC s + hC t, hD = hD s + hD t,
      hE = hE s + hE t, hF = hF s + hF t, hG = hG s + hG t, hH = hH s + hH t\<rparr>"

definition byte_word :: "char \<Rightarrow> u32" where
  "byte_word c = of_nat (of_char c)"

fun block_words :: "string \<Rightarrow> u32 list" where
  "block_words (a # b # c # d # s) =
     (push_bit 24 (byte_word a) OR push_bit 16 (byte_word b) OR push_bit 8 (byte_word c) OR byte_word d) # block_words s"
| "block_words _ = []"

definition sha_block :: "hash_state \<Rightarrow> string \<Rightarrow> hash_state" where
  "sha_block s b = add_states s (foldl sha_round s (zip sha_k (rev (extend_schedule 48 (rev (block_words b))))))"

text \<open>The padding: a one bit, zeros, and the length in bits as 64 bits.\<close>

definition be_bytes :: "nat \<Rightarrow> nat \<Rightarrow> string" where
  "be_bytes k n = map (\<lambda>i. char_of (n div 256 ^ i)) (rev [0..<k])"

definition sha_pad :: "string \<Rightarrow> string" where
  "sha_pad m = m @ [CHR 0x80] @ replicate ((119 - length m mod 64) mod 64) (CHR 0x00) @ be_bytes 8 (8 * length m)"

function sha_blocks :: "hash_state \<Rightarrow> string \<Rightarrow> hash_state" where
  "sha_blocks s m = (if m = [] then s else sha_blocks (sha_block s (take 64 m)) (drop 64 m))"
  by pat_completeness auto
termination by (relation "measure (\<lambda>(s, m). length m)") auto

declare sha_blocks.simps [simp del]

definition state_bytes :: "hash_state \<Rightarrow> string" where
  "state_bytes s = concat (map (\<lambda>w. be_bytes 4 (unat w)) [hA s, hB s, hC s, hD s, hE s, hF s, hG s, hH s])"

definition sha256 :: "string \<Rightarrow> string" where
  "sha256 m = state_bytes (sha_blocks sha_init (sha_pad m))"

section \<open>HMAC\<close>

definition xor_byte :: "nat \<Rightarrow> char \<Rightarrow> char" where
  "xor_byte n c = char_of (n XOR of_char c)"

definition hmac_key :: "string \<Rightarrow> string" where
  "hmac_key key = (let k = (if length key > 64 then sha256 key else key) in k @ replicate (64 - length k) (CHR 0x00))"

definition hmac_sha256 :: "string \<Rightarrow> string \<Rightarrow> string" where
  "hmac_sha256 key m =
     (let k = hmac_key key in sha256 (map (xor_byte 0x5c) k @ sha256 (map (xor_byte 0x36) k @ m)))"

section \<open>Facts\<close>

lemma length_be_bytes [simp]: "length (be_bytes k n) = k"
  by (simp add: be_bytes_def)

lemma length_sha256 [simp]: "length (sha256 m) = 32"
  by (simp add: sha256_def state_bytes_def)

lemma length_hmac [simp]: "length (hmac_sha256 key m) = 32"
  by (simp add: hmac_sha256_def Let_def)

text \<open>The padded message is a whole number of blocks.\<close>

lemma sha_pad_blocks: "length (sha_pad m) mod 64 = 0"
proof -
  define q r where "q = length m div 64" and "r = length m mod 64"
  have m: "length m = 64 * q + r" "r < 64" by (simp_all add: q_def r_def)
  have "r + 1 + (119 - r) mod 64 + 8 = (if r \<le> 55 then 64 else 128)"
  proof (cases "r \<le> 55")
    case True
    then have "119 - r = (55 - r) + 64" by simp
    then have "(119 - r) mod 64 = 55 - r" using True by (simp only: mod_add_self2) simp
    with True show ?thesis by simp
  qed (use m(2) in simp)
  moreover have "length (sha_pad m) = 64 * q + (r + 1 + (119 - r) mod 64 + 8)"
    unfolding sha_pad_def r_def [symmetric] by (simp add: m(1) flip: r_def)
  ultimately show ?thesis by (simp split: if_splits)
qed

end
