(* ===== verification/Example_Client.thy ===== *)
theory Example_Client
  imports Sha256 Go_Url Go_Time Go_Fmt Send_Loop
begin

text \<open>
  The example client, \<open>example/04-go-http-client/main.go\<close>: a JWT minted by hand (JSON, base64url,
  HMAC-SHA256) and the three calls it makes.  The network is a parameter, and what is behind it a state
  that the calls can change.
\<close>

section \<open>base64\<close>

definition b64_alphabet :: string where
  "b64_alphabet = ''ABCDEFGHIJKLMNOPQRSTUVWXYZabcdefghijklmnopqrstuvwxyz0123456789+/''"

definition b64_char :: "nat \<Rightarrow> char" where
  "b64_char n = b64_alphabet ! n"

text \<open>\<open>base64.StdEncoding.EncodeToString\<close> on byte values.\<close>

fun std_encode :: "nat list \<Rightarrow> string" where
  "std_encode [] = []"
| "std_encode [a] = [b64_char (a div 4), b64_char (a mod 4 * 16), CHR ''='', CHR ''='']"
| "std_encode [a, b] =
     [b64_char (a div 4), b64_char (a mod 4 * 16 + b div 16), b64_char (b mod 16 * 4), CHR ''='']"
| "std_encode (a # b # c # s) =
     b64_char (a div 4) # b64_char (a mod 4 * 16 + b div 16) # b64_char (b mod 16 * 4 + c div 64) #
     b64_char (c mod 64) # std_encode s"

text \<open>\<open>strings.ReplaceAll\<close> of a byte by a byte, and \<open>strings.TrimRight\<close> of a byte.\<close>

definition replace_all :: "char \<Rightarrow> char \<Rightarrow> string \<Rightarrow> string" where
  "replace_all old new s = map (\<lambda>c. if c = old then new else c) s"

definition trim_right_byte :: "char \<Rightarrow> string \<Rightarrow> string" where
  "trim_right_byte c s = rev (dropWhile (\<lambda>d. d = c) (rev s))"

definition base64_url_encode :: "string \<Rightarrow> string" where
  "base64_url_encode data =
     trim_right_byte (CHR ''='')
       (replace_all (CHR ''/'') (CHR ''_'') (replace_all (CHR ''+'') (CHR ''-'') (std_encode (map of_char data))))"

section \<open>The token\<close>

text \<open>A map is marshalled in the order of its keys.\<close>

definition json_object :: "(string \<times> json) list \<Rightarrow> json" where
  "json_object kvs = JObj (map (\<lambda>(k, v). json_field k v) (sort_key fst kvs))"

definition json_base64_url :: "json \<Rightarrow> string" where
  "json_base64_url v = base64_url_encode (render v)"

text \<open>\<open>now\<close> is \<open>time.Now().Unix()\<close>.\<close>

definition jwt_header :: json where
  "jwt_header = json_of_map [(''alg'', ''HS256''), (''typ'', ''JWT'')]"

definition jwt_payload :: "int \<Rightarrow> json" where
  "jwt_payload now =
     json_object
       [(''iss'', json_of_string ''miniobserv-agent''), (''iat'', json_of_int now), (''exp'', json_of_int (now + 86400))]"

definition mint_jwt :: "int \<Rightarrow> string \<Rightarrow> string" where
  "mint_jwt now secret =
     (let header = json_base64_url jwt_header;
          payload = json_base64_url (jwt_payload now);
          signing_input = header @ ''.'' @ payload;
          sig = base64_url_encode (hmac_sha256 secret signing_input)
      in signing_input @ ''.'' @ sig)"

section \<open>The calls\<close>

record api_client =
  xc_base_url :: string
  xc_token :: string

text \<open>
  \<open>http.NewRequest\<close>, and \<open>Do\<close> with \<open>ReadAll\<close>: the status and the body of the response.  A call can change
  the world behind the network.
\<close>

record ('e, 's) client_env =
  ce_build :: "request \<Rightarrow> 'e err"
  ce_do :: "request \<Rightarrow> 's \<Rightarrow> ('e, int \<times> string) result \<times> 's"

datatype 'e client_error =
    ClientMarshal json_error
  | ClientBuild 'e
  | ClientHTTP 'e
  | ServerReturned int string
  | ClientUnmarshal

definition client_request :: "api_client \<Rightarrow> string \<Rightarrow> string \<Rightarrow> string option \<Rightarrow> request" where
  "client_request c meth path body =
     \<lparr>rq_method = meth, rq_url = xc_base_url c @ path,
      rq_headers = (''Authorization'', ''Bearer '' @ xc_token c) #
        (if body \<noteq> None then [(''Content-Type'', ''application/json'')] else []),
      rq_body = (case body of Some b \<Rightarrow> b | None \<Rightarrow> [])\<rparr>"

text \<open>\<open>do\<close>: \<open>body\<close> is the marshalled body or its error, \<open>None\<close> for a nil body.\<close>

definition client_do ::
  "('e, 's) client_env \<Rightarrow> api_client \<Rightarrow> string \<Rightarrow> string \<Rightarrow> (json_error, string) result option \<Rightarrow>
     (string \<Rightarrow> 'a option) \<Rightarrow> 's \<Rightarrow> ('e client_error, 'a) result \<times> 's" where
  "client_do env c meth path body unmarshal s =
     (case body of
        Some (Inl e) \<Rightarrow> (Inl (ClientMarshal e), s)
      | _ \<Rightarrow>
        let req = client_request c meth path (case body of Some (Inr b) \<Rightarrow> Some b | _ \<Rightarrow> None)
        in case ce_build env req of
             Some e \<Rightarrow> (Inl (ClientBuild e), s)
           | None \<Rightarrow>
             (case ce_do env req s of
                (Inl e, s') \<Rightarrow> (Inl (ClientHTTP e), s')
              | (Inr (status, raw), s') \<Rightarrow>
                (if status \<ge> 300 then Inl (ServerReturned status raw)
                 else (case unmarshal raw of None \<Rightarrow> Inl ClientUnmarshal | Some a \<Rightarrow> Inr a), s')))"

section \<open>Its types\<close>

record example_metric =
  em_time :: string
  em_host :: string
  em_name :: string
  em_value :: f64
  em_labels :: "(string \<times> string) list"

record example_batch =
  eb_host :: string
  eb_metrics :: "example_metric list"

record example_point =
  ep_time :: string
  ep_value :: f64

record query_response =
  qr_host :: string
  qr_name :: string
  qr_bucket :: string
  qr_agg :: string
  qr_points :: "example_point list"

definition encode_example_metric :: "example_metric \<Rightarrow> (json_error, json) result" where
  "encode_example_metric m =
     (case json_of_float (em_value m) of
        Inl e \<Rightarrow> Inl e
      | Inr v \<Rightarrow>
        Inr (JObj
          ([json_field ''time'' (json_of_string (em_time m)), json_field ''host'' (json_of_string (em_host m)),
            json_field ''name'' (json_of_string (em_name m)), json_field ''value'' v] @
           (if em_labels m = [] then [] else [json_field ''labels'' (json_of_map (em_labels m))]))))"

definition marshal_example_batch :: "example_batch \<Rightarrow> (json_error, string) result" where
  "marshal_example_batch b =
     (case json_of_slice encode_example_metric (eb_metrics b) of
        Inl e \<Rightarrow> Inl e
      | Inr ms \<Rightarrow>
        Inr (render (JObj [json_field ''host'' (json_of_string (eb_host b)), json_field ''metrics'' ms])))"

definition ingest_response_fields :: "(string \<times> int decoder) list" where
  "ingest_response_fields = [(''ingested'', decode_int64)]"

definition unmarshal_ingested :: "string \<Rightarrow> int option" where
  "unmarshal_ingested = unmarshal_with (decode_struct ingest_response_fields 0)"

definition example_point_fields :: "(string \<times> example_point decoder) list" where
  "example_point_fields =
     [(''time'', \<lambda>p j. map_option (\<lambda>s. p\<lparr>ep_time := s\<rparr>) (decode_string (ep_time p) j)),
      (''value'', \<lambda>p j. map_option (\<lambda>v. p\<lparr>ep_value := v\<rparr>) (decode_float (ep_value p) j))]"

definition zero_example_point :: example_point where
  "zero_example_point = \<lparr>ep_time = [], ep_value = 0\<rparr>"

text \<open>The points are a slice while the answer is read.\<close>

definition query_response_fields :: "(string \<times> (query_response \<times> example_point slice) decoder) list" where
  "query_response_fields =
     [(''host'', \<lambda>(r, ps) j. map_option (\<lambda>s. (r\<lparr>qr_host := s\<rparr>, ps)) (decode_string (qr_host r) j)),
      (''name'', \<lambda>(r, ps) j. map_option (\<lambda>s. (r\<lparr>qr_name := s\<rparr>, ps)) (decode_string (qr_name r) j)),
      (''bucket'', \<lambda>(r, ps) j. map_option (\<lambda>s. (r\<lparr>qr_bucket := s\<rparr>, ps)) (decode_string (qr_bucket r) j)),
      (''agg'', \<lambda>(r, ps) j. map_option (\<lambda>s. (r\<lparr>qr_agg := s\<rparr>, ps)) (decode_string (qr_agg r) j)),
      (''points'', \<lambda>(r, ps) j.
         map_option (Pair r) (decode_slice (decode_struct example_point_fields) zero_example_point ps j))]"

definition zero_query_response :: query_response where
  "zero_query_response = \<lparr>qr_host = [], qr_name = [], qr_bucket = [], qr_agg = [], qr_points = []\<rparr>"

definition unmarshal_query :: "string \<Rightarrow> query_response option" where
  "unmarshal_query =
     unmarshal_with (\<lambda>j. map_option (\<lambda>(r, ps). r\<lparr>qr_points := slice_list ps\<rparr>)
       (decode_struct query_response_fields (zero_query_response, ([], 0)) j))"

section \<open>Pushing and querying\<close>

definition push_metrics ::
  "('e, 's) client_env \<Rightarrow> api_client \<Rightarrow> example_batch \<Rightarrow> 's \<Rightarrow> ('e client_error, int) result \<times> 's" where
  "push_metrics env c b = client_do env c ''POST'' ''/api/v1/metrics'' (Some (marshal_example_batch b)) unmarshal_ingested"

definition query_values :: "string \<Rightarrow> string \<Rightarrow> gotime \<Rightarrow> gotime \<Rightarrow> string \<Rightarrow> string \<Rightarrow> (string \<times> string) list" where
  "query_values host name t1 t2 bucket agg =
     [(''agg'', agg), (''bucket'', bucket), (''from'', format_rfc3339 t1), (''host'', host), (''name'', name),
      (''to'', format_rfc3339 t2)]"

definition client_query_path :: "string \<Rightarrow> string \<Rightarrow> gotime \<Rightarrow> gotime \<Rightarrow> string \<Rightarrow> string \<Rightarrow> string" where
  "client_query_path host name t1 t2 bucket agg =
     ''/api/v1/metrics/query?'' @ encode_values (query_values host name t1 t2 bucket agg)"

definition client_query ::
  "('e, 's) client_env \<Rightarrow> api_client \<Rightarrow> string \<Rightarrow> string \<Rightarrow> gotime \<Rightarrow> gotime \<Rightarrow> string \<Rightarrow> string \<Rightarrow> 's \<Rightarrow>
     ('e client_error, query_response) result \<times> 's" where
  "client_query env c host name t1 t2 bucket agg =
     client_do env c ''GET'' (client_query_path host name t1 t2 bucket agg) None unmarshal_query"

datatype 'e health_error = HealthHTTP 'e | HealthStatus int

definition health_request :: "string \<Rightarrow> request" where
  "health_request base = \<lparr>rq_method = ''GET'', rq_url = base @ ''/healthz'', rq_headers = [], rq_body = []\<rparr>"

definition check_health :: "('e, 's) client_env \<Rightarrow> string \<Rightarrow> 's \<Rightarrow> 'e health_error err \<times> 's" where
  "check_health env base s =
     (case ce_do env (health_request base) s of
        (Inl e, s') \<Rightarrow> (Some (HealthHTTP e), s')
      | (Inr (status, raw), s') \<Rightarrow> (if status \<noteq> 200 then Some (HealthStatus status) else None, s'))"

section \<open>The program\<close>

datatype 'e example_failure =
    URLNotSet
  | TokenNotSet
  | HealthFailed "'e health_error"
  | PushFailed "'e client_error"
  | ExampleQueryFailed "'e client_error"

definition example_metrics :: "gotime \<Rightarrow> example_batch" where
  "example_metrics now =
     \<lparr>eb_host = ''go-example'',
      eb_metrics =
        [\<lparr>em_time = format_rfc3339 now, em_host = ''go-example'', em_name = ''cpu.usage_pct'',
          em_value = f64_of_rat (378 / 10), em_labels = []\<rparr>,
         \<lparr>em_time = format_rfc3339 now, em_host = ''go-example'', em_name = ''mem.used_pct'',
          em_value = f64_of_rat (552 / 10), em_labels = []\<rparr>]\<rparr>"

text \<open>
  \<open>main\<close>; \<open>unix_now\<close> and \<open>now\<close> are its two readings of the clock.  What it prints is its result: the
  number of metrics and the answer of the query.
\<close>

definition example_main ::
  "(string \<Rightarrow> string) \<Rightarrow> ('e, 's) client_env \<Rightarrow> int \<Rightarrow> gotime \<Rightarrow> 's \<Rightarrow>
     ('e example_failure, int \<times> query_response) result \<times> 's" where
  "example_main getenv env unix_now now s =
     (let base = getenv ''MINIOBSERV_URL''; secret = getenv ''AGENT_TOKEN''
      in if base = [] then (Inl URLNotSet, s)
         else if secret = [] then (Inl TokenNotSet, s)
         else case check_health env base s of
           (Some e, s1) \<Rightarrow> (Inl (HealthFailed e), s1)
         | (None, s1) \<Rightarrow>
           let c = \<lparr>xc_base_url = trim_right_byte (CHR ''/'') base, xc_token = mint_jwt unix_now secret\<rparr>
           in case push_metrics env c (example_metrics now) s1 of
                (Inl e, s2) \<Rightarrow> (Inl (PushFailed e), s2)
              | (Inr n, s2) \<Rightarrow>
                (case client_query env c ''go-example'' ''cpu.usage_pct'' (now - 5 * minute)
                        (now + minute) ''1m'' ''avg'' s2 of
                   (Inl e, s3) \<Rightarrow> (Inl (ExampleQueryFailed e), s3)
                 | (Inr q, s3) \<Rightarrow> (Inr (n, q), s3)))"

section \<open>base64 read back\<close>

definition url_char :: "nat \<Rightarrow> char" where
  "url_char n =
     (if b64_char n = CHR ''+'' then CHR ''-'' else if b64_char n = CHR ''/'' then CHR ''_'' else b64_char n)"

definition url_value :: "char \<Rightarrow> nat option" where
  "url_value c = find (\<lambda>n. url_char n = c) [0..<64]"

text \<open>The decoding of RFC 4648 without padding, on byte values; the reference for the encoding.\<close>

fun raw_decode_values :: "nat list \<Rightarrow> nat list option" where
  "raw_decode_values [] = Some []"
| "raw_decode_values [v] = None"
| "raw_decode_values [v, w] = Some [4 * v + w div 16]"
| "raw_decode_values [v, w, x] = Some [4 * v + w div 16, w mod 16 * 16 + x div 4]"
| "raw_decode_values (v # w # x # y # s) =
     map_option (\<lambda>t. (4 * v + w div 16) # (w mod 16 * 16 + x div 4) # (x mod 4 * 64 + y) # t) (raw_decode_values s)"

definition raw_url_decode :: "string \<Rightarrow> string option" where
  "raw_url_decode s =
     (if list_all (\<lambda>c. url_value c \<noteq> None) s
      then map_option (map char_of) (raw_decode_values (map (the \<circ> url_value) s))
      else None)"

text \<open>The six-bit values of the encoding.\<close>

fun sextets :: "nat list \<Rightarrow> nat list" where
  "sextets [] = []"
| "sextets [a] = [a div 4, a mod 4 * 16]"
| "sextets [a, b] = [a div 4, a mod 4 * 16 + b div 16, b mod 16 * 4]"
| "sextets (a # b # c # s) =
     a div 4 # (a mod 4 * 16 + b div 16) # (b mod 16 * 4 + c div 64) # (c mod 64) # sextets s"

lemma std_encode_sextets: "\<exists>k. std_encode s = map b64_char (sextets s) @ replicate k (CHR ''='')"
proof (induction s rule: std_encode.induct)
  case (2 a)
  then show ?case by (intro exI [of _ 2]) (simp add: numeral_2_eq_2)
next
  case (3 a b)
  then show ?case by (intro exI [of _ 1]) simp
qed auto

lemma sextets_bound: "\<forall>a\<in>set s. a < 256 \<Longrightarrow> \<forall>v\<in>set (sextets s). v < 64"
proof (induction s rule: sextets.induct)
  case (4 a b c s)
  then have "a div 4 < 64" "b div 16 < 16" "c div 64 < 4" by (auto simp: div_less_iff_less_mult)
  moreover have "a mod 4 < 4" "b mod 16 < 16" "c mod 64 < 64" by simp_all
  ultimately show ?case using 4 by auto
next
  case (3 a b)
  then have "a div 4 < 64" "b div 16 < 16" by (auto simp: div_less_iff_less_mult)
  moreover have "a mod 4 < 4" "b mod 16 < 16" by simp_all
  ultimately show ?case by auto
next
  case (2 a)
  then have "a div 4 < 64" by (auto simp: div_less_iff_less_mult)
  moreover have "a mod 4 < 4" by simp
  ultimately show ?case by auto
qed simp

lemma length_sextets: "length (sextets s) = (4 * length s + 2) div 3"
  by (induction s rule: sextets.induct) auto

lemma decode_sextets: "\<forall>a\<in>set s. a < 256 \<Longrightarrow> raw_decode_values (sextets s) = Some s"
proof (induction s rule: sextets.induct)
  case (4 a b c s)
  then have "b div 16 < 16" "c div 64 < 4" by (auto simp: div_less_iff_less_mult)
  with 4 show ?case by (simp add: mult.commute [of _ 4] mult.commute [of _ 16])
next
  case (3 a b)
  then have "b div 16 < 16" by (auto simp: div_less_iff_less_mult)
  then show ?case by (simp add: mult.commute [of _ 4] mult.commute [of _ 16])
qed simp_all

lemma url_chars:
  "n < 64 \<Longrightarrow> url_value (url_char n) = Some n \<and> b64_char n \<noteq> CHR ''='' \<and> url_char n \<noteq> CHR ''.''"
proof -
  assume "n < 64"
  moreover have "list_all (\<lambda>n. url_value (url_char n) = Some n \<and> b64_char n \<noteq> CHR ''='' \<and> url_char n \<noteq> CHR ''.'') [0..<64]"
    by code_simp
  ultimately show ?thesis by (simp add: list_all_iff del: upt_rec_numeral upt_Suc)
qed

lemma dropWhile_all_hd: "\<forall>x\<in>set xs. \<not> P x \<Longrightarrow> dropWhile P xs = xs"
  by (cases xs) auto

lemma trim_padding:
  assumes "c \<notin> set s"
  shows "trim_right_byte c (s @ replicate k c) = s"
proof -
  have "dropWhile (\<lambda>d. d = c) (rev s) = rev s" using assms by (intro dropWhile_all_hd) auto
  then show ?thesis by (simp add: trim_right_byte_def dropWhile_append)
qed

lemma bytes_bound: "\<forall>a\<in>set (map of_char data). a < (256 :: nat)"
  by (auto simp: nat_of_char_less_256)

lemma base64_url_sextets: "base64_url_encode data = map url_char (sextets (map of_char data))"
proof -
  let ?v = "sextets (map of_char data)"
  obtain k where k: "std_encode (map of_char data) = map b64_char ?v @ replicate k (CHR ''='')"
    using std_encode_sextets by blast
  have v: "v < 64" if "v \<in> set ?v" for v using sextets_bound [OF bytes_bound] that by blast
  have "replace_all (CHR ''/'') (CHR ''_'') (replace_all (CHR ''+'') (CHR ''-'') (std_encode (map of_char data))) =
      map url_char ?v @ replicate k (CHR ''='')"
    by (auto simp: k replace_all_def url_char_def)
  moreover have "CHR ''='' \<notin> set (map url_char ?v)" using url_chars v by (force simp: url_char_def split: if_splits)
  ultimately show ?thesis unfolding base64_url_encode_def by (simp add: trim_padding)
qed

lemma base64_url_round_trip: "raw_url_decode (base64_url_encode data) = Some data"
proof -
  let ?v = "sextets (map of_char data)"
  have v: "url_value (url_char n) = Some n" if "n \<in> set ?v" for n
    using url_chars sextets_bound [OF bytes_bound] that by blast
  then have "map (the \<circ> url_value) (map url_char ?v) = ?v" by (simp add: map_idI)
  moreover have "list_all (\<lambda>c. url_value c \<noteq> None) (map url_char ?v)" using v by (simp add: list_all_iff)
  ultimately show ?thesis
    using decode_sextets [OF bytes_bound, of data] by (simp add: raw_url_decode_def base64_url_sextets comp_def)
qed

lemma base64_url_no_dot: "CHR ''.'' \<notin> set (base64_url_encode data)"
  using url_chars sextets_bound [OF bytes_bound, of data] by (force simp: base64_url_sextets)

section \<open>The token read back\<close>

text \<open>
  What a verifier of HS256 tokens checks, by RFC 7519 and RFC 7515: three parts, the algorithm of the
  header, the signature under the secret, and the expiry, in seconds of Unix time.
\<close>

definition text_field :: "string \<Rightarrow> json \<Rightarrow> string option" where
  "text_field name = decode_struct [(name, decode_string)] []"

definition int_field :: "string \<Rightarrow> json \<Rightarrow> int option" where
  "int_field name = decode_struct [(name, decode_int64)] 0"

definition unix_epoch :: int where
  "unix_epoch = 62135596800"

definition hs256_valid :: "string \<Rightarrow> string \<Rightarrow> gotime \<Rightarrow> bool" where
  "hs256_valid secret token now \<longleftrightarrow>
     (case split_on (CHR ''.'') token of
        [h, p, sig] \<Rightarrow>
          Option.bind (raw_url_decode h) (unmarshal_with (text_field ''alg'')) = Some ''HS256'' \<and>
          raw_url_decode sig = Some (hmac_sha256 secret (h @ ''.'' @ p)) \<and>
          (case Option.bind (raw_url_decode p) (unmarshal_with (int_field ''exp'')) of
             None \<Rightarrow> False
           | Some e \<Rightarrow> now < (e + unix_epoch) * second)
      | _ \<Rightarrow> False)"

lemma jwt_header_tree:
  "jwt_header = JObj [json_field ''alg'' (json_of_string ''HS256''), json_field ''typ'' (json_of_string ''JWT'')]"
  by (simp add: jwt_header_def json_of_map_def)

lemma jwt_payload_tree:
  "jwt_payload now =
     JObj [json_field ''exp'' (json_of_int (now + 86400)), json_field ''iat'' (json_of_int now),
       json_field ''iss'' (json_of_string ''miniobserv-agent'')]"
  by (simp add: jwt_payload_def json_object_def)

lemma json_field_well_formed [simp]: "raw_string (fst (json_field n j))" "snd (json_field n j) = j"
  by (simp_all add: json_field_def)

lemma jwt_parts_well_formed: "well_formed 0 jwt_header" "well_formed 0 (jwt_payload now)"
  by (auto simp: jwt_header_tree jwt_payload_tree json_field_def max_nesting_def)

lemma mint_jwt_split:
  "split_on (CHR ''.'') (mint_jwt now secret) =
     [json_base64_url jwt_header, json_base64_url (jwt_payload now),
      base64_url_encode (hmac_sha256 secret (json_base64_url jwt_header @ ''.'' @ json_base64_url (jwt_payload now)))]"
  unfolding mint_jwt_def Let_def json_base64_url_def
  using base64_url_no_dot by (simp add: split_on_append split_on_plain)

lemma jwt_decode: "raw_url_decode (json_base64_url v) = Some (render v)"
  by (simp add: json_base64_url_def base64_url_round_trip)

lemma decode_field:
  "decode_fields tbl x (json_field n j # ms) =
     (case find_field tbl (to_valid n) of
        None \<Rightarrow> decode_fields tbl x ms
      | Some f \<Rightarrow> (case f x j of None \<Rightarrow> None | Some y \<Rightarrow> decode_fields tbl y ms))"
  by (simp add: json_field_def unquote_escape)

lemma jwt_names:
  "to_valid ''alg'' = ''alg''" "to_valid ''typ'' = ''typ''" "to_valid ''exp'' = ''exp''" "to_valid ''iat'' = ''iat''"
  "to_valid ''iss'' = ''iss''" "to_valid ''HS256'' = ''HS256''" "to_valid ''miniobserv-agent'' = ''miniobserv-agent''"
  "fold_name ''alg'' = ''alg''" "fold_name ''typ'' = ''typ''" "fold_name ''exp'' = ''exp''" "fold_name ''iat'' = ''iat''"
  "fold_name ''iss'' = ''iss''"
  by code_simp+

lemma jwt_fields:
  "unmarshal_with (text_field ''alg'') (render jwt_header) = Some ''HS256''"
  "unmarshal_with (text_field ''iss'') (render (jwt_payload t)) = Some ''miniobserv-agent''"
  "- (2 ^ 63) \<le> t \<Longrightarrow> t < 2 ^ 63 \<Longrightarrow> unmarshal_with (int_field ''iat'') (render (jwt_payload t)) = Some t"
  "- (2 ^ 63) \<le> t + 86400 \<Longrightarrow> t + 86400 < 2 ^ 63 \<Longrightarrow>
     unmarshal_with (int_field ''exp'') (render (jwt_payload t)) = Some (t + 86400)"
  unfolding decode_render(2) [OF jwt_parts_well_formed(1)] decode_render(2) [OF jwt_parts_well_formed(2)]
  unfolding jwt_header_tree jwt_payload_tree text_field_def int_field_def
  by (simp_all add: decode_struct_def decode_field find_field_def jwt_names decode_int64_json del: fold_name.simps)

lemma mint_jwt_valid:
  assumes "- (2 ^ 63) \<le> unix_now" "unix_now < 2 ^ 63 - 86400"
  shows "hs256_valid secret (mint_jwt unix_now secret) now \<longleftrightarrow> now < (unix_now + 86400 + unix_epoch) * second"
proof -
  let ?h = "json_base64_url jwt_header" and ?p = "json_base64_url (jwt_payload unix_now)"
  let ?sig = "base64_url_encode (hmac_sha256 secret (?h @ ''.'' @ ?p))"
  note mint_jwt_split [of unix_now secret] jwt_decode [of jwt_header] jwt_decode [of "jwt_payload unix_now"]
  moreover have "raw_url_decode ?sig = Some (hmac_sha256 secret (?h @ ''.'' @ ?p))" by (rule base64_url_round_trip)
  moreover note jwt_fields(1) jwt_fields(4) [of unix_now]
  ultimately show ?thesis using assms by (simp add: hs256_valid_def)
qed

text \<open>
  C24. The token minted by hand is a JWT that a verifier of HS256 tokens accepts: three parts, the
  signature of the first two, and the claims with an expiry a day after the issue.  It is valid under
  its secret until that time and not from then on.
\<close>

theorem jwt_three_parts:
  assumes "- (2 ^ 63) \<le> unix_now" "unix_now < 2 ^ 63 - 86400"
  shows "(\<exists>h p sig. split_on (CHR ''.'') (mint_jwt unix_now secret) = [h, p, sig] \<and> length sig = 43 \<and>
      Option.bind (raw_url_decode p) (unmarshal_with (text_field ''iss'')) = Some ''miniobserv-agent'' \<and>
      Option.bind (raw_url_decode p) (unmarshal_with (int_field ''iat'')) = Some unix_now) \<and>
    (hs256_valid secret (mint_jwt unix_now secret) now \<longleftrightarrow> now < (unix_now + 86400 + unix_epoch) * second)"
proof -
  let ?h = "json_base64_url jwt_header" and ?p = "json_base64_url (jwt_payload unix_now)"
  let ?sig = "base64_url_encode (hmac_sha256 secret (?h @ ''.'' @ ?p))"
  have "length ?sig = 43" by (simp add: base64_url_sextets length_sextets)
  then show ?thesis
    using assms mint_jwt_split [of unix_now secret] jwt_fields(2,3) [of unix_now] mint_jwt_valid [OF assms]
    by (simp add: jwt_decode)
qed

lemma jwt_three_parts_witness:
  "hs256_valid ''secret'' (mint_jwt 1700000000 ''secret'') ((1700000000 + unix_epoch) * second) \<and>
    \<not> hs256_valid ''secret'' (mint_jwt 1700000000 ''secret'') ((1700086400 + unix_epoch) * second)"
  using jwt_three_parts [of 1700000000 "''secret''" "(1700000000 + unix_epoch) * second"]
    jwt_three_parts [of 1700000000 "''secret''" "(1700086400 + unix_epoch) * second"]
  by (simp add: second_def)

end
