(* ===== verification/Server_Lifecycle.thy ===== *)
theory Server_Lifecycle
  imports Go_Std
begin

text \<open>
  The end of the server: \<open>Start\<close> and \<open>Shutdown\<close> of \<open>internal/server/server.go\<close> and the wait in
  \<open>cmd/server/main.go\<close>, as steps over the requests in flight.  What net/http documents is in the steps:
  after \<open>Shutdown\<close> no request is accepted, and \<open>Shutdown\<close> returns when none is in flight or when its
  context ends.
\<close>

section \<open>State and steps\<close>

text \<open>
  \<open>Serving\<close> until the signal context ends and \<open>Shutdown\<close> is called; \<open>Draining\<close> inside
  \<open>httpServer.Shutdown\<close>; \<open>Stopped\<close> after \<open>pool.Close\<close>.
\<close>

datatype phase = Serving | Draining | Stopped

record life =
  lf_phase :: phase
  lf_listening :: bool
  lf_cancelled :: bool
  lf_in_flight :: nat
  lf_drain_failed :: bool
  lf_pool_open :: bool
  lf_refused :: nat \<comment> \<open>queries on a closed pool\<close>

definition new_life :: life where
  "new_life = \<lparr>lf_phase = Serving, lf_listening = True, lf_cancelled = False, lf_in_flight = 0,
     lf_drain_failed = False, lf_pool_open = True, lf_refused = 0\<rparr>"

datatype life_event =
    Signal
  | ListenFails
  | RequestArrives
  | PoolQuery
  | RequestEnds
  | ShutdownCalled
  | DrainReturns bool \<comment> \<open>whether it returned an error, the end of its context\<close>

definition pool_query :: "life \<Rightarrow> life" where
  "pool_query s = (if lf_pool_open s then s else s\<lparr>lf_refused := Suc (lf_refused s)\<rparr>)"

text \<open>The goroutine around \<open>Start\<close> cancels the context when listening fails; when the context ends, \<open>main\<close>
  calls \<open>Shutdown\<close>.\<close>

definition listen_failed :: "life \<Rightarrow> life" where
  "listen_failed s = s\<lparr>lf_listening := False, lf_cancelled := True\<rparr>"

definition begin_shutdown :: "life \<Rightarrow> life" where
  "begin_shutdown s = s\<lparr>lf_phase := Draining, lf_listening := False\<rparr>"

text \<open>\<open>Shutdown\<close> after the drain: the error is only logged, and the pool is closed either way.\<close>

definition after_drain :: "bool \<Rightarrow> life \<Rightarrow> life" where
  "after_drain failed s = s\<lparr>lf_phase := Stopped, lf_drain_failed := failed, lf_pool_open := False\<rparr>"

inductive life_step :: "life \<Rightarrow> life_event \<Rightarrow> life \<Rightarrow> bool" where
  signal: "life_step s Signal (s\<lparr>lf_cancelled := True\<rparr>)"
| listen_fails: "lf_listening s \<Longrightarrow> life_step s ListenFails (listen_failed s)"
| arrives: "lf_phase s = Serving \<Longrightarrow> lf_listening s \<Longrightarrow>
    life_step s RequestArrives (s\<lparr>lf_in_flight := Suc (lf_in_flight s)\<rparr>)"
| query: "0 < lf_in_flight s \<Longrightarrow> life_step s PoolQuery (pool_query s)"
| ends: "lf_in_flight s = Suc n \<Longrightarrow> life_step s RequestEnds (s\<lparr>lf_in_flight := n\<rparr>)"
| shutdown: "lf_phase s = Serving \<Longrightarrow> lf_cancelled s \<Longrightarrow>
    life_step s ShutdownCalled (begin_shutdown s)"
| drained: "lf_phase s = Draining \<Longrightarrow> lf_in_flight s = 0 \<Longrightarrow> life_step s (DrainReturns False) (after_drain False s)"
| drain_failed: "lf_phase s = Draining \<Longrightarrow> life_step s (DrainReturns True) (after_drain True s)"

inductive_cases life_stepE: "life_step s e s'"

inductive life_run :: "life \<Rightarrow> life_event list \<Rightarrow> life \<Rightarrow> bool" where
  idle: "life_run s [] s"
| more: "life_step s e s' \<Longrightarrow> life_run s' es s'' \<Longrightarrow> life_run s (e # es) s''"

section \<open>The invariant\<close>

definition life_inv :: "life \<Rightarrow> bool" where
  "life_inv s \<longleftrightarrow>
     (lf_pool_open s \<longleftrightarrow> lf_phase s \<noteq> Stopped) \<and>
     (lf_phase s = Stopped \<and> \<not> lf_drain_failed s \<longrightarrow> lf_in_flight s = 0) \<and>
     (lf_drain_failed s \<longrightarrow> lf_phase s = Stopped) \<and>
     (\<not> lf_drain_failed s \<longrightarrow> lf_refused s = 0) \<and> (lf_phase s \<noteq> Serving \<longrightarrow> lf_cancelled s)"

lemma new_life_inv: "life_inv new_life"
  by (simp add: life_inv_def new_life_def)

lemma life_step_inv: "life_step s e s' \<Longrightarrow> life_inv s \<Longrightarrow> life_inv s'"
  by (induction rule: life_step.induct) (auto simp: life_inv_def pool_query_def after_drain_def listen_failed_def begin_shutdown_def)

lemma life_run_inv: "life_run s es s' \<Longrightarrow> life_inv s \<Longrightarrow> life_inv s'"
  by (induction rule: life_run.induct) (auto dest: life_step_inv)

text \<open>Which events explain the flags.\<close>

lemma life_run_flags:
  "life_run t es s \<Longrightarrow> (lf_drain_failed s \<longrightarrow> lf_drain_failed t \<or> DrainReturns True \<in> set es) \<and>
     (lf_cancelled s \<longrightarrow> lf_cancelled t \<or> Signal \<in> set es \<or> ListenFails \<in> set es)"
  by (induction rule: life_run.induct)
    (auto elim!: life_stepE simp: after_drain_def pool_query_def listen_failed_def begin_shutdown_def split: if_splits)

text \<open>
  C13. No request in flight ever finds the pool closed unless the drain ran out of its time: the pool
  closes only after the drain, and after a drain that succeeded nothing is in flight.  The server stops
  serving only after a signal or a failure to listen.
\<close>

theorem drain_before_close:
  assumes "life_run new_life es s"
  shows "(DrainReturns True \<notin> set es \<longrightarrow> lf_refused s = 0 \<and> (lf_pool_open s \<or> lf_in_flight s = 0)) \<and>
    (lf_phase s \<noteq> Serving \<longrightarrow> Signal \<in> set es \<or> ListenFails \<in> set es)"
  using life_run_flags [OF assms] life_run_inv [OF assms new_life_inv] by (auto simp: life_inv_def new_life_def)

lemma drain_before_close_witness:
  "\<exists>s. life_run new_life [RequestArrives, Signal, ShutdownCalled, PoolQuery, RequestEnds, DrainReturns False] s \<and>
     lf_refused s = 0"
proof -
  let ?es = "[RequestArrives, Signal, ShutdownCalled, PoolQuery, RequestEnds, DrainReturns False]"
  have "\<exists>s. life_run new_life ?es s"
    unfolding new_life_def
    by (rule exI, (rule life_run.more, (rule life_step.intros; simp add: pool_query_def after_drain_def begin_shutdown_def; fail), simp?)+, rule life_run.idle)
  then obtain s where s: "life_run new_life ?es s" by blast
  with drain_before_close [OF s] show ?thesis by auto
qed

end
