(* ===== verification/Go_Mux.thy ===== *)
theory Go_Mux
  imports Prelude
begin

text \<open>
  \<open>http.ServeMux\<close> of Go 1.22 and later for the patterns of the stub server and the demo app: a method
  and a path whose segments are literal or a wildcard \<open>{name}\<close>.  Paths are taken without percent escapes.
\<close>

datatype segment = Lit string | Wild

text \<open>A pattern: its method and its segments.\<close>

type_synonym mux_pattern = "string \<times> segment list"

datatype mux_result =
    Matched nat "string list" \<comment> \<open>the pattern and the values of its wildcards\<close>
  | Redirected
  | MethodNotAllowed
  | NoRoute

text \<open>The path split at its slashes, without the empty string before the first.\<close>

definition path_segments :: "string \<Rightarrow> string list" where
  "path_segments p = tl (split_on (CHR ''/'') p)"

text \<open>A path that \<open>path.Clean\<close> leaves alone; any other is redirected to its clean form.\<close>

definition clean_path :: "string \<Rightarrow> bool" where
  "clean_path p \<longleftrightarrow>
     p \<noteq> [] \<and> hd p = CHR ''/'' \<and> list_all (\<lambda>s. s \<noteq> ''.'' \<and> s \<noteq> ''..'') (path_segments p) \<and>
     list_all (\<lambda>s. s \<noteq> []) (butlast (path_segments p))"

fun match_segments :: "segment list \<Rightarrow> string list \<Rightarrow> string list option" where
  "match_segments [] [] = Some []"
| "match_segments (Lit l # ps) (s # ss) = (if s = l then match_segments ps ss else None)"
| "match_segments (Wild # ps) (s # ss) = (if s = [] then None else map_option (Cons s) (match_segments ps ss))"
| "match_segments ps ss = None"

text \<open>A pattern with the method GET also takes HEAD.\<close>

definition method_matches :: "string \<Rightarrow> string \<Rightarrow> bool" where
  "method_matches pm m \<longleftrightarrow> pm = m \<or> pm = ''GET'' \<and> m = ''HEAD''"

fun mux_match :: "nat \<Rightarrow> mux_pattern list \<Rightarrow> string \<Rightarrow> string list \<Rightarrow> (nat \<times> string list) option" where
  "mux_match i [] m ss = None"
| "mux_match i ((pm, ps) # pats) m ss =
     (case match_segments ps ss of
        Some vs \<Rightarrow> if method_matches pm m then Some (i, vs) else mux_match (Suc i) pats m ss
      | None \<Rightarrow> mux_match (Suc i) pats m ss)"

definition mux_find :: "mux_pattern list \<Rightarrow> string \<Rightarrow> string \<Rightarrow> mux_result" where
  "mux_find pats m p =
     (if \<not> clean_path p then Redirected
      else case mux_match 0 pats m (path_segments p) of
        Some (i, vs) \<Rightarrow> Matched i vs
      | None \<Rightarrow>
        if list_ex (\<lambda>(pm, ps). match_segments ps (path_segments p) \<noteq> None) pats then MethodNotAllowed else NoRoute)"

text \<open>What the mux answers itself.\<close>

primrec mux_status :: "mux_result \<Rightarrow> nat" where
  "mux_status (Matched i vs) = 200"
| "mux_status Redirected = 301"
| "mux_status MethodNotAllowed = 405"
| "mux_status NoRoute = 404"

end
