(* ===== verification/Stub_Server.thy ===== *)
theory Stub_Server
  imports Go_Mux Model_Json
begin

text \<open>
  The stub server, \<open>cmd/stubserver/main.go\<close>, which takes any batch it can decode.  The text of
  a decoding error is a parameter; its log lines are left out.
\<close>

definition stub_addr :: "string \<Rightarrow> string" where
  "stub_addr env_addr = (if env_addr = [] then '':8080'' else env_addr)"

definition stub_health :: "nat \<times> string" where
  "stub_health = (200, ''ok'')"

definition stub_ingest :: "(string \<Rightarrow> string) \<Rightarrow> string \<Rightarrow> nat \<times> string" where
  "stub_ingest syntax_text body =
     (case decode_metric_batch body of
        None \<Rightarrow> (400, ''bad request: '' @ syntax_text body @ [char_of (10 :: nat)])
      | Some batch \<Rightarrow>
        (202, ''{'' @ [CHR 0x22] @ ''ingested'' @ [CHR 0x22] @ '':'' @ fmt_d (int (length (mb_metrics batch))) @ ''}''))"

definition stub_patterns :: "mux_pattern list" where
  "stub_patterns =
     [(''GET'', [Lit ''healthz'']), (''POST'', [Lit ''api'', Lit ''v1'', Lit ''metrics''])]"

text \<open>Status and body; what the mux answers itself has no body here.\<close>

definition stub_serve ::
  "(string \<Rightarrow> string) \<Rightarrow> string \<Rightarrow> string \<Rightarrow> string \<Rightarrow> nat \<times> string" where
  "stub_serve syntax_text meth path body =
     (case mux_find stub_patterns meth path of
        Matched i vs \<Rightarrow> if i = 0 then stub_health else stub_ingest syntax_text body
      | other \<Rightarrow> (mux_status other, []))"

text \<open>The stub has no rules of its own: a batch with a blank host or without metrics is accepted too.\<close>

lemma stub_accepts:
  "decode_metric_batch body = Some batch \<Longrightarrow> fst (stub_serve syntax_text ''POST'' ''/api/v1/metrics'' body) = 202"
proof -
  assume d: "decode_metric_batch body = Some batch"
  have "mux_find stub_patterns ''POST'' ''/api/v1/metrics'' = Matched 1 []" by code_simp
  then show ?thesis by (simp add: stub_serve_def stub_ingest_def d)
qed

end
