(* ===== verification/Simulation.thy ===== *)
theory Simulation
  imports Main
begin

text \<open>
  Forward simulation: what it takes for the operations of a component to implement an abstract
  specification, and what follows for every sequence of operations.
\<close>

text \<open>The outputs of a sequence of operations and the state it leaves.\<close>

fun run_ops :: "('op \<Rightarrow> 's \<Rightarrow> 'out \<times> 's) \<Rightarrow> 'op list \<Rightarrow> 's \<Rightarrow> 'out list \<times> 's" where
  "run_ops step [] s = ([], s)"
| "run_ops step (x # xs) s =
     (let (o1, s1) = step x s; (os, s2) = run_ops step xs s1 in (o1 # os, s2))"

text \<open>Every operation is legal in the state it meets.\<close>

fun legal_ops :: "('op \<Rightarrow> 's \<Rightarrow> 'out \<times> 's) \<Rightarrow> ('op \<Rightarrow> 's \<Rightarrow> bool) \<Rightarrow> 'op list \<Rightarrow> 's \<Rightarrow> bool" where
  "legal_ops step legal [] s = True"
| "legal_ops step legal (x # xs) s = (legal x s \<and> legal_ops step legal xs (snd (step x s)))"

locale simulation =
  fixes concrete :: "'op \<Rightarrow> 'c \<Rightarrow> 'out \<times> 'c"
    and abstract :: "'op \<Rightarrow> 'a \<Rightarrow> 'out \<times> 'a"
    and legal :: "'op \<Rightarrow> 'c \<Rightarrow> bool"
    and implements :: "'c \<Rightarrow> 'a \<Rightarrow> bool"
    and same_output :: "'out \<Rightarrow> 'out \<Rightarrow> bool"
  assumes step_output:
      "implements c a \<Longrightarrow> legal x c \<Longrightarrow> same_output (fst (concrete x c)) (fst (abstract x a))"
    and step_state: "implements c a \<Longrightarrow> legal x c \<Longrightarrow> implements (snd (concrete x c)) (snd (abstract x a))"
begin

lemma run_simulates:
  "implements c a \<Longrightarrow> legal_ops concrete legal xs c \<Longrightarrow>
     list_all2 same_output (fst (run_ops concrete xs c)) (fst (run_ops abstract xs a)) \<and>
     implements (snd (run_ops concrete xs c)) (snd (run_ops abstract xs a))"
  using step_output step_state
  by (induction xs arbitrary: c a) (auto simp: case_prod_unfold Let_def)

end

end
