(* ===== verification/Demo_App.thy ===== *)
theory Demo_App
  imports Go_Mux Go_Slog Send_Loop Simulation "HOL-Library.Multiset"
begin

text \<open>
  The demo application and its load generator, \<open>example/06-demo-app\<close>: the task store, its handlers with
  the logging wrapper, the Fibonacci endpoint, and the batches of requests of the generator.  The network
  is a parameter; map iteration order is an argument.
\<close>

section \<open>The store\<close>

record task =
  tk_id :: int
  tk_title :: string
  tk_created_at :: string

record store =
  so_tasks :: "int \<rightharpoonup> task"
  so_counter :: int

definition new_store :: store where
  "new_store = \<lparr>so_tasks = Map.empty, so_counter = 0\<rparr>"

definition store_create :: "gotime \<Rightarrow> string \<Rightarrow> store \<Rightarrow> task \<times> store" where
  "store_create now title s =
     (let n = so_counter s + 1;
          t = \<lparr>tk_id = n, tk_title = title, tk_created_at = format_rfc3339 now\<rparr>
      in (t, \<lparr>so_tasks = (so_tasks s)(n \<mapsto> t), so_counter = n\<rparr>))"

definition store_list :: "int list \<Rightarrow> store \<Rightarrow> task list" where
  "store_list order s = List.map_filter (so_tasks s) order"

definition store_get :: "int \<Rightarrow> store \<Rightarrow> task option" where
  "store_get i s = so_tasks s i"

definition store_delete :: "int \<Rightarrow> store \<Rightarrow> bool \<times> store" where
  "store_delete i s =
     (if so_tasks s i \<noteq> None then (True, s\<lparr>so_tasks := (so_tasks s)(i := None)\<rparr>) else (False, s))"

section \<open>Fibonacci\<close>

function fib :: "int \<Rightarrow> int" where
  "fib n = (if n \<le> 1 then n else fib (n - 1) + fib (n - 2))"
  by pat_completeness auto
termination by (relation "measure nat") auto

declare fib.simps [simp del]

section \<open>The handlers\<close>

datatype demo_body =
    DemoEmpty
  | DemoError string
  | DemoStatus string
  | DemoTask task
  | DemoTasks "task list"
  | DemoSlow string int
  | DemoCpu string int

record demo_request =
  dr_method :: string
  dr_path :: string
  dr_body :: string

text \<open>What a request reads besides: the clock, the order of the map and \<open>rand.Intn(400)\<close>.\<close>

record app_env =
  de_now :: gotime
  de_order :: "int list"
  de_rand :: int

text \<open>The body's struct has the one field \<open>title\<close>.\<close>

definition decode_title :: "string \<Rightarrow> string option" where
  "decode_title = decode_body (decode_struct [(''title'', decode_string)] [])"

definition handle_create :: "app_env \<Rightarrow> demo_request \<Rightarrow> store \<Rightarrow> (nat \<times> demo_body) \<times> store" where
  "handle_create env r s =
     (case decode_title (dr_body r) of
        None \<Rightarrow> ((400, DemoError ''title is required''), s)
      | Some title \<Rightarrow>
        if trim_space title = [] then ((400, DemoError ''title is required''), s)
        else let (t, s') = store_create (de_now env) (trim_space title) s in ((201, DemoTask t), s'))"

definition handle_get :: "string \<Rightarrow> store \<Rightarrow> (nat \<times> demo_body) \<times> store" where
  "handle_get id_str s =
     (case parse_int64 id_str of
        None \<Rightarrow> ((400, DemoError ''invalid task id''), s)
      | Some i \<Rightarrow>
        (case store_get i s of
           None \<Rightarrow> ((404, DemoError ''task not found''), s)
         | Some t \<Rightarrow> ((200, DemoTask t), s)))"

definition handle_delete :: "string \<Rightarrow> store \<Rightarrow> (nat \<times> demo_body) \<times> store" where
  "handle_delete id_str s =
     (case parse_int64 id_str of
        None \<Rightarrow> ((400, DemoError ''invalid task id''), s)
      | Some i \<Rightarrow>
        let (ok, s') = store_delete i s
        in if \<not> ok then ((404, DemoError ''task not found''), s') else ((204, DemoEmpty), s'))"

definition handle_slow :: "app_env \<Rightarrow> store \<Rightarrow> (nat \<times> demo_body) \<times> store" where
  "handle_slow env s =
     (let delay = (100 + de_rand env) * millisecond in ((200, DemoSlow ''slow response'' (delay div millisecond)), s))"

definition handle_cpu :: "store \<Rightarrow> (nat \<times> demo_body) \<times> store" where
  "handle_cpu s = ((200, DemoCpu ''cpu work done'' (fib 35)), s)"

definition demo_patterns :: "mux_pattern list" where
  "demo_patterns =
     [(''GET'', [Lit ''healthz'']), (''POST'', [Lit ''tasks'']), (''GET'', [Lit ''tasks'']),
      (''GET'', [Lit ''tasks'', Wild]), (''DELETE'', [Lit ''tasks'', Wild]), (''GET'', [Lit ''slow'']),
      (''GET'', [Lit ''cpu''])]"

text \<open>The handler of each pattern; the wildcard's value is \<open>PathValue("id")\<close>.\<close>

definition demo_handler :: "nat \<Rightarrow> string list \<Rightarrow> app_env \<Rightarrow> demo_request \<Rightarrow> store \<Rightarrow> (nat \<times> demo_body) \<times> store" where
  "demo_handler i vs env r s =
     (if i = 0 then ((200, DemoStatus ''ok''), s)
      else if i = 1 then handle_create env r s
      else if i = 2 then ((200, DemoTasks (store_list (de_order env) s)), s)
      else if i = 3 then handle_get (hd vs) s
      else if i = 4 then handle_delete (hd vs) s
      else if i = 5 then handle_slow env s
      else handle_cpu s)"

text \<open>\<open>writeJSON\<close>; an empty body is that of \<open>WriteHeader\<close> alone or of the mux.\<close>

definition task_json :: "task \<Rightarrow> json" where
  "task_json t =
     JObj
       [json_field ''id'' (json_of_int (tk_id t)), json_field ''title'' (json_of_string (tk_title t)),
        json_field ''created_at'' (json_of_string (tk_created_at t))]"

definition demo_text :: "demo_body \<Rightarrow> string" where
  "demo_text b =
     (case b of
        DemoEmpty \<Rightarrow> []
      | DemoError msg \<Rightarrow> render (json_of_map [(''error'', msg)]) @ [newline]
      | DemoStatus st \<Rightarrow> render (json_of_map [(''status'', st)]) @ [newline]
      | DemoTask t \<Rightarrow> render (task_json t) @ [newline]
      | DemoTasks ts \<Rightarrow> render (JArr (map task_json ts)) @ [newline]
      | DemoSlow msg ms \<Rightarrow>
          render (JObj [json_field ''delay_ms'' (json_of_int ms), json_field ''message'' (json_of_string msg)]) @ [newline]
      | DemoCpu msg n \<Rightarrow>
          render (JObj [json_field ''fib_35'' (json_of_int n), json_field ''message'' (json_of_string msg)]) @ [newline])"

text \<open>The wrapper logs the request with the status the handler wrote; the mux logs nothing itself.\<close>

type_synonym access_log = "(string \<times> string \<times> nat) list"

definition demo_serve :: "app_env \<Rightarrow> demo_request \<Rightarrow> store \<Rightarrow> ((nat \<times> demo_body) \<times> access_log) \<times> store" where
  "demo_serve env r s =
     (case mux_find demo_patterns (dr_method r) (dr_path r) of
        Matched i vs \<Rightarrow>
          let ((status, body), s') = demo_handler i vs env r s
          in (((status, body), [(dr_method r, dr_path r, status)]), s')
      | other \<Rightarrow> (((mux_status other, DemoEmpty), []), s))"

text \<open>The line of the log file for an entry; the record's time and the duration are read by the wrapper.\<close>

definition access_line :: "int \<Rightarrow> gotime \<Rightarrow> duration \<Rightarrow> string \<times> string \<times> nat \<Rightarrow> string" where
  "access_line offset now took entry =
     (case entry of (meth, path, status) \<Rightarrow>
        slog_line offset now LevelInfo ''request''
          [(''method'', SlogString meth), (''path'', SlogString path), (''status'', SlogInt (int status)),
           (''duration_ms'', SlogInt (took div millisecond))])"

section \<open>The load generator\<close>

text \<open>\<open>client\<close> is the HTTP client: the status of the response or an error.\<close>

definition load_get :: "('r \<Rightarrow> ('e, int) result) \<Rightarrow> 'r \<Rightarrow> bool" where
  "load_get client r = (case client r of Inl e \<Rightarrow> False | Inr status \<Rightarrow> \<not> status \<ge> 500)"

definition load_post :: "('r \<Rightarrow> ('e, int) result) \<Rightarrow> 'r \<Rightarrow> bool" where
  "load_post client r = (case client r of Inl e \<Rightarrow> False | Inr status \<Rightarrow> \<not> status \<ge> 400)"

text \<open>The wait before the load: polls, two seconds apart, until one succeeds.  \<open>poll k\<close> is the k-th.\<close>

partial_function (option) wait_ready :: "(nat \<Rightarrow> bool) \<Rightarrow> nat \<Rightarrow> nat option" where
  "wait_ready poll k = (if poll k then Some k else wait_ready poll (Suc k))"

definition load_titles :: "string list" where
  "load_titles =
     [''Buy groceries'', ''Fix the CI pipeline'', ''Write unit tests'', ''Review pull request'',
      ''Update documentation'', ''Deploy to production'', ''Refactor auth module'', ''Add rate limiting'',
      ''Profile memory usage'', ''Rotate secrets'']"

text \<open>\<open>draw\<close> is the number \<open>rand.Intn\<close> returns.\<close>

definition random_title :: "nat \<Rightarrow> string" where
  "random_title draw = load_titles ! draw"

datatype load_request = LoadGet string | LoadPost string string

definition load_body :: "string \<Rightarrow> string" where
  "load_body title = render (json_of_map [(''title'', title)])"

text \<open>One batch: six lists, two posts with random titles, a slow and a busy request.\<close>

definition load_batch :: "string \<Rightarrow> (nat \<Rightarrow> nat) \<Rightarrow> load_request list" where
  "load_batch base rand =
     replicate 6 (LoadGet (base @ ''/tasks'')) @
     map (\<lambda>i. LoadPost (base @ ''/tasks'') (load_body (random_title (rand i)))) [0..<2] @
     [LoadGet (base @ ''/slow''), LoadGet (base @ ''/cpu'')]"

definition load_ok :: "(nat \<Rightarrow> load_request \<Rightarrow> ('e, int) result) \<Rightarrow> nat \<Rightarrow> load_request \<Rightarrow> bool" where
  "load_ok client k r = (case r of LoadGet _ \<Rightarrow> load_get (client k) r | LoadPost _ _ \<Rightarrow> load_post (client k) r)"

text \<open>The counts of a batch, \<open>ok\<close> and \<open>fail\<close>.\<close>

fun load_counts :: "(nat \<Rightarrow> load_request \<Rightarrow> ('e, int) result) \<Rightarrow> nat \<Rightarrow> load_request list \<Rightarrow> nat \<times> nat" where
  "load_counts client k [] = (0, 0)"
| "load_counts client k (r # rs) =
     (let (ok, bad) = load_counts client (Suc k) rs
      in if load_ok client k r then (Suc ok, bad) else (ok, Suc bad))"

definition load_base :: "(string \<Rightarrow> string) \<Rightarrow> string" where
  "load_base getenv = (if getenv ''DEMO_URL'' = [] then ''http://demoapp:9000'' else getenv ''DEMO_URL'')"

text \<open>
  \<open>main\<close> of the generator until it is stopped after \<open>n\<close> batches, with their counts.  \<open>health\<close> answers the
  polls, \<open>client j\<close> the requests of the batch \<open>j\<close>; \<open>rand j\<close> draws its titles.
\<close>

definition load_main ::
  "(string \<Rightarrow> string) \<Rightarrow> (nat \<Rightarrow> load_request \<Rightarrow> ('e, int) result) \<Rightarrow> (nat \<Rightarrow> nat \<Rightarrow> load_request \<Rightarrow> ('e, int) result) \<Rightarrow>
     (nat \<Rightarrow> nat \<Rightarrow> nat) \<Rightarrow> nat \<Rightarrow> (nat \<times> nat) list option" where
  "load_main getenv health client rand n =
     (let base = load_base getenv
      in map_option (\<lambda>_. map (\<lambda>j. load_counts (client j) 0 (load_batch base (rand j))) [0..<n])
           (wait_ready (\<lambda>k. load_get (health k) (LoadGet (base @ ''/healthz''))) 0))"

section \<open>The start of the application\<close>

datatype 'e demo_exit = LogDirFailed 'e | LogFileFailed 'e | ServerStopped 'e

text \<open>
  \<open>main\<close> of the application: \<open>mkdir\<close>, \<open>open_log\<close> and \<open>listen\<close> stand for the calls of \<open>os\<close> and \<open>net/http\<close>; the
  result is what it exits with, \<open>None\<close> if \<open>ListenAndServe\<close> returns nil.
\<close>

definition demo_main ::
  "(string \<Rightarrow> 'e err) \<Rightarrow> (string \<Rightarrow> ('e, 'f) result) \<Rightarrow> ('f \<Rightarrow> string \<Rightarrow> 'e err) \<Rightarrow> 'e demo_exit option" where
  "demo_main mkdir open_log listen =
     (let log_dir = ''/var/log/demoapp''
      in case mkdir log_dir of
           Some e \<Rightarrow> Some (LogDirFailed e)
         | None \<Rightarrow>
           (case open_log (log_dir @ ''/app.log'') of
              Inl e \<Rightarrow> Some (LogFileFailed e)
            | Inr log_file \<Rightarrow> map_option ServerStopped (listen log_file '':9000'')))"

section \<open>The store against its specification\<close>

text \<open>
  The specification remembers every task ever created, in order, and which of them were deleted: the
  n-th task created has the number n for ever.
\<close>

type_synonym task_history = "(string \<times> gotime) list \<times> int set"

datatype store_op = CreateOp gotime string | ListOp "int list" | GetOp int | DeleteOp int

datatype store_out = CreatedTask task | TaskList "task list" | FoundTask "task option" | Deleted bool

definition store_step :: "store_op \<Rightarrow> store \<Rightarrow> store_out \<times> store" where
  "store_step x s =
     (case x of
        CreateOp now title \<Rightarrow> apfst CreatedTask (store_create now title s)
      | ListOp order \<Rightarrow> (TaskList (store_list order s), s)
      | GetOp i \<Rightarrow> (FoundTask (store_get i s), s)
      | DeleteOp i \<Rightarrow> apfst Deleted (store_delete i s))"

definition nth_task :: "(string \<times> gotime) list \<Rightarrow> int \<Rightarrow> task" where
  "nth_task h i = \<lparr>tk_id = i, tk_title = fst (h ! nat (i - 1)), tk_created_at = format_rfc3339 (snd (h ! nat (i - 1)))\<rparr>"

definition live :: "task_history \<Rightarrow> int \<Rightarrow> bool" where
  "live hy i \<longleftrightarrow> 1 \<le> i \<and> i \<le> int (length (fst hy)) \<and> i \<notin> snd hy"

definition history_step :: "store_op \<Rightarrow> task_history \<Rightarrow> store_out \<times> task_history" where
  "history_step x hy =
     (case x of
        CreateOp now title \<Rightarrow>
          let h = fst hy @ [(title, now)] in (CreatedTask (nth_task h (int (length h))), (h, snd hy))
      | ListOp order \<Rightarrow>
          (TaskList (map (nth_task (fst hy)) (filter (live hy) (map int [1..<Suc (length (fst hy))]))), hy)
      | GetOp i \<Rightarrow> (FoundTask (if live hy i then Some (nth_task (fst hy) i) else None), hy)
      | DeleteOp i \<Rightarrow> (Deleted (live hy i), (fst hy, if live hy i then insert i (snd hy) else snd hy)))"

definition store_legal :: "store_op \<Rightarrow> store \<Rightarrow> bool" where
  "store_legal x s \<longleftrightarrow> (case x of ListOp order \<Rightarrow> ranges order (so_tasks s) | _ \<Rightarrow> True)"

definition store_implements :: "store \<Rightarrow> task_history \<Rightarrow> bool" where
  "store_implements s hy \<longleftrightarrow>
     so_counter s = int (length (fst hy)) \<and> snd hy \<subseteq> {1..int (length (fst hy))} \<and>
     (\<forall>i. so_tasks s i = (if live hy i then Some (nth_task (fst hy) i) else None))"

text \<open>Lists come in the order of the map, so only which tasks they hold is compared.\<close>

definition same_output :: "store_out \<Rightarrow> store_out \<Rightarrow> bool" where
  "same_output a b \<longleftrightarrow> (case (a, b) of (TaskList xs, TaskList ys) \<Rightarrow> mset xs = mset ys | _ \<Rightarrow> a = b)"

lemma nth_task_append: "live (h, D) i \<Longrightarrow> nth_task (h @ h') i = nth_task h i"
  by (auto simp: nth_task_def live_def nth_append)

lemma live_append:
  "D \<subseteq> {1..int (length h)} \<Longrightarrow> live (h @ [x], D) i \<longleftrightarrow> live (h, D) i \<or> i = int (length h) + 1"
  by (auto simp: live_def)

lemma create_implements:
  assumes "store_implements s (h, D)"
  shows "store_implements (snd (store_create now title s)) (h @ [(title, now)], D)"
    and "fst (store_create now title s) = nth_task (h @ [(title, now)]) (int (length h) + 1)"
proof -
  have D: "D \<subseteq> {1..int (length h)}" and c: "so_counter s = int (length h)"
    and t: "\<And>i. so_tasks s i = (if live (h, D) i then Some (nth_task h i) else None)"
    using assms by (auto simp: store_implements_def)
  show new: "fst (store_create now title s) = nth_task (h @ [(title, now)]) (int (length h) + 1)"
    by (simp add: store_create_def nth_task_def c Let_def)
  have "\<not> live (h, D) (int (length h) + 1)" by (simp add: live_def)
  then show "store_implements (snd (store_create now title s)) (h @ [(title, now)], D)"
    using D new t nth_task_append [of h D _ "[(title, now)]"]
    by (auto simp: store_implements_def store_create_def live_append c Let_def)
qed

lemma list_implements:
  assumes "store_implements s (h, D)" "ranges order (so_tasks s)"
  shows "mset (store_list order s) = mset (map (nth_task h) (filter (live (h, D)) (map int [1..<Suc (length h)])))"
proof -
  have t: "\<And>i. so_tasks s i = (if live (h, D) i then Some (nth_task h i) else None)"
    using assms(1) by (simp add: store_implements_def)
  have "set order = dom (so_tasks s)" "distinct order" using assms(2) by (auto simp: ranges_def)
  then have o: "set order = Collect (live (h, D))" by (auto simp: t dom_def split: if_splits)
  then have "store_list order s = map (nth_task h) order"
    unfolding store_list_def by (intro map_filter_total) (auto simp: t)
  moreover have "mset order = mset (filter (live (h, D)) (map int [1..<Suc (length h)]))"
  proof (rule set_eq_iff_mset_eq_distinct [THEN iffD1])
    show "distinct order" by fact
    show "distinct (filter (live (h, D)) (map int [1..<Suc (length h)]))" by (simp add: distinct_map inj_on_def)
    have "i \<in> int ` {1..<Suc (length h)}" if "live (h, D) i" for i
      using that by (intro image_eqI [of _ _ "nat i"]) (auto simp: live_def)
    then show "set order = set (filter (live (h, D)) (map int [1..<Suc (length h)]))"
      unfolding o set_filter set_map set_upt by blast
  qed
  ultimately show ?thesis by (metis mset_map)
qed

interpretation store_sim: simulation store_step history_step store_legal store_implements same_output
proof
  fix s :: store and hy :: task_history and x
  obtain h D where hy: "hy = (h, D)" by fastforce
  assume i: "store_implements s hy" and l: "store_legal x s"
  note i = i [unfolded hy]
  have t: "\<And>i. so_tasks s i = (if live (h, D) i then Some (nth_task h i) else None)" "D \<subseteq> {1..int (length h)}"
    using i by (auto simp: store_implements_def)
  show "same_output (fst (store_step x s)) (fst (history_step x hy))"
    using create_implements(2) [OF i] list_implements [OF i] l t
    by (auto simp: store_step_def history_step_def same_output_def store_legal_def hy store_get_def store_delete_def
        Let_def add.commute split: store_op.split)
  show "store_implements (snd (store_step x s)) (snd (history_step x hy))"
  proof (cases x)
    case (CreateOp now title)
    with create_implements(1) [OF i] show ?thesis by (simp add: store_step_def history_step_def hy Let_def)
  next
    case (DeleteOp j)
    with i t show ?thesis
      by (auto simp: store_step_def history_step_def hy store_delete_def store_implements_def live_def)
  qed (use i in \<open>simp_all add: store_step_def history_step_def hy\<close>)
qed

text \<open>
  C8. The task store implements its specification: over any sequence of operations its answers are
  those of a history in which the n-th task created has the number n, so a number is never given out
  twice, not even after a delete, and a list holds exactly the tasks that were created and not deleted.
\<close>

theorem store_refines_history:
  assumes "legal_ops store_step store_legal xs new_store"
  shows "list_all2 same_output (fst (run_ops store_step xs new_store)) (fst (run_ops history_step xs ([], {})))"
proof -
  have "store_implements new_store ([], {})" by (auto simp: store_implements_def new_store_def live_def)
  with store_sim.run_simulates assms show ?thesis by blast
qed

lemma store_refines_history_witness:
  "fst (run_ops store_step [CreateOp 0 ''a'', DeleteOp 1, CreateOp 0 ''b'', GetOp 1, ListOp [2]] new_store) ! 3 = FoundTask None"
proof -
  let ?xs = "[CreateOp 0 ''a'', DeleteOp 1, CreateOp 0 ''b'', GetOp 1, ListOp [2]]"
  have "legal_ops store_step store_legal ?xs new_store"
    by (auto simp: store_step_def store_legal_def store_create_def store_delete_def new_store_def ranges_def Let_def
        split: if_splits)
  from list_all2_nthD [OF store_refines_history [OF this], of 3] show ?thesis
    by (simp add: history_step_def store_step_def live_def same_output_def case_prod_unfold Let_def)
qed

section \<open>Fibonacci in linear time\<close>

fun fib_loop :: "nat \<Rightarrow> int \<times> int \<Rightarrow> int \<times> int" where
  "fib_loop 0 p = p"
| "fib_loop (Suc k) (a, b) = fib_loop k (b, a + b)"

lemma fib_loop_fib: "fib_loop k (fib (int n), fib (int n + 1)) = (fib (int (n + k)), fib (int (n + k) + 1))"
proof (induction k arbitrary: n)
  case (Suc k)
  have "fib (int n) + fib (int n + 1) = fib (int (Suc n) + 1)" by (subst (3) fib.simps) (simp add: add.commute)
  with Suc [of "Suc n"] show ?case by (simp add: add.commute)
qed simp


section \<open>The load generator\<close>

lemma wait_ready_sound:
  assumes "wait_ready poll k = Some m"
  shows "poll m \<and> k \<le> m \<and> (\<forall>j. k \<le> j \<and> j < m \<longrightarrow> \<not> poll j)"
proof (rule wait_ready.raw_induct [OF _ assms, where P = "\<lambda>poll k m.
    poll m \<and> k \<le> m \<and> (\<forall>j. k \<le> j \<and> j < m \<longrightarrow> \<not> poll j)"])
  fix f :: "(nat \<Rightarrow> bool) \<Rightarrow> nat \<Rightarrow> nat option" and poll k m
  assume IH: "\<And>poll k m. f poll k = Some m \<Longrightarrow> poll m \<and> k \<le> m \<and> (\<forall>j. k \<le> j \<and> j < m \<longrightarrow> \<not> poll j)"
    and eq: "(if poll k then Some k else f poll (Suc k)) = Some m"
  show "poll m \<and> k \<le> m \<and> (\<forall>j. k \<le> j \<and> j < m \<longrightarrow> \<not> poll j)"
  proof (cases "poll k")
    case False
    with eq IH [of poll "Suc k" m] show ?thesis by (auto simp: Suc_le_eq) (metis le_neq_implies_less)
  qed (use eq in auto)
qed

interpretation ready_wait: retry_loop "\<lambda>k. map_option (\<lambda>m. (m, ())) (wait_ready poll k)" "\<lambda>k. if poll k then Some () else None"
  for poll
  by unfold_locales (subst wait_ready.simps, simp, use wait_ready_sound in fastforce)

text \<open>
  C31. The generator starts its load exactly when the application ever answers a health check, right
  after the first check that succeeds; while none does it waits for ever.
\<close>

theorem wait_ready_returns:
  "(wait_ready poll 0 = Some k \<longleftrightarrow> poll k \<and> (\<forall>j<k. \<not> poll j)) \<and>
   ((\<exists>k. wait_ready poll 0 = Some k) \<longleftrightarrow> (\<exists>k. poll k))"
proof -
  have "wait_ready poll 0 = Some k \<longleftrightarrow> poll k \<and> (\<forall>j<k. \<not> poll j)" for k
    using ready_wait.run_iff [of poll k "()"] by (cases "wait_ready poll 0") (auto split: if_splits)
  moreover have "(\<exists>k. wait_ready poll 0 = Some k) \<longleftrightarrow> (\<exists>k. poll k)"
    using ready_wait.returns_iff [of poll] by (cases "wait_ready poll 0") (auto split: if_splits)
  ultimately show ?thesis by blast
qed

lemma wait_ready_returns_witness: "wait_ready (\<lambda>k. k = 3) 0 = Some 3"
  using wait_ready_returns [of "\<lambda>k. k = 3" 3] by auto

lemma load_counts_sum: "fst (load_counts client k rs) + snd (load_counts client k rs) = length rs"
  by (induction client k rs rule: load_counts.induct) (auto simp: case_prod_unfold Let_def)

lemma load_batch_counts: "load_counts client 0 (load_batch base rand) = (ok, bad) \<Longrightarrow> ok + bad = 10"
  using load_counts_sum [of client 0 "load_batch base rand"] by (simp add: load_batch_def)

end
