(* ===== verification/Wire.thy ===== *)
theory Wire
  imports Commands Api_Json Example_Client Server_Lifecycle Stub_Server Demo_App
begin

text \<open>
  A request of one of the clients as the server's router sees it, and the answers of the server as the
  senders of the agent see them: what joins \<open>cmd/agent\<close>, \<open>cmd/server\<close> and the example client.
\<close>

section \<open>URLs\<close>

text \<open>
  What follows the authority of an absolute URL: \<open>http://host:port/path?query\<close>.  Paths are taken without
  escapes, and URLs without fragments.
\<close>

definition after_authority :: "string \<Rightarrow> string" where
  "after_authority u = dropWhile (\<lambda>c. c \<noteq> CHR ''/'') (drop 3 (dropWhile (\<lambda>c. c \<noteq> CHR '':'') u))"

definition url_path :: "string \<Rightarrow> string" where
  "url_path u =
     (let p = takeWhile (\<lambda>c. c \<noteq> CHR ''?'') (after_authority u) in if p = [] then ''/'' else p)"

definition url_raw_query :: "string \<Rightarrow> string" where
  "url_raw_query u = drop 1 (dropWhile (\<lambda>c. c \<noteq> CHR ''?'') (after_authority u))"

text \<open>A base URL: a scheme, \<open>://\<close> and an authority, with a path after it.\<close>

definition base_url :: "string \<Rightarrow> string \<Rightarrow> string \<Rightarrow> string" where
  "base_url scheme authority path = scheme @ ''://'' @ authority @ path"

definition plain_authority :: "string \<Rightarrow> bool" where
  "plain_authority a \<longleftrightarrow> CHR ''/'' \<notin> set a \<and> CHR ''?'' \<notin> set a"

section \<open>Requests\<close>

definition header_value :: "request \<Rightarrow> string \<Rightarrow> string" where
  "header_value rq name = (case map_of (rq_headers rq) name of Some v \<Rightarrow> v | None \<Rightarrow> [])"

definition received :: "request \<Rightarrow> http_request" where
  "received rq =
     \<lparr>hr_method = rq_method rq, hr_path = url_path (rq_url rq),
      hr_authorization = header_value rq ''Authorization'',
      hr_query = query_get (url_raw_query (rq_url rq)), hr_body = rq_body rq\<rparr>"

text \<open>The answer the client gets, when nothing is lost on the way.\<close>

definition answer :: "('db, 'e, 'n) router \<Rightarrow> 'db server_state \<Rightarrow> request \<Rightarrow> int" where
  "answer rt s rq = int (rs_status (fst (serve rt (received rq) s)))"

section \<open>Facts\<close>

lemma dropWhile_plain: "c \<notin> set s \<Longrightarrow> dropWhile (\<lambda>d. d \<noteq> c) (s @ c # t) = c # t"
  by (induction s) auto

lemma takeWhile_plain: "c \<notin> set s \<Longrightarrow> takeWhile (\<lambda>d. d \<noteq> c) (s @ c # t) = s"
  by (induction s) auto

lemma after_authority_base:
  "CHR '':'' \<notin> set scheme \<Longrightarrow> plain_authority a \<Longrightarrow> after_authority (base_url scheme a (CHR ''/'' # p)) = CHR ''/'' # p"
  using dropWhile_plain [of "CHR '':''" scheme "''//'' @ a @ CHR ''/'' # p"] dropWhile_plain [of "CHR ''/''" a p]
  by (simp add: after_authority_def base_url_def plain_authority_def)

lemma url_path_base:
  assumes "CHR '':'' \<notin> set scheme" "plain_authority a" "CHR ''?'' \<notin> set p"
  shows "url_path (base_url scheme a (CHR ''/'' # p)) = CHR ''/'' # p"
    and "url_path (base_url scheme a (CHR ''/'' # p @ CHR ''?'' # q)) = CHR ''/'' # p"
    and "url_raw_query (base_url scheme a (CHR ''/'' # p @ CHR ''?'' # q)) = q"
proof -
  have t: "takeWhile (\<lambda>c. c \<noteq> CHR ''?'') p = p" using assms(3) by (auto simp: takeWhile_eq_all_conv)
  show "url_path (base_url scheme a (CHR ''/'' # p)) = CHR ''/'' # p"
    using after_authority_base [OF assms(1,2)] by (simp add: url_path_def t)
  show "url_path (base_url scheme a (CHR ''/'' # p @ CHR ''?'' # q)) = CHR ''/'' # p"
    using after_authority_base [OF assms(1,2)] takeWhile_plain [OF assms(3)] by (simp add: url_path_def Let_def)
  show "url_raw_query (base_url scheme a (CHR ''/'' # p @ CHR ''?'' # q)) = q"
    using after_authority_base [OF assms(1,2)] dropWhile_plain [OF assms(3)] by (simp add: url_raw_query_def)
qed

lemma base_url_append: "base_url scheme a p @ q = base_url scheme a (p @ q)"
  by (simp add: base_url_def)

section \<open>A sender in touch with a server\<close>

text \<open>The first attempt of \<open>Send\<close> goes through, and its answer is the router's.\<close>

definition in_touch ::
  "'e send_env \<Rightarrow> ('db, 'r, 'n) router \<Rightarrow> 'db server_state \<Rightarrow> http_sender \<Rightarrow> string \<Rightarrow> bool" where
  "in_touch senv rt s hs body \<longleftrightarrow>
     (\<forall>d. env_sleep senv 0 d = None) \<and> env_build senv (post_request hs body) = None \<and>
     env_do senv 0 (post_request hs body) = Inr (answer rt s (post_request hs body))"

lemma first_attempt_decides:
  assumes "marshal_metric_batch batch = Inr body" "send_attempt hs senv body 0 = Some r"
  shows "send hs senv batch = Some r"
  unfolding send_Ok [OF assms(1)] metric_retry.result_iff using assms(2) by blast

lemma send_rejected:
  assumes "in_touch senv rt s hs body" "marshal_metric_batch batch = Inr body"
    "answer rt s (post_request hs body) = st" "400 \<le> st" "st < 500"
  shows "send hs senv batch = Some (Some (PermanentError (ServerRejected st)))"
  using assms by (intro first_attempt_decides) (auto simp: in_touch_def send_attempt_def Let_def)

lemma send_accepted:
  assumes "in_touch senv rt s hs body" "marshal_metric_batch batch = Inr body" "answer rt s (post_request hs body) = 202"
  shows "send hs senv batch = Some None"
  using assms by (intro first_attempt_decides) (auto simp: in_touch_def send_attempt_def Let_def)

section \<open>The agent's requests\<close>

lemma agent_main_program:
  assumes "agent_main getenv w = Inr p"
  shows "agent_token w (ap_config p) = Inr (hs_token (ap_sender p)) \<and>
    hs_url (ap_sender p) = url_text (ac_server_url (ap_config p)) @ ''/api/v1/metrics'' \<and>
    load_agent getenv (aw_hostname w) (aw_url_parse w) = Inr (ap_config p)"
  using assms
  by (auto simp: agent_main_def Let_def with_token_def new_http_sender_def split: sum.splits if_splits)

text \<open>The token the agent sends is valid until a day after it was minted, in whole seconds.\<close>

lemma agent_token_valid:
  assumes "agent_main getenv w = Inr p" "jwt_contract (aw_sign w) verify" "ac_token (ap_config p) \<noteq> []"
  shows "hs_token (ap_sender p) \<noteq> [] \<and>
    (verify (ac_token (ap_config p)) (hs_token (ap_sender p)) now \<longleftrightarrow>
       now < (aw_expires_from w + 24 * hour) div second * second)"
proof -
  have "aw_sign w (ac_token (ap_config p)) \<lparr>cm_issuer = ''miniobserv-agent'', cm_expires = aw_expires_from w + 24 * hour,
      cm_issued = aw_issued w\<rparr> = Inr (hs_token (ap_sender p))"
    using agent_main_program [OF assms(1)] assms(3) by (simp add: agent_token_def mint_agent_token_def)
  with assms(2) show ?thesis unfolding jwt_contract_def by fastforce
qed

lemma received_post:
  "received (post_request hs body) =
     \<lparr>hr_method = ''POST'', hr_path = url_path (hs_url hs),
      hr_authorization = (if hs_token hs \<noteq> [] then ''Bearer '' @ hs_token hs else []),
      hr_query = query_get (url_raw_query (hs_url hs)), hr_body = body\<rparr>"
  by (simp add: received_def post_request_def header_value_def)

lemma bearer_authorized:
  "hr_authorization r = ''Bearer '' @ token \<Longrightarrow>
     jwt_authorized env secret r \<longleftrightarrow> token \<noteq> [] \<and> se_jwt env secret token (se_now env)"
  by (simp add: jwt_authorized_def)

text \<open>The agent's post of metrics, sent to a base URL without a path, reaches the ingest route.\<close>

lemma agent_post:
  assumes "agent_main getenv w = Inr p" "url_text (ac_server_url (ap_config p)) = base_url scheme a []"
    "CHR '':'' \<notin> set scheme" "plain_authority a"
  shows "hr_method (received (post_request (ap_sender p) body)) = ''POST'' \<and>
    hr_path (received (post_request (ap_sender p) body)) = ''/api/v1/metrics'' \<and>
    hr_body (received (post_request (ap_sender p) body)) = body"
  using agent_main_program [OF assms(1)] url_path_base(1) [OF assms(3,4), of "''api/v1/metrics''"]
  by (simp add: received_post assms(2) base_url_append)

lemma agent_post_authorized:
  assumes "agent_main getenv w = Inr p" "jwt_contract (aw_sign w) (se_jwt (rt_env rt))" "ac_token (ap_config p) \<noteq> []"
    "rt_secret rt = ac_token (ap_config p)"
  shows "jwt_authorized (rt_env rt) (rt_secret rt) (received (post_request (ap_sender p) body)) \<longleftrightarrow>
    se_now (rt_env rt) < (aw_expires_from w + 24 * hour) div second * second"
proof -
  have "hs_token (ap_sender p) \<noteq> []"
    using agent_token_valid [OF assms(1,2,3), of "se_now (rt_env rt)"] by blast
  then have "hr_authorization (received (post_request (ap_sender p) body)) = ''Bearer '' @ hs_token (ap_sender p)"
    by (simp add: received_post)
  from bearer_authorized [OF this, of "rt_env rt" "rt_secret rt"] agent_token_valid [OF assms(1,2,3), of "se_now (rt_env rt)"] assms(4)
  show ?thesis by simp
qed

section \<open>The example client's requests\<close>

lemma client_request_parts:
  assumes "xc_base_url c = base_url scheme a []" "CHR '':'' \<notin> set scheme" "plain_authority a"
  shows "hr_method (received (client_request c ''GET'' (client_query_path host name t1 t2 bucket agg) None)) = ''GET''"
    and "hr_path (received (client_request c ''GET'' (client_query_path host name t1 t2 bucket agg) None)) =
      ''/api/v1/metrics/query''"
    and "hr_query (received (client_request c ''GET'' (client_query_path host name t1 t2 bucket agg) None)) =
      query_get (encode_values (query_values host name t1 t2 bucket agg))"
    and "hr_authorization (received (client_request c ''GET'' (client_query_path host name t1 t2 bucket agg) None)) =
      ''Bearer '' @ xc_token c"
  using url_path_base(2,3) [OF assms(2,3), of "''api/v1/metrics/query''" "encode_values (query_values host name t1 t2 bucket agg)"]
  by (simp_all add: received_def client_request_def client_query_path_def assms(1) base_url_append header_value_def
      del: encode_values.simps)

lemma query_values_read:
  "query_get (encode_values (query_values host name t1 t2 bucket agg)) ''host'' = host"
  "query_get (encode_values (query_values host name t1 t2 bucket agg)) ''name'' = name"
  "query_get (encode_values (query_values host name t1 t2 bucket agg)) ''from'' = format_rfc3339 t1"
  "query_get (encode_values (query_values host name t1 t2 bucket agg)) ''to'' = format_rfc3339 t2"
  "query_get (encode_values (query_values host name t1 t2 bucket agg)) ''bucket'' = bucket"
  "query_get (encode_values (query_values host name t1 t2 bucket agg)) ''agg'' = agg"
  by (simp_all add: query_get_encoded query_values_def del: encode_values.simps)

section \<open>A demonstration network\<close>

text \<open>Tokens that spell out their expiry: the simplest signatures with the documented behaviour.\<close>

definition demo_sign :: "string \<Rightarrow> claims \<Rightarrow> (string, string) result" where
  "demo_sign secret c =
     (let e = cm_expires c div second
      in Inr (if e \<ge> 0 then replicate (Suc (nat e)) (CHR ''p'') else replicate (Suc (nat (- e))) (CHR ''n'')))"

definition demo_verify :: "string \<Rightarrow> string \<Rightarrow> gotime \<Rightarrow> bool" where
  "demo_verify secret token now \<longleftrightarrow>
     now < (if hd token = CHR ''p'' then int (length token) - 1 else 1 - int (length token)) * second"

lemma demo_contract: "jwt_contract demo_sign demo_verify"
  by (auto simp: jwt_contract_def demo_sign_def demo_verify_def Let_def)

text \<open>An agent whose processor can be read and nothing else.\<close>

definition cpu_readings :: "string readings" where
  "cpu_readings =
     \<lparr>rd_now = (\<lambda>n. 5), rd_cpu = (\<lambda>b. Inr [Fin 40]), rd_mem = Inl ''no meminfo'', rd_parts = Inl ''no mounts'',
      rd_usage = (\<lambda>p. Inl ''no mounts''), rd_io = Inl ''no network'', rd_order = []\<rparr>"

definition cpu_metrics :: "metric list" where
  "cpu_metrics = [cpu_metric 5 ''web'' (Fin 40) ''total'', cpu_metric 5 ''web'' (Fin 40) (itoa 0)]"

definition demo_agent :: "(unit, string) agent_world" where
  "demo_agent =
     \<lparr>aw_hostname = ''box'', aw_url_parse = (\<lambda>s. Some \<lparr>url_scheme = ''http'', url_text = s\<rparr>), aw_sign = demo_sign,
      aw_expires_from = 0, aw_issued = 0, aw_watcher = None,
      aw_fs = \<lparr>fs_open = (\<lambda>p. Inl ''no file''), fs_size = (\<lambda>h. Inl ''no file''), fs_seek = (\<lambda>h n. None),
        fs_read = (\<lambda>h n. []), fs_watch = (\<lambda>p. None), fs_now = 0\<rparr>\<rparr>"

text \<open>The server at a time.\<close>

definition demo_server :: "gotime \<Rightarrow> (nat, string, unit) router" where
  "demo_server now = demo_router\<lparr>rt_env := demo_server_env\<lparr>se_now := now, se_jwt := demo_verify\<rparr>\<rparr>"

definition demo_link :: "(nat, string, unit) router \<Rightarrow> nat server_state \<Rightarrow> string send_env" where
  "demo_link rt s =
     \<lparr>env_rand = (\<lambda>_. Fin 0), env_sleep = (\<lambda>_ _. None), env_build = (\<lambda>_. None),
      env_do = (\<lambda>n rq. Inr (answer rt s rq)), env_oor = (\<lambda>_. 0)\<rparr>"

lemma demo_in_touch: "in_touch (demo_link rt s) rt s hs body"
  by (simp add: in_touch_def demo_link_def)

lemma demo_server_parts [simp]:
  "static_routing (rt_chi (demo_server now))" "se_jwt (rt_env (demo_server now)) = demo_verify"
  "se_now (rt_env (demo_server now)) = now" "rt_secret (demo_server now) = ''0123456789abcdef''"
  by (simp_all add: demo_server_def demo_router_def plain_chi_static)

lemma demo_agent_starts:
  assumes "getenv ''SERVER_URL'' \<noteq> []" "getenv ''AGENT_TOKEN'' = ''0123456789abcdef''" "getenv ''LOG_PATHS'' = []"
  shows "\<exists>p. agent_main getenv demo_agent = Inr p \<and> ac_token (ap_config p) = ''0123456789abcdef'' \<and>
    url_text (ac_server_url (ap_config p)) = getenv ''SERVER_URL'' \<and>
    ac_host (ap_config p) = (if getenv ''AGENT_HOST'' = [] then ''box'' else getenv ''AGENT_HOST'') \<and>
    ac_disk_mounts (ap_config p) = [] \<and> ac_net_ifaces (ap_config p) = []"
  using assms
  by (simp add: agent_main_def load_agent_def demo_agent_def agent_token_def mint_agent_token_def demo_sign_def
      split_log_paths_def Let_def)

lemma demo_url: "''http://srv:8080'' = base_url ''http'' ''srv:8080'' []" "CHR '':'' \<notin> set ''http''"
  "plain_authority ''srv:8080''"
  by (simp_all add: base_url_def plain_authority_def)

lemma cpu_readings_sane: "sane_readings ''web'' [] cpu_readings"
proof -
  have "trim_space ''web'' \<noteq> []" by code_simp
  then show ?thesis by (auto simp: sane_readings_def cpu_readings_def zero_time_def)
qed

lemma cpu_readings_typed: "typed_readings cpu_readings"
  using rnd_of_int [of 40] by (auto simp: typed_readings_def cpu_readings_def four_digit_year_def hour_def is_f64_Fin max_exact_def)

lemma cpu_metrics_typed: "\<forall>m\<in>set cpu_metrics. is_f64 (m_value m) \<and> four_digit_year (m_time m)"
  using rnd_of_int [of 40]
  by (auto simp: cpu_metrics_def cpu_metric_def four_digit_year_def hour_def is_f64_Fin max_exact_def)

lemma cpu_batch_body:
  obtains body where "marshal_metric_batch \<lparr>mb_host = host, mb_metrics = cpu_metrics\<rparr> = Inr body"
proof -
  have "\<forall>m\<in>set cpu_metrics. metric_ok m"
    using cpu_source.collected_ok [OF cpu_readings_sane, of _ "()"]
    by (auto simp: cpu_metrics_def collect_cpu_def cpu_readings_def)
  then show thesis
    using marshal_metric_batch_total [of "\<lparr>mb_host = host, mb_metrics = cpu_metrics\<rparr>"] cpu_metrics_typed that by auto
qed

lemma cpu_readings_collected:
  "\<exists>errs ns'. collect_all (agent_registry ''web'' [] []) cpu_readings ns = ((cpu_metrics, errs), ns')"
  by (simp add: agent_registry_def collect_cpu_def collect_memory_def collect_disk_def collect_network_def
      cpu_readings_def cpu_metrics_def Let_def)

definition slash_env :: environment where
  "slash_env v = (if v = ''SERVER_URL'' then ''http://srv:8080/'' else demo_env v)"

definition blank_env :: environment where
  "blank_env v = (if v = ''AGENT_HOST'' then '' '' else demo_env v)"

end
