(* ===== verification/Example_Run.thy ===== *)
theory Example_Run
  imports Wire
begin

text \<open>
  The example client, \<open>example/04-go-http-client/main.go\<close>, against the server's router: its requests
  and the answers go through the network as bytes, both ways.
\<close>

section \<open>The network\<close>

definition client_network ::
  "('db, 'r, 'n) router \<Rightarrow> (gotime \<Rightarrow> int) \<Rightarrow> ('e, 'db server_state) client_env" where
  "client_network rt zone =
     \<lparr>ce_build = (\<lambda>rq. None),
      ce_do = (\<lambda>rq s. let (r, s') = serve rt (received rq) s in (Inr (int (rs_status r), response_text zone r), s'))\<rparr>"

lemma client_do_served:
  assumes "body = (case b of None \<Rightarrow> None | Some t \<Rightarrow> Some (Inr t))"
    and "serve rt (received (client_request c meth path b)) s = (r, s')"
  shows "client_do (client_network rt zone) c meth path body unmarshal s =
    (if rs_status r \<ge> 300 then Inl (ServerReturned (int (rs_status r)) (response_text zone r))
     else (case unmarshal (response_text zone r) of None \<Rightarrow> Inl ClientUnmarshal | Some a \<Rightarrow> Inr a), s')"
  using assms by (cases b) (simp_all add: client_do_def client_network_def)

lemma check_health_served:
  assumes "serve rt (received (health_request base)) s = (r, s')"
  shows "check_health (client_network rt zone) base s =
    (if rs_status r \<noteq> 200 then Some (HealthStatus (int (rs_status r))) else None, s')"
  using assms by (simp add: check_health_def client_network_def)

lemma trim_base:
  assumes "plain_authority a" "a \<noteq> []"
  shows "trim_right_byte (CHR ''/'') (base_url scheme a []) = base_url scheme a []"
proof -
  obtain b d where "a = b @ [d]" using assms(2) by (metis append_butlast_last_id)
  moreover from this have "d \<noteq> CHR ''/''" using assms(1) by (auto simp: plain_authority_def)
  ultimately show ?thesis by (simp add: trim_right_byte_def base_url_def)
qed

section \<open>The health check\<close>

lemma health_received:
  assumes "CHR '':'' \<notin> set scheme" "plain_authority a"
  shows "hr_method (received (health_request (base_url scheme a []))) = ''GET''"
    "hr_path (received (health_request (base_url scheme a []))) = ''/healthz''"
  using url_path_base(1) [OF assms, of "''healthz''"] by (simp_all add: received_def health_request_def base_url_append)

lemma health_ok:
  assumes "static_routing (rt_chi rt)" "CHR '':'' \<notin> set scheme" "plain_authority a"
  shows "check_health (client_network rt zone) (base_url scheme a []) s = (None, s)"
proof -
  let ?r = "received (health_request (base_url scheme a []))"
  note r = health_received [OF assms(2,3)]
  have "((hr_method ?r, hr_path ?r), handle_healthz) \<in> set (routes rt)" unfolding r by (simp add: routes_def public_routes_def)
  moreover have "proper_request ?r" by (simp add: r proper_request_def http_methods_def)
  ultimately have "serve rt ?r s = handle_healthz ?r s" by (rule serve_route [OF assms(1), rotated])
  then show ?thesis by (simp add: check_health_served handle_healthz_def)
qed

section \<open>Pushing\<close>

lemma client_post:
  assumes "xc_base_url c = base_url scheme a []" "CHR '':'' \<notin> set scheme" "plain_authority a"
  shows "hr_method (received (client_request c ''POST'' ''/api/v1/metrics'' (Some b))) = ''POST''"
    "hr_path (received (client_request c ''POST'' ''/api/v1/metrics'' (Some b))) = ''/api/v1/metrics''"
    "hr_body (received (client_request c ''POST'' ''/api/v1/metrics'' (Some b))) = b"
    "hr_authorization (received (client_request c ''POST'' ''/api/v1/metrics'' (Some b))) = ''Bearer '' @ xc_token c"
  using url_path_base(1) [OF assms(2,3), of "''api/v1/metrics''"]
  by (simp_all add: received_def client_request_def assms(1) base_url_append header_value_def)

text \<open>What the server reads of the program's batch.\<close>

definition example_received :: "gotime \<Rightarrow> metric_batch" where
  "example_received now =
     \<lparr>mb_host = ''go-example'',
      mb_metrics =
        [\<lparr>m_time = now div second * second, m_host = ''go-example'', m_name = ''cpu.usage_pct'',
          m_value = f64_of_rat (378 / 10), m_labels = []\<rparr>,
         \<lparr>m_time = now div second * second, m_host = ''go-example'', m_name = ''mem.used_pct'',
          m_value = f64_of_rat (552 / 10), m_labels = []\<rparr>]\<rparr>"

lemma example_names:
  "to_valid ''go-example'' = ''go-example''" "to_valid ''cpu.usage_pct'' = ''cpu.usage_pct''"
  "to_valid ''mem.used_pct'' = ''mem.used_pct''" "trim_space ''go-example'' \<noteq> []"
  by code_simp+

lemma example_values: "is_finite (f64_of_rat (378 / 10))" "is_finite (f64_of_rat (552 / 10))"
proof -
  have "is_finite (f64_of_rat x)" if "0 \<le> x" "x \<le> 100" for x
  proof -
    have "rnd x \<le> 100" "0 \<le> rnd x" using rnd_le_of_int [of 100 x] rnd_nonneg that by simp_all
    then have "\<bar>rnd x\<bar> < max_exact" by (simp add: max_exact_def)
    then show ?thesis by (simp add: f64_of_rat_Fin)
  qed
  then show "is_finite (f64_of_rat (378 / 10))" "is_finite (f64_of_rat (552 / 10))" by simp_all
qed

lemma example_metric_reads:
  assumes "encode_example_metric m = Inr j" "em_time m = format_rfc3339 t" "four_digit_year t" "is_f64 (em_value m)"
  shows "decode_struct metric_fields zero_metric j =
      Some \<lparr>m_time = t div second * second, m_host = to_valid (em_host m), m_name = to_valid (em_name m),
        m_value = em_value m, m_labels = wire_map (em_labels m)\<rparr>"
    and "d + 1 < max_nesting \<Longrightarrow> well_formed d j"
proof -
  obtain v where v: "json_of_float (em_value m) = Inr v"
    using assms(1) by (auto simp: encode_example_metric_def split: sum.splits)
  note r = json_of_float_reads [OF assms(4) v]
  show "decode_struct metric_fields zero_metric j =
      Some \<lparr>m_time = t div second * second, m_host = to_valid (em_host m), m_name = to_valid (em_name m),
        m_value = em_value m, m_labels = wire_map (em_labels m)\<rparr>"
    using assms(1) v r
    by (auto simp: encode_example_metric_def decode_struct_def metric_fields_def zero_metric_def decode_map_encoded
        decode_time_string assms(2,3))
  show "well_formed d j" if "d + 1 < max_nesting"
    using assms(1) v r that by (auto simp: encode_example_metric_def json_field_def well_formed_map)
qed

lemma example_batch_read:
  assumes "four_digit_year now"
  shows "\<exists>body. marshal_example_batch (example_metrics now) = Inr body \<and> decode_metric_batch body = Some (example_received now)"
proof -
  let ?ms = "eb_metrics (example_metrics now)"
  have "\<exists>j. encode_example_metric m = Inr j" if "m \<in> set ?ms" for m
    using that json_of_float_finite [OF example_values(1)] json_of_float_finite [OF example_values(2)]
    by (auto simp: example_metrics_def encode_example_metric_def)
  then obtain ms where ms: "json_of_slice encode_example_metric ?ms = Inr ms"
    using json_of_slice_total [of ?ms encode_example_metric] by blast
  have one: "em_time m = format_rfc3339 now" "is_f64 (em_value m)" if "m \<in> set ?ms" for m
    using that by (auto simp: example_metrics_def)
  define wire where "wire (m :: example_metric) = \<lparr>m_time = now div second * second, m_host = to_valid (em_host m), m_name = to_valid (em_name m),
      m_value = em_value m, m_labels = wire_map (em_labels m)\<rparr>" for m
  note reads = example_metric_reads [OF _ one(1) assms one(2), folded wire_def]
  have "well_formed 1 ms"
    using reads(2) by (intro well_formed_slice [OF ms]) (auto simp: max_nesting_def)
  then have wf: "well_formed 0 (JObj [json_field ''host'' (json_of_string ''go-example''), json_field ''metrics'' ms])"
    by (simp add: json_field_def max_nesting_def)
  obtain sl where sl: "decode_slice (decode_struct metric_fields) zero_metric ([], 0) ms = Some sl" "slice_list sl = map wire ?ms"
    by (rule decode_slice_encoded [OF ms, of "decode_struct metric_fields" zero_metric wire]) (use reads(1) in blast)+
  let ?body = "render (JObj [json_field ''host'' (json_of_string ''go-example''), json_field ''metrics'' ms])"
  have "marshal_example_batch (example_metrics now) = Inr ?body"
    using ms by (simp add: marshal_example_batch_def) (simp add: example_metrics_def)
  moreover have "decode_metric_batch ?body = Some (example_received now)"
    unfolding decode_metric_batch_def decode_render(1) [OF wf]
    by (simp add: decode_struct_def metric_batch_fields_def sl)
      (simp add: example_metrics_def example_received_def wire_def example_names)
  ultimately show ?thesis by blast
qed

lemma example_received_valid:
  assumes "second \<le> now"
  shows "metric_batch_validate (example_received now) = None"
proof -
  have "1 \<le> now div second" using assms by (simp add: second_def)
  then have "now div second * second \<noteq> zero_time" by (simp add: zero_time_def second_def)
  then show ?thesis using example_names(4) example_values
    by (simp add: metric_batch_validate_None example_received_def metric_ok_def valid_metric_names_def)
qed

lemma ingested_text:
  "n < 2 ^ 63 \<Longrightarrow> unmarshal_ingested (response_text zone (json_response st (Ingested n))) = Some (int n)"
proof -
  assume n: "n < 2 ^ 63"
  have wf: "well_formed 0 (JObj [json_field ''ingested'' (json_of_int (int n))])" by (simp add: json_field_def max_nesting_def)
  have "to_valid ''ingested'' = ''ingested''" by code_simp
  with n show ?thesis
    unfolding response_text_def json_response_def response.simps payload_tree_def unmarshal_ingested_def
    by (simp add: decode_encoded_line [OF wf] del: render.simps)
      (simp add: decode_struct_def ingest_response_fields_def decode_field find_field_def decode_int64_json)
qed

section \<open>Querying\<close>

text \<open>What the client reads of a point.\<close>

definition example_point_of :: "(gotime \<Rightarrow> int) \<Rightarrow> query_point \<Rightarrow> example_point" where
  "example_point_of zone p = \<lparr>ep_time = format_zoned (zone (qp_time p)) (qp_time p), ep_value = qp_value p\<rparr>"

text \<open>A point the server can write: a finite value and a time of four-digit years in its zone.\<close>

definition point_ok :: "(gotime \<Rightarrow> int) \<Rightarrow> query_point \<Rightarrow> bool" where
  "point_ok zone p \<longleftrightarrow>
     is_f64 (qp_value p) \<and> is_finite (qp_value p) \<and> \<bar>zone (qp_time p)\<bar> < 86400 \<and>
     four_digit_year (qp_time p + zone (qp_time p) * second)"

lemma point_encoded:
  assumes "point_ok zone p"
  obtains v where "json_of_float (qp_value p) = Inr v"
    "encode_point zone p = Inr (JObj [json_field ''time'' (json_of_string (format_zoned (zone (qp_time p)) (qp_time p))),
       json_field ''value'' v])"
    "decode_float 0 v = Some (qp_value p)" "\<And>d. well_formed d v"
proof -
  have p: "is_f64 (qp_value p)" "is_finite (qp_value p)" using assms by (simp_all add: point_ok_def)
  obtain v where v: "json_of_float (qp_value p) = Inr v" using json_of_float_finite [OF p(2)] by blast
  have "decode_float 0 v = Some (qp_value p)" "well_formed d v" for d using json_of_float_reads [OF p(1) v] by blast+
  with assms v show thesis
    by (intro that) (auto simp: encode_point_def json_of_zoned_def point_ok_def json_of_string_def escape_time)
qed

lemma point_reads:
  assumes "point_ok zone p" "encode_point zone p = Inr j"
  shows "decode_struct example_point_fields zero_example_point j = Some (example_point_of zone p)" "well_formed 2 j"
proof -
  obtain v where v: "encode_point zone p = Inr (JObj [json_field ''time'' (json_of_string (format_zoned (zone (qp_time p)) (qp_time p))),
       json_field ''value'' v])" "decode_float 0 v = Some (qp_value p)" "\<And>d. well_formed d v"
    using point_encoded [OF assms(1)] by metis
  then have j: "j = JObj [json_field ''time'' (json_of_string (format_zoned (zone (qp_time p)) (qp_time p))), json_field ''value'' v]"
    using assms(2) by simp
  show "decode_struct example_point_fields zero_example_point j = Some (example_point_of zone p)"
    using v(2) by (simp add: j decode_struct_def example_point_fields_def zero_example_point_def example_point_of_def to_valid_time)
  show "well_formed 2 j" using v(3) by (simp add: j json_field_def max_nesting_def)
qed

text \<open>The names of the answer's fields.\<close>

lemma query_names:
  "to_valid ''agg'' = ''agg''" "to_valid ''bucket'' = ''bucket''" "to_valid ''points'' = ''points''"
  by code_simp+

lemma query_text:
  assumes "\<forall>p\<in>set points. point_ok zone p"
  shows "unmarshal_query (response_text zone (json_response st (PointsBody host name bucket agg points))) =
    Some \<lparr>qr_host = to_valid host, qr_name = to_valid name, qr_bucket = to_valid bucket, qr_agg = to_valid agg,
      qr_points = map (example_point_of zone) points\<rparr>"
proof -
  have "\<forall>p\<in>set points. \<exists>j. encode_point zone p = Inr j" using assms by (metis point_encoded)
  then obtain ps where ps: "json_array (encode_point zone) points = Inr ps"
    using json_array_total [of points "encode_point zone"] by blast
  let ?t = "JObj [json_field ''agg'' (json_of_string agg), json_field ''bucket'' (json_of_string bucket),
      json_field ''host'' (json_of_string host), json_field ''name'' (json_of_string name), json_field ''points'' ps]"
  have out: "response_text zone (json_response st (PointsBody host name bucket agg points)) = render ?t @ [newline]"
    unfolding response_text_def json_response_def payload_tree_def by (simp add: ps del: render.simps)
  have "well_formed 1 ps"
    using point_reads(2) assms by (intro well_formed_array [OF ps]) (auto simp: max_nesting_def)
  then have wf: "well_formed 0 ?t" by (simp add: json_field_def max_nesting_def)
  obtain b where b: "decode_slice (decode_struct example_point_fields) zero_example_point ([], 0) ps = Some b"
    "slice_list b = map (example_point_of zone) points"
    by (rule decode_array_encoded [OF ps, of "decode_struct example_point_fields" zero_example_point "example_point_of zone"])
      (use point_reads(1) assms in blast)+
  show ?thesis
    unfolding unmarshal_query_def out decode_encoded_line [OF wf]
    by (simp add: decode_struct_def query_response_fields_def decode_field find_field_def query_names zero_query_response_def b
        del: fold_name.simps)
qed

lemma client_query_read:
  assumes "serve rt (received (client_request c ''GET'' (client_query_path host name t1 t2 bucket agg) None)) s =
      (json_response 200 (PointsBody host name bucket agg points), s')" "\<forall>p\<in>set points. point_ok zone p"
  shows "client_query (client_network rt zone) c host name t1 t2 bucket agg s =
    (Inr \<lparr>qr_host = to_valid host, qr_name = to_valid name, qr_bucket = to_valid bucket, qr_agg = to_valid agg,
      qr_points = map (example_point_of zone) points\<rparr>, s')"
  unfolding client_query_def client_do_served [of None None, simplified, OF assms(1)] query_text [OF assms(2)]
  by (simp add: json_response_def)

text \<open>The request the server sees, and its answer before encoding.\<close>

lemma client_query_served:
  assumes base: "xc_base_url c = base_url scheme a []" "CHR '':'' \<notin> set scheme" "plain_authority a"
    and chi: "static_routing (rt_chi rt)"
    and token: "xc_token c \<noteq> []" "se_jwt (rt_env rt) (rt_secret rt) (xc_token c) (se_now (rt_env rt))"
    and times: "four_digit_year t1" "four_digit_year t2"
    and q: "q = \<lparr>q_host = host, q_name = name, q_from = t1 div second * second, q_to = t2 div second * second,
      q_bucket = bucket, q_agg = agg\<rparr>" "query_params_validate q = None"
  shows "serve rt (received (client_request c ''GET'' (client_query_path host name t1 t2 bucket agg) None)) s =
    (case query_metrics (se_pool (rt_env rt)) q (st_db s) of
       Inl e \<Rightarrow> (write_error 500 ''query error'', s)
     | Inr points \<Rightarrow> (json_response 200 (PointsBody host name bucket agg points), s))"
proof -
  let ?r = "received (client_request c ''GET'' (client_query_path host name t1 t2 bucket agg) None)"
  note r = client_request_parts [OF base, of host name t1 t2 bucket agg]
  have "((hr_method ?r, hr_path ?r), jwt_middleware (rt_env rt) (rt_secret rt) (handle_query (rt_env rt))) \<in> set (routes rt)"
    unfolding r by (simp add: routes_def protected_routes_def)
  moreover have "proper_request ?r" unfolding proper_request_def r by (simp add: http_methods_def)
  moreover have "jwt_authorized (rt_env rt) (rt_secret rt) ?r" using bearer_authorized [OF r(4), of "rt_env rt" "rt_secret rt"] token by simp
  ultimately have "serve rt ?r s = handle_query (rt_env rt) ?r s"
    using serve_route [OF chi] by (simp add: jwt_middleware_def)
  moreover have ne: "or_else bucket ''1m'' = bucket" "or_else agg ''avg'' = agg"
    using q by (auto simp: or_else_def query_params_validate_def valid_buckets_def valid_aggs_def split: if_splits)
  have fields: "q_host q = host" "q_name q = name" "q_bucket q = bucket" "q_agg q = agg" by (simp_all add: q(1))
  have "handle_query (rt_env rt) ?r s = (case query_metrics (se_pool (rt_env rt)) q (st_db s) of
       Inl e \<Rightarrow> (write_error 500 ''query error'', s)
     | Inr points \<Rightarrow> (json_response 200 (PointsBody host name bucket agg points), s))"
    unfolding handle_query_def Let_def r query_values_read ne
    by (simp only: parse_format [OF times(1)] parse_format [OF times(2)] option.case q(1) [symmetric] q(2) fields)
  ultimately show ?thesis by simp
qed

lemma valid_query_names:
  assumes "query_params_validate q = None"
  shows "to_valid (q_name q) = q_name q" "to_valid (q_bucket q) = q_bucket q" "to_valid (q_agg q) = q_agg q"
proof -
  have "list_all (\<lambda>n. to_valid n = n) (storage_metric_names @ map fst valid_buckets @ map fst valid_aggs)" by code_simp
  moreover have "q_name q \<in> set storage_metric_names" "q_bucket q \<in> set (map fst valid_buckets)" "q_agg q \<in> set (map fst valid_aggs)"
    using assms by (auto simp: query_params_validate_def map_of_eq_None_iff split: if_splits)
  ultimately show "to_valid (q_name q) = q_name q" "to_valid (q_bucket q) = q_bucket q" "to_valid (q_agg q) = q_agg q"
    by (auto simp: list_all_iff)
qed

text \<open>
  C9. What the example client asks for is what the server looks up, and what it gets is what the server
  found: host, name, bucket and aggregation come through the URL byte for byte, whatever bytes they
  have, and both times to the second; the points come back through the JSON answer, each value
  unchanged and each time as the server writes it in its zone.
\<close>

theorem client_query_answered:
  assumes base: "xc_base_url c = base_url scheme a []" "CHR '':'' \<notin> set scheme" "plain_authority a"
    and chi: "static_routing (rt_chi rt)"
    and token: "xc_token c \<noteq> []" "se_jwt (rt_env rt) (rt_secret rt) (xc_token c) (se_now (rt_env rt))"
    and times: "four_digit_year t1" "four_digit_year t2"
    and q: "q = \<lparr>q_host = host, q_name = name, q_from = t1 div second * second, q_to = t2 div second * second,
      q_bucket = bucket, q_agg = agg\<rparr>" "query_params_validate q = None"
    and points: "\<And>points. query_metrics (se_pool (rt_env rt)) q (st_db s) = Inr points \<Longrightarrow> \<forall>p\<in>set points. point_ok zone p"
  shows "client_query (client_network rt zone) c host name t1 t2 bucket agg s =
    (case query_metrics (se_pool (rt_env rt)) q (st_db s) of
       Inl e \<Rightarrow> Inl (ServerReturned 500 (response_text zone (write_error 500 ''query error'')))
     | Inr points \<Rightarrow> Inr \<lparr>qr_host = to_valid host, qr_name = name, qr_bucket = bucket, qr_agg = agg,
         qr_points = map (example_point_of zone) points\<rparr>, s)"
proof (cases "query_metrics (se_pool (rt_env rt)) q (st_db s)")
  case (Inl e)
  then have v: "serve rt (received (client_request c ''GET'' (client_query_path host name t1 t2 bucket agg) None)) s =
      (write_error 500 ''query error'', s)"
    using client_query_served [OF base chi token times q, of s] by simp
  show ?thesis using client_do_served [OF _ v, of None] Inl by (simp add: client_query_def write_error_def json_response_def)
next
  case (Inr points)
  with client_query_served [OF base chi token times q, of s]
  have "serve rt (received (client_request c ''GET'' (client_query_path host name t1 t2 bucket agg) None)) s =
      (json_response 200 (PointsBody host name bucket agg points), s)" by simp
  note client_query_read [OF this points [OF Inr]]
  moreover have "to_valid name = name" "to_valid bucket = bucket" "to_valid agg = agg"
    using valid_query_names [OF q(2)] by (simp_all add: q(1))
  ultimately show ?thesis using Inr by simp
qed

section \<open>The program against the server\<close>

lemma example_push_served:
  assumes base: "xc_base_url c = base_url scheme a []" "CHR '':'' \<notin> set scheme" "plain_authority a"
    and chi: "static_routing (rt_chi rt)"
    and token: "xc_token c \<noteq> []" "se_jwt (rt_env rt) (rt_secret rt) (xc_token c) (se_now (rt_env rt))"
    and now: "second \<le> now" "four_digit_year now"
    and ins: "insert_metrics (se_pool (rt_env rt)) marshal_labels (example_received now) (st_db s) = ((2, None), db')"
  shows "push_metrics (client_network rt zone) c (example_metrics now) s =
    (Inr 2, s\<lparr>st_db := db', st_tracker := heartbeat (se_now (rt_env rt)) ''go-example'' (st_tracker s)\<rparr>)"
proof -
  obtain body where body: "marshal_example_batch (example_metrics now) = Inr body"
    "decode_metric_batch body = Some (example_received now)" using example_batch_read [OF now(2)] by blast
  let ?r = "received (client_request c ''POST'' ''/api/v1/metrics'' (Some body))"
  note r = client_post [OF base, of body]
  have "jwt_authorized (rt_env rt) (rt_secret rt) ?r" using bearer_authorized [OF r(4), of "rt_env rt" "rt_secret rt"] token by simp
  then have "serve rt ?r s = handle_ingest (rt_env rt) ?r s" by (rule serve_ingest [OF chi r(1,2)])
  moreover have "metrics_accepted (rt_env rt) (hr_body ?r) (st_db s) (example_received now) db'"
    using body(2) ins example_received_valid [OF now(1)] unfolding metrics_accepted_def r(3)
    by (simp add: example_received_def)
  from handle_ingest_accepts [OF this]
  have "handle_ingest (rt_env rt) ?r s = (json_response 202 (Ingested 2),
      s\<lparr>st_db := db', st_tracker := heartbeat (se_now (rt_env rt)) ''go-example'' (st_tracker s)\<rparr>)"
    by (simp add: example_received_def numeral_2_eq_2)
  ultimately have "serve rt ?r s = (json_response 202 (Ingested 2),
      s\<lparr>st_db := db', st_tracker := heartbeat (se_now (rt_env rt)) ''go-example'' (st_tracker s)\<rparr>)" by simp
  note d = client_do_served [OF _ this, of "Some (marshal_example_batch (example_metrics now))"]
  show ?thesis using ingested_text [of 2 zone 202] by (simp add: push_metrics_def body(1) d [simplified body(1), simplified])
      (simp add: json_response_def)
qed


text \<open>
  The example program fails its health check against a running server when its URL ends in a slash,
  although it trims the slash for every other call: the path of the check then has two slashes.
\<close>

theorem example_slash_fails:
  assumes base: "getenv ''MINIOBSERV_URL'' = base_url scheme a ''/''" "CHR '':'' \<notin> set scheme" "plain_authority a"
    and chi: "static_routing (rt_chi rt)"
    and secret: "getenv ''AGENT_TOKEN'' \<noteq> []"
  shows "example_main getenv (client_network rt zone) unix_now now s = (Inl (HealthFailed (HealthStatus 404)), s)"
proof -
  let ?rq = "health_request (base_url scheme a ''/'')"
  have r: "hr_method (received ?rq) = ''GET''" "hr_path (received ?rq) = ''//healthz''"
    using url_path_base(1) [OF base(2,3), of "''/healthz''"]
    by (simp_all add: received_def health_request_def base_url_append)
  moreover have "''//healthz'' \<notin> snd ` set (route_keys dash)" for dash
    by (cases dash) (simp_all add: route_keys_def dash_keys_def)
  ultimately have "rs_status (fst (serve rt (received ?rq) s)) = 404 \<and> snd (serve rt (received ?rq) s) = s"
    using serve_unknown_path [OF chi, of "received ?rq"] by (simp add: http_methods_def proper_request_def)
  then obtain r where r: "serve rt (received ?rq) s = (r, s)" "rs_status r = 404"
    by (cases "serve rt (received ?rq) s") auto
  moreover have "base_url scheme a ''/'' \<noteq> []" by (simp add: base_url_def)
  ultimately show ?thesis
    using base(1) secret by (simp add: example_main_def Let_def check_health_served [OF r(1)] r(2))
qed

section \<open>Witnesses\<close>

definition query_server :: "(nat, string, unit) router" where
  "query_server =
     demo_router\<lparr>rt_env := demo_server_env\<lparr>se_jwt := hs256_valid, se_now := (1700000000 + unix_epoch) * second,
       se_pool := counting_pool
         \<lparr>query_points := (\<lambda>q db. Inr \<lparr>rows_scans = [Inr \<lparr>qp_time = (1700000000 + unix_epoch) * second, qp_value = Fin 2\<rparr>], rows_err = None\<rparr>)\<rparr>\<rparr>\<rparr>"

definition example_env :: "string \<Rightarrow> string" where
  "example_env v = (if v = ''MINIOBSERV_URL'' then ''http://srv:8080'' else ''0123456789abcdef'')"

definition slash_url_env :: "string \<Rightarrow> string" where
  "slash_url_env v = (if v = ''MINIOBSERV_URL'' then ''http://srv:8080/'' else ''0123456789abcdef'')"

text \<open>An hour east of Greenwich.\<close>

definition demo_zone :: "gotime \<Rightarrow> int" where
  "demo_zone t = 3600"

lemma query_server_parts:
  "static_routing (rt_chi query_server)" "rt_secret query_server = ''0123456789abcdef''"
  "se_jwt (rt_env query_server) = hs256_valid" "se_now (rt_env query_server) = (1700000000 + unix_epoch) * second"
  by (simp_all add: query_server_def demo_router_def plain_chi_static)

lemma query_server_points:
  "query_metrics (se_pool (rt_env query_server)) q db = Inr [\<lparr>qp_time = (1700000000 + unix_epoch) * second, qp_value = Fin 2\<rparr>]"
  by (simp add: query_metrics_def query_server_def read_rows_def)

lemma query_server_points_ok: "point_ok demo_zone \<lparr>qp_time = (1700000000 + unix_epoch) * second, qp_value = Fin 2\<rparr>"
  using rnd_of_int [of 2]
  by (simp add: point_ok_def demo_zone_def four_digit_year_def is_f64_Fin max_exact_def unix_epoch_def second_def hour_def)

lemma example_slash_fails_witness:
  "example_main slash_url_env (client_network demo_router demo_zone) 0 0 \<lparr>st_db = 3, st_tracker = None\<rparr> =
     (Inl (HealthFailed (HealthStatus 404)), \<lparr>st_db = 3, st_tracker = None\<rparr>)"
proof -
  have "slash_url_env ''MINIOBSERV_URL'' = base_url ''http'' ''srv:8080'' ''/''" "slash_url_env ''AGENT_TOKEN'' \<noteq> []"
    by (simp_all add: slash_url_env_def base_url_def)
  then show ?thesis by (rule example_slash_fails [OF _ demo_url(2,3) demo_router_static])
qed

lemma client_query_answered_witness:
  "client_query (client_network query_server demo_zone)
     \<lparr>xc_base_url = ''http://srv:8080'', xc_token = mint_jwt 1700000000 ''0123456789abcdef''\<rparr> ''a&b'' ''cpu.usage_pct''
     (1700000000 * second) (1700000000 * second + hour) ''1m'' ''avg'' \<lparr>st_db = 3, st_tracker = None\<rparr> =
   (Inr \<lparr>qr_host = to_valid ''a&b'', qr_name = ''cpu.usage_pct'', qr_bucket = ''1m'', qr_agg = ''avg'',
      qr_points = [example_point_of demo_zone \<lparr>qp_time = (1700000000 + unix_epoch) * second, qp_value = Fin 2\<rparr>]\<rparr>,
    \<lparr>st_db = 3, st_tracker = None\<rparr>)"
proof -
  let ?t = "1700000000 * second :: int"
  let ?c = "\<lparr>xc_base_url = ''http://srv:8080'', xc_token = mint_jwt 1700000000 ''0123456789abcdef''\<rparr>"
  let ?q = "\<lparr>q_host = ''a&b'', q_name = ''cpu.usage_pct'', q_from = ?t div second * second,
      q_to = (?t + hour) div second * second, q_bucket = ''1m'', q_agg = ''avg''\<rparr>"
  have "trim_space ''a&b'' \<noteq> []" "trim_space ''cpu.usage_pct'' \<noteq> []" by code_simp+
  then have "query_params_validate ?q = None"
    by (simp add: query_params_validate_def storage_metric_names_def valid_buckets_def valid_aggs_def second_def hour_def
        time_sub_def min_duration_def max_duration_def)
  moreover have "xc_base_url ?c = base_url ''http'' ''srv:8080'' []" using demo_url(1) by simp
  moreover have "xc_token ?c \<noteq> []" by (simp add: mint_jwt_def Let_def)
  moreover have "se_jwt (rt_env query_server) (rt_secret query_server) (xc_token ?c) (se_now (rt_env query_server))"
    using mint_jwt_valid [of 1700000000] by (simp add: query_server_parts second_def)
  moreover have "four_digit_year ?t" "four_digit_year (?t + hour)" by (simp_all add: four_digit_year_def second_def hour_def)
  ultimately show ?thesis
    using client_query_answered [of ?c "''http''" "''srv:8080''" query_server ?t "?t + hour" ?q "''a&b''" "''cpu.usage_pct''"
        "''1m''" "''avg''" "\<lparr>st_db = 3, st_tracker = None\<rparr>" demo_zone]
      demo_url(2,3) query_server_parts(1) query_server_points_ok
    by (simp add: query_server_points)
qed


end
