(* ===== verification/Demo_Run.thy ===== *)
theory Demo_Run
  imports Wire
begin

text \<open>
  The demo application with what runs beside it: the agent, whose tailer ships the lines of its log, and
  the load generator, whose requests its handlers take.
\<close>

section \<open>The log file\<close>

text \<open>The lines a sequence of requests leaves in the log; each request with the environment it is served
  in, and the time and duration of its record.\<close>

fun demo_log :: "int \<Rightarrow> (app_env \<times> demo_request \<times> gotime \<times> duration) list \<Rightarrow> store \<Rightarrow> string list \<times> store" where
  "demo_log offset [] s = ([], s)"
| "demo_log offset ((env, r, t, took) # xs) s =
     (let ((resp, entries), s1) = demo_serve env r s;
          (ls, s2) = demo_log offset xs s1
      in (map (access_line offset t took) entries @ ls, s2))"

section \<open>Structured lines\<close>

lemma time_no_level: "list_all time_char t \<Longrightarrow> no_level_field (t @ s) = no_level_field s"
proof (induction t)
  case (Cons c t)
  have "CHR 0x22 \<notin> set ''-T:.Z+''" "\<not> is_digit (CHR 0x22)" by (code_simp, code_simp)
  then have "c \<noteq> CHR 0x22" using Cons.prems by (auto simp: time_char_def)
  with Cons show ?case by simp
qed simp

lemma time_not_field: "time_char c \<Longrightarrow> \<not> field_start c"
proof -
  assume c: "time_char c"
  have "list_all (\<lambda>c. \<not> field_start c) ''-T:.Z+''" by code_simp
  moreover have "\<not> field_start c" if "is_digit c"
    using that by (auto simp: field_start_def lower_char_def char_eval)
  ultimately show "\<not> field_start c" using c by (auto simp: time_char_def list_all_iff)
qed

lemma quiet_comma: "no_level_field [dquote, CHR '','']"
  by (simp add: dquote_def field_start_def lower_char_def less_eq_char_def)

lemma quiet_time: "no_level_field (CHR ''{'' # dquote # CHR ''t'' # CHR ''i'' # CHR ''m'' # CHR ''e'' # dquote # CHR '':'' # s) = no_level_field s"
  by (simp add: dquote_def field_start_def lower_char_def less_eq_char_def)

lemma head_no_level: "no_level_field (slog_head offset now)"
proof -
  let ?t = "format_zoned offset now"
  have "date_clock (now + offset * second) \<noteq> []" by (simp add: date_clock_def Let_def split: prod.split)
  then obtain c u where cu: "?t = c # u" unfolding format_zoned_def by (cases "date_clock (now + offset * second)") auto
  then have "\<not> field_start c" using time_chars(1) [of offset now] time_not_field [of c] by simp
  then have "no_level_field (dquote # ?t @ [dquote, CHR '','']) = no_level_field (?t @ [dquote, CHR '',''])"
    by (simp add: cu)
  also have "\<dots> = True"
    using time_no_level [OF time_chars(1), of offset now "[dquote, CHR '','']"] quiet_comma
    by simp
  finally show ?thesis
    by (simp only: slog_head_def quiet_time append_Cons append_Nil)
qed

definition level_name :: "slog_level \<Rightarrow> string" where
  "level_name l = (case l of LevelDebug \<Rightarrow> ''debug'' | LevelInfo \<Rightarrow> ''info'' | LevelWarn \<Rightarrow> ''warn'' | LevelError \<Rightarrow> ''error'')"

lemma level_words: "list_all word_byte (level_text l) \<and> map_of level_norm (to_lower (level_text l)) = Some (level_name l)"
proof -
  have "list_all (\<lambda>l. list_all word_byte (level_text l) \<and> map_of level_norm (to_lower (level_text l)) = Some (level_name l))
      [LevelDebug, LevelInfo, LevelWarn, LevelError]" by code_simp
  then show ?thesis by (cases l) simp_all
qed

text \<open>The level of a structured line is that of its record, whatever the message and the attributes say.\<close>

lemma parse_slog_line: "parse_level (slog_line offset now level msg attrs) = level_name level"
proof -
  obtain rest where "slog_line offset now level msg attrs = slog_head offset now @ json_level_prefix @ level_text level @ CHR 0x22 # rest"
    using slog_line_start [of offset now level msg attrs] by (auto simp: json_level_prefix_def dquote_def)
  then show ?thesis using parse_json_level [OF head_no_level] level_words by simp
qed

lemma slog_line_ends: "\<exists>u. slog_line offset now level msg attrs = u @ ''}''"
  by (simp add: slog_line_def slog_record_def)

lemma slog_line_entry:
  assumes "length (slog_line offset t level msg attrs) \<le> 4096"
  shows "line_entry now host path (slog_line offset t level msg attrs) =
    \<lparr>e_time = now, e_host = host, e_path = path, e_level = level_name level, e_message = slog_line offset t level msg attrs\<rparr>"
  using assms by (simp add: line_entry_def max_line_bytes_def Let_def parse_slog_line)

lemma lines_scanned:
  "\<forall>l\<in>set ls. newline \<notin> set l \<and> length l < scan_buf_size \<and> drop_cr l = l \<Longrightarrow>
     scan_lines (concat (map (\<lambda>l. l @ [newline]) ls)) = ls"
proof (induction ls)
  case (Cons l ls)
  then show ?case using scan_line [of l "concat (map (\<lambda>l. l @ [newline]) ls)"] by (simp add: newline_byte_def newline_def)
qed simp

section \<open>The demo application's log\<close>

lemma access_line_facts:
  "\<exists>attrs. access_line offset now took e = slog_line offset now LevelInfo ''request'' attrs"
  by (cases e) (auto simp: access_line_def)

lemma access_line_scanned:
  assumes "length (access_line offset now took e) \<le> 4096"
  shows "newline \<notin> set (access_line offset now took e) \<and> length (access_line offset now took e) < scan_buf_size \<and>
    drop_cr (access_line offset now took e) = access_line offset now took e \<and> trim_space (access_line offset now took e) \<noteq> []"
proof -
  obtain attrs where a: "access_line offset now took e = slog_line offset now LevelInfo ''request'' attrs"
    using access_line_facts by blast
  obtain u where u: "access_line offset now took e = u @ ''}''" using slog_line_ends a by metis
  have "trim_space (access_line offset now took e) \<noteq> []"
    by (rule solid_trim_space_nonempty [of "CHR ''}''"]) (simp_all add: u solid_def space_seqs_def)
  moreover have "drop_cr (access_line offset now took e) = access_line offset now took e" by (simp add: u drop_cr_def)
  moreover have "newline \<notin> set (access_line offset now took e)" unfolding a by (rule slog_line_one_line)
  ultimately show ?thesis using assms by (simp add: scan_buf_size_def)
qed

text \<open>Whether the request reaches a handler.\<close>

definition demo_handled :: "demo_request \<Rightarrow> bool" where
  "demo_handled r \<longleftrightarrow> (case mux_find demo_patterns (dr_method r) (dr_path r) of Matched i vs \<Rightarrow> True | _ \<Rightarrow> False)"

lemma demo_serve_entries:
  "demo_serve env r s = ((resp, entries), s') \<Longrightarrow>
     entries = (if demo_handled r then [(dr_method r, dr_path r, fst resp)] else [])"
  by (auto simp: demo_serve_def demo_handled_def case_prod_unfold Let_def split: mux_result.splits)

lemma demo_log_Cons:
  assumes "demo_log offset ((env, r, t, took) # xs) s = (ls, s')"
  obtains resp s1 ls' where "demo_serve env r s = ((resp, if demo_handled r then [(dr_method r, dr_path r, fst resp)] else []), s1)"
    "demo_log offset xs s1 = (ls', s')"
    "ls = (if demo_handled r then [access_line offset t took (dr_method r, dr_path r, fst resp)] else []) @ ls'"
proof -
  obtain resp entries s1 where a: "demo_serve env r s = ((resp, entries), s1)" by (metis prod.exhaust)
  obtain ls' s2 where "demo_log offset xs s1 = (ls', s2)" by fastforce
  with a assms that demo_serve_entries [OF a] show thesis by (auto split: if_splits)
qed

lemma demo_log_lines:
  "demo_log offset xs s = (ls, s') \<Longrightarrow>
     list_all2 (\<lambda>(env, r, t, took) l. \<exists>status. l = access_line offset t took (dr_method r, dr_path r, status))
       (filter (\<lambda>(env, r, t, took). demo_handled r) xs) ls"
proof (induction xs arbitrary: s ls)
  case (Cons x xs)
  obtain env r t took where x: "x = (env, r, t, took)" by (cases x)
  from demo_log_Cons [OF Cons.prems [unfolded x]] obtain resp :: "nat \<times> demo_body" and s1 ls' where
    rest: "demo_log offset xs s1 = (ls', s')"
    and ls: "ls = (if demo_handled r then [access_line offset t took (dr_method r, dr_path r, fst resp)] else []) @ ls'" by blast
  note ih = Cons.IH [OF rest]
  show ?case
  proof (cases "demo_handled r")
    case True
    with ih ls show ?thesis by (simp add: x) blast
  qed (use ih ls in \<open>simp add: x\<close>)
qed simp

text \<open>
  C21. The agent beside the demo application ships its log as it is: every request that reaches a handler
  gives one entry of level \<open>info\<close>, in the order of the requests, whose message is the line of its
  record, whatever the method and the path contain, as long as the line has at most 4096 bytes.
\<close>

theorem served_requests_shipped:
  assumes "demo_log offset xs s = (ls, s')" "\<forall>l\<in>set ls. length l \<le> 4096"
  shows "line_entries now host path (scan_lines (concat (map (\<lambda>l. l @ [newline]) ls))) =
      map (\<lambda>l. \<lparr>e_time = now, e_host = host, e_path = path, e_level = ''info'', e_message = l\<rparr>) ls \<and>
    list_all2 (\<lambda>(env, r, t, took) l. \<exists>status. l = access_line offset t took (dr_method r, dr_path r, status))
      (filter (\<lambda>(env, r, t, took). demo_handled r) xs) ls"
proof -
  note a = demo_log_lines [OF assms(1)]
  have l: "\<exists>t took e. l = access_line offset t took e" if "l \<in> set ls" for l
    using a that by (auto simp: list_all2_conv_all_nth in_set_conv_nth case_prod_unfold) blast
  have f: "newline \<notin> set l \<and> length l < scan_buf_size \<and> drop_cr l = l \<and> trim_space l \<noteq> []" if "l \<in> set ls" for l
    using l [OF that] access_line_scanned assms(2) that by blast
  then have "scan_lines (concat (map (\<lambda>l. l @ [newline]) ls)) = ls" by (intro lines_scanned) blast
  moreover have "filter (\<lambda>line. trim_space line \<noteq> []) ls = ls" using f by (simp add: filter_id_conv)
  moreover have "line_entry now host path l =
      \<lparr>e_time = now, e_host = host, e_path = path, e_level = ''info'', e_message = l\<rparr>" if m: "l \<in> set ls" for l
  proof -
    obtain t attrs where a: "l = slog_line offset t LevelInfo ''request'' attrs"
      using l [OF m] access_line_facts by metis
    then show ?thesis using slog_line_entry [of offset t LevelInfo "''request''" attrs now host path] assms(2) m
      by (simp add: level_name_def)
  qed
  ultimately show ?thesis using a by (simp add: line_entries_def)
qed

section \<open>The load generator against the application\<close>

text \<open>A request of the generator as the application's mux sees it, and its answer in a state of the store.\<close>

definition load_received :: "load_request \<Rightarrow> demo_request" where
  "load_received r =
     (case r of
        LoadGet url \<Rightarrow> \<lparr>dr_method = ''GET'', dr_path = url_path url, dr_body = []\<rparr>
      | LoadPost url body \<Rightarrow> \<lparr>dr_method = ''POST'', dr_path = url_path url, dr_body = body\<rparr>)"

definition app_client :: "(nat \<Rightarrow> app_env \<times> store) \<Rightarrow> nat \<Rightarrow> load_request \<Rightarrow> ('e, int) result" where
  "app_client at_call k r =
     (let (env, s) = at_call k in Inr (int (fst (fst (fst (demo_serve env (load_received r) s))))))"

lemma title_read: "decode_title (load_body title) = Some (to_valid title)"
proof -
  have "well_formed 0 (json_of_map [(''title'', title)])" by (rule well_formed_map) (simp add: max_nesting_def)
  note d = decode_render(1) [OF this]
  have "to_valid ''title'' = ''title''" by code_simp
  then show ?thesis unfolding decode_title_def load_body_def d
    by (simp add: json_of_map_def decode_struct_def decode_field find_field_def del: fold_name.simps)
qed

lemma load_titles_ok: "list_all (\<lambda>t. trim_space (to_valid t) \<noteq> []) load_titles"
  by code_simp

lemma load_requests_ok:
  assumes "CHR '':'' \<notin> set scheme" "plain_authority a" "\<forall>i<2. rand i < 10" "r \<in> set (load_batch (base_url scheme a []) rand)"
  shows "load_ok (app_client at_call :: nat \<Rightarrow> load_request \<Rightarrow> ('e, int) result) k r"
proof -
  let ?c = "app_client at_call :: nat \<Rightarrow> load_request \<Rightarrow> ('e, int) result"
  note p = url_path_base(1) [OF assms(1,2)]
  obtain env s where e: "at_call k = (env, s)" by fastforce
  have paths: "mux_find demo_patterns ''GET'' ''/tasks'' = Matched 2 []" "mux_find demo_patterns ''POST'' ''/tasks'' = Matched 1 []"
    "mux_find demo_patterns ''GET'' ''/slow'' = Matched 5 []" "mux_find demo_patterns ''GET'' ''/cpu'' = Matched 6 []"
    by code_simp+
  have get: "load_ok ?c k (LoadGet (base_url scheme a p))" if "p \<in> {''/tasks'', ''/slow'', ''/cpu''}" for p
    using that p [of "''tasks''"] p [of "''slow''"] p [of "''cpu''"]
    by (auto simp: load_ok_def load_get_def app_client_def e load_received_def demo_serve_def paths demo_handler_def
        handle_slow_def handle_cpu_def Let_def)
  have post: "load_ok ?c k (LoadPost (base_url scheme a ''/tasks'') (load_body t))" if t: "t \<in> set load_titles" for t
  proof -
    have "trim_space (to_valid t) \<noteq> []" using t load_titles_ok by (simp add: list_all_iff)
    then show ?thesis using p [of "''tasks''"]
      by (simp add: load_ok_def load_post_def app_client_def e load_received_def demo_serve_def paths demo_handler_def
          handle_create_def title_read case_prod_unfold Let_def)
  qed
  have titles: "length load_titles = 10" by code_simp
  have "random_title (rand i) \<in> set load_titles" if "i < 2" for i
    unfolding random_title_def using assms(3) that titles by (intro nth_mem) simp
  with get post assms(4) show ?thesis by (auto simp: load_batch_def base_url_append)
qed

lemma load_counts_all: "\<forall>r\<in>set rs. \<forall>k. load_ok client k r \<Longrightarrow> load_counts client k rs = (length rs, 0)"
  by (induction rs arbitrary: k) auto

text \<open>
  C22. Against the demo application itself the generator starts at its first poll, and every request of
  every batch succeeds, whatever the application's store holds and whichever titles are drawn: the JSON
  the generator posts is what the application decodes.
\<close>

theorem load_run_succeeds:
  assumes "load_base getenv = base_url scheme a []" "CHR '':'' \<notin> set scheme" "plain_authority a" "\<forall>j<n. \<forall>i<2. rand j i < 10"
  shows "load_main getenv (app_client at_poll :: nat \<Rightarrow> load_request \<Rightarrow> ('e, int) result) (\<lambda>j. app_client (at_call j)) rand n =
    Some (replicate n (10, 0))"
proof -
  let ?health = "app_client at_poll :: nat \<Rightarrow> load_request \<Rightarrow> ('e, int) result"
  let ?client = "\<lambda>j. app_client (at_call j) :: nat \<Rightarrow> load_request \<Rightarrow> ('e, int) result"
  let ?base = "base_url scheme a []"
  have "mux_find demo_patterns ''GET'' ''/healthz'' = Matched 0 []" by code_simp
  then have "load_get (?health 0) (LoadGet (?base @ ''/healthz''))"
    using url_path_base(1) [OF assms(2,3), of "''healthz''"]
    by (simp add: base_url_append load_get_def app_client_def load_received_def demo_serve_def demo_handler_def
        case_prod_unfold Let_def)
  then have ready: "wait_ready (\<lambda>k. load_get (?health k) (LoadGet (?base @ ''/healthz''))) 0 = Some 0"
    by (subst wait_ready.simps) simp
  have "load_counts (?client j) 0 (load_batch ?base (rand j)) = (10, 0)" if "j < n" for j
  proof -
    have "load_counts (?client j) 0 (load_batch ?base (rand j)) = (length (load_batch ?base (rand j)), 0)"
      using load_requests_ok [OF assms(2,3)] assms(4) that by (intro load_counts_all) blast
    then show ?thesis by (simp add: load_batch_def)
  qed
  then have "map (\<lambda>j. load_counts (?client j) 0 (load_batch ?base (rand j))) [0..<n] = replicate n (10, 0)"
    by (intro nth_equalityI) simp_all
  then show ?thesis by (simp add: load_main_def assms(1) ready)
qed

section \<open>Witnesses\<close>

definition quiet_env :: app_env where
  "quiet_env = \<lparr>de_now = 0, de_order = [], de_rand = 7\<rparr>"

definition slow_request :: demo_request where
  "slow_request = \<lparr>dr_method = ''GET'', dr_path = ''/slow'', dr_body = []\<rparr>"

lemma served_requests_shipped_witness:
  "line_entries 7 ''h'' ''/l'' (scan_lines (access_line 3600 0 107000000 (''GET'', ''/slow'', 200) @ [newline])) =
     [\<lparr>e_time = 7, e_host = ''h'', e_path = ''/l'', e_level = ''info'', e_message = access_line 3600 0 107000000 (''GET'', ''/slow'', 200)\<rparr>]"
proof -
  have "mux_find demo_patterns ''GET'' ''/slow'' = Matched 5 []" by code_simp
  then have "demo_log 3600 [(quiet_env, slow_request, 0, 107000000)] new_store =
      ([access_line 3600 0 107000000 (''GET'', ''/slow'', 200)], new_store)"
    by (simp add: demo_serve_def slow_request_def demo_handler_def handle_slow_def Let_def)
  moreover have "length (access_line 3600 0 107000000 (''GET'', ''/slow'', 200)) \<le> 4096"
    by code_simp
  ultimately show ?thesis using served_requests_shipped [of 3600 _ new_store _ new_store 7 "''h''" "''/l''"] by fastforce
qed

lemma load_run_succeeds_witness:
  "load_main (\<lambda>v. []) (app_client (\<lambda>k. (quiet_env, new_store))) (\<lambda>j. app_client (\<lambda>k. (quiet_env, new_store))) (\<lambda>j i. i) 3 =
     Some [(10, 0), (10, 0), (10, 0)]"
proof -
  have "load_base (\<lambda>v. []) = base_url ''http'' ''demoapp:9000'' []" by (simp add: load_base_def base_url_def)
  moreover have "CHR '':'' \<notin> set ''http''" "plain_authority ''demoapp:9000''" by code_simp+
  ultimately show ?thesis
    using load_run_succeeds [of "\<lambda>v. []" "''http''" "''demoapp:9000''" 3 "\<lambda>j i. i"] by (simp add: numeral_3_eq_3)
qed

end
