(* ===== verification/Log_Pipeline.thy ===== *)
theory Log_Pipeline
  imports Wire
begin

text \<open>
  The way of a log line: from the file, through the tailer and the sender of \<open>cmd/agent\<close>, to the rows of the
  database behind the router.
\<close>

section \<open>The tailer the agent starts\<close>

lemma agent_tailer:
  assumes "agent_main getenv w = Inr p" "ap_tailer p = Some (ls, t)"
  shows "hs_url ls = url_text (ac_server_url (ap_config p)) @ ''/api/v1/logs''" "hs_token ls = hs_token (ap_sender p)"
    "tl_host t = ac_host (ap_config p)"
proof -
  show "hs_url ls = url_text (ac_server_url (ap_config p)) @ ''/api/v1/logs''" "hs_token ls = hs_token (ap_sender p)"
    "tl_host t = ac_host (ap_config p)"
    using assms by (auto dest: new_tailer_host simp: agent_main_def Let_def with_token_def new_http_sender_def new_http_log_sender_def
        split: sum.splits if_splits)
qed

section \<open>Sending\<close>

lemma send_logs_accepted:
  assumes "in_touch senv rt s hs body" "marshal_log_batch batch = Inr body" "answer rt s (post_request hs body) = 202"
  shows "send_logs hs senv batch = Some None"
proof -
  have "send_logs_attempt hs senv body 0 = Some None"
    using assms by (simp add: in_touch_def send_logs_attempt_def Let_def)
  then have "retry_from (send_logs_attempt hs senv body) 0 = Some (0, None)"
    by (simp add: log_retry.run_unfold)
  then show ?thesis using assms(2) by (simp add: send_logs_def)
qed


section \<open>Witness\<close>

definition tail_env :: environment where
  "tail_env v = (if v = ''LOG_PATHS'' then ''/l'' else demo_env v)"

definition boom_view :: "(unit, string) fs_view" where
  "boom_view = file_view (''boom'' @ [newline_byte])"

lemma tail_agent_starts:
  "\<exists>p ls t. agent_main tail_env demo_agent = Inr p \<and> ac_token (ap_config p) = ''0123456789abcdef'' \<and>
    url_text (ac_server_url (ap_config p)) = ''http://srv:8080'' \<and> ac_host (ap_config p) = ''web'' \<and>
    ap_tailer p = Some (ls, t) \<and> tl_files t = Map.empty \<and> tl_offsets t = Map.empty"
proof -
  have "split_log_paths ''/l'' = [''/l'']" by code_simp
  then show ?thesis
    by (simp add: agent_main_def load_agent_def demo_agent_def agent_token_def mint_agent_token_def demo_sign_def
        tail_env_def demo_env_def new_tailer_def open_and_seek_eof_def Let_def)
qed

lemma boom_event:
  assumes "tl_files t = Map.empty" "tl_offsets t = Map.empty"
  shows "\<exists>t'. handle_event boom_view (write_event ''/l'') t = ([line_entry 7 (tl_host t) ''/l'' ''boom''], t')"
proof -
  have "trim_space ''boom'' \<noteq> []" by code_simp
  moreover have "scan_lines (''boom'' @ [newline_byte]) = [''boom'']"
    by (subst scan_line) (simp_all add: newline_byte_def scan_buf_size_def drop_cr_def)
  ultimately show ?thesis
    using assms by (simp add: handle_event_def read_new_lines_def read_handle_def boom_view_def file_view_def write_event_def
        has_op_def offset_of_def set_offset_def line_entries_def Let_def)
qed


end
