(* ===== verification/Go_Ticker.thy ===== *)
theory Go_Ticker
  imports Go_Std
begin

text \<open>
  \<open>time.Ticker\<close> under a loop that receives from its channel: the ticker fires at every multiple of its
  period after its start, the channel holds at most one tick, and a tick that finds it full is dropped.
\<close>

section \<open>Receiving from a ticker\<close>

text \<open>The first tick after a time.\<close>

definition next_tick :: "gotime \<Rightarrow> duration \<Rightarrow> gotime \<Rightarrow> gotime" where
  "next_tick start period r = start + ((r - start) div period + 1) * period"

text \<open>
  The receives of a loop after one at \<open>r\<close> whose body took \<open>d\<close>, and so on: the body ends at \<open>r + d\<close>, and
  the first tick after \<open>r\<close> waits in the channel or is waited for.
\<close>

fun receives_from :: "gotime \<Rightarrow> duration \<Rightarrow> gotime \<Rightarrow> duration list \<Rightarrow> gotime list" where
  "receives_from start period r [] = []"
| "receives_from start period r (d # ds) =
     r # receives_from start period (max (next_tick start period r) (r + d)) ds"

text \<open>One receive per body; \<open>ds\<close> are the times the bodies take.\<close>

definition ticker_receives :: "gotime \<Rightarrow> duration \<Rightarrow> duration list \<Rightarrow> gotime list" where
  "ticker_receives start period ds = receives_from start period (next_tick start period start) ds"

lemma length_receives_from [simp]: "length (receives_from start period r ds) = length ds"
  by (induction ds arbitrary: r) auto

lemma length_ticker_receives [simp]: "length (ticker_receives start period ds) = length ds"
  by (simp add: ticker_receives_def)

lemma next_tick_grid: "0 < period \<Longrightarrow> next_tick start period (start + int k * period) = start + int (Suc k) * period"
  by (simp add: next_tick_def)

lemma next_tick_after:
  assumes "0 < period"
  shows "r < next_tick start period r" "next_tick start period r \<le> r + period"
proof -
  let ?q = "(r - start) div period * period"
  have "?q + (r - start) mod period = r - start" by (rule div_mult_mod_eq)
  moreover have "0 \<le> (r - start) mod period" "(r - start) mod period < period" using assms by simp_all
  moreover have "next_tick start period r = start + ?q + period" by (simp add: next_tick_def distrib_right)
  ultimately show "r < next_tick start period r" "next_tick start period r \<le> r + period" by linarith+
qed

text \<open>Bodies that end within the period see every tick, at its time.\<close>

lemma receives_from_on_time:
  assumes "0 < period" "\<forall>d\<in>set ds. d \<le> period" "j < length ds"
  shows "receives_from start period (start + int k * period) ds ! j = start + int (k + j) * period"
  using assms(2,3)
proof (induction ds arbitrary: j k)
  case (Cons d ds)
  have "max (next_tick start period (start + int k * period)) (start + int k * period + d) = start + int (Suc k) * period"
    using Cons.prems(1) by (simp add: next_tick_grid [OF assms(1)] distrib_right)
  then show ?case using Cons.IH [of "j - 1" "Suc k"] Cons.prems by (cases j) auto
qed simp

definition tick_at :: "gotime \<Rightarrow> duration \<Rightarrow> nat \<Rightarrow> gotime" where
  "tick_at start period m = start + int (Suc m) * period"

lemma receives_on_time:
  assumes "0 < period" "\<forall>d\<in>set ds. d \<le> period"
  shows "ticker_receives start period ds = map (tick_at start period) [0..<length ds]"
proof (rule nth_equalityI)
  fix j assume "j < length (ticker_receives start period ds)"
  then show "ticker_receives start period ds ! j = map (tick_at start period) [0..<length ds] ! j"
    using receives_from_on_time [OF assms, of j start 1] next_tick_grid [OF assms(1), of start 0]
    by (simp add: ticker_receives_def tick_at_def)
qed simp

lemma receives_take:
  assumes "0 < period" "\<forall>d\<in>set ds. d \<le> period"
  shows "ticker_receives start period (take j ds) = take j (ticker_receives start period ds)"
proof -
  have "\<forall>d\<in>set (take j ds). d \<le> period" using assms(2) by (auto dest: in_set_takeD)
  then show ?thesis by (simp add: receives_on_time [OF assms(1)] assms(2) take_map min_def)
qed

text \<open>The first tick at or after a time.\<close>

lemma first_tick:
  assumes "0 < period" "start + int i * period < x" "x \<le> start + int n * period"
  obtains k where "i \<le> k" "k < n" "x \<le> tick_at start period k" "tick_at start period k < x + period"
    "\<And>m. x \<le> tick_at start period m \<longleftrightarrow> k \<le> m"
proof -
  define k where "k = (LEAST m. x \<le> tick_at start period m)"
  have "start + int i * period < start + int n * period" using assms(2,3) by linarith
  then have n: "i < n" using assms(1) by (simp add: mult_less_cancel_right)
  then have "x \<le> tick_at start period (n - 1)" using assms(3) by (simp add: tick_at_def)
  then have k: "x \<le> tick_at start period k" "k \<le> n - 1"
    and least: "\<And>m. x \<le> tick_at start period m \<Longrightarrow> k \<le> m"
    unfolding k_def by (auto intro: LeastI Least_le)
  have mono: "tick_at start period a \<le> tick_at start period b" if "a \<le> b" for a b
    using that assms(1) by (simp add: tick_at_def)
  have early: "tick_at start period m < x" if "Suc m \<le> i" for m
  proof -
    have "tick_at start period m \<le> start + int i * period"
      using that assms(1) by (auto simp: tick_at_def intro!: mult_right_mono)
    with assms(2) show ?thesis by linarith
  qed
  have "i \<le> k" using early [of k] k(1) by (metis not_less not_less_eq_eq)
  moreover have "tick_at start period k < x + period"
  proof (cases k)
    case 0
    with \<open>i \<le> k\<close> show ?thesis using assms(2) by (simp add: tick_at_def)
  next
    case (Suc m)
    then have "\<not> x \<le> tick_at start period m" using least [of m] by auto
    with Suc show ?thesis by (simp add: tick_at_def distrib_right)
  qed
  moreover have "x \<le> tick_at start period m \<longleftrightarrow> k \<le> m" for m
    using least [of m] mono [of k m] k(1) by auto
  ultimately show thesis using k n that [of k] by simp
qed

text \<open>Bodies never overlap, and one that takes long is followed at once by the next.\<close>

lemma receives_from_gap:
  assumes "0 < period" "Suc j < length ds"
  shows "receives_from start period r ds ! j + ds ! j \<le> receives_from start period r ds ! Suc j"
    and "receives_from start period r ds ! j < receives_from start period r ds ! Suc j"
    and "receives_from start period r ds ! Suc j \<le> receives_from start period r ds ! j + max period (ds ! j)"
proof -
  have "receives_from start period r ds ! Suc j =
      max (next_tick start period (receives_from start period r ds ! j)) (receives_from start period r ds ! j + ds ! j)"
    using assms(2)
  proof (induction ds arbitrary: j r)
    case (Cons d ds)
    then show ?case
    proof (cases j)
      case 0
      with Cons.prems show ?thesis by (cases ds) auto
    next
      case (Suc i)
      with Cons show ?thesis by simp
    qed
  qed simp
  with next_tick_after [OF assms(1), where r = "receives_from start period r ds ! j" and start = start]
  show "receives_from start period r ds ! j + ds ! j \<le> receives_from start period r ds ! Suc j"
    "receives_from start period r ds ! j < receives_from start period r ds ! Suc j"
    "receives_from start period r ds ! Suc j \<le> receives_from start period r ds ! j + max period (ds ! j)"
    by (simp_all add: max_def)
qed

end
