(* ===== verification/Tracker_Clock.thy ===== *)
theory Tracker_Clock
  imports Host_Tracker Go_Ticker
begin

text \<open>
  \<open>HostTracker.Start\<close>: the scans of the tracker on its ten-second ticker, with the heartbeats that arrive
  between them, until the context is cancelled.
\<close>

section \<open>The ticker of the tracker\<close>

definition scan_period :: duration where
  "scan_period = 10 * second"

text \<open>
  One turn of the loop: the heartbeats recorded since the last scan, with their times, the order in which
  the scan visits the map, and the time it takes with its calls of \<open>onDown\<close>.
\<close>

record scan_round =
  sr_beats :: "(gotime \<times> string) list"
  sr_order :: "string list"
  sr_took :: duration

fun round_events :: "gotime list \<Rightarrow> scan_round list \<Rightarrow> tracker_event list" where
  "round_events (r # rs) (rd # rds) =
     map (\<lambda>(now, h). Beat now h) (sr_beats rd) @ Scan r (sr_order rd) # round_events rs rds"
| "round_events _ _ = []"

definition scan_times :: "gotime \<Rightarrow> scan_round list \<Rightarrow> gotime list" where
  "scan_times start rounds = ticker_receives start scan_period (map sr_took rounds)"

text \<open>A nil tracker returns at once.\<close>

definition tracker_start ::
  "gotime \<Rightarrow> scan_round list \<Rightarrow> host_tracker option \<Rightarrow> host_tracker option \<times> string obs list" where
  "tracker_start start rounds tr =
     (case tr of
        None \<Rightarrow> (None, [])
      | Some t \<Rightarrow> map_prod Some id (run_steps tracker_step t (round_events (scan_times start rounds) rounds)))"

text \<open>Every scan visits each host of its map once.\<close>

fun legal_scans :: "host_tracker \<Rightarrow> tracker_event list \<Rightarrow> bool" where
  "legal_scans t [] \<longleftrightarrow> True"
| "legal_scans t (e # es) \<longleftrightarrow>
     (case e of Beat now h \<Rightarrow> True | Scan now order \<Rightarrow> ranges order (ht_hosts t)) \<and>
     legal_scans (fst (tracker_step t e)) es"

lemma legal_scans_append:
  "legal_scans t (xs @ ys) \<longleftrightarrow> legal_scans t xs \<and> legal_scans (fst (run_steps tracker_step t xs)) ys"
  by (induction xs arbitrary: t) (auto simp: case_prod_unfold Let_def)

lemma distinct_count_list: "distinct xs \<Longrightarrow> count_list xs x = (if x \<in> set xs then 1 else 0)"
  by (induction xs) auto

lemma round_events_append:
  "length rs = length rds \<Longrightarrow> round_events (rs @ rs') (rds @ rds') = round_events rs rds @ round_events rs' rds'"
  by (induction rs rds rule: round_events.induct) auto

section \<open>A silent host\<close>

text \<open>What a run knows of one host that sends no heartbeat.\<close>

definition watches :: "host_tracker \<Rightarrow> string \<Rightarrow> gotime \<Rightarrow> duration \<Rightarrow> bool" where
  "watches t h ls D \<longleftrightarrow> ht_hosts t h = Some ls \<and> ht_on_down t \<and> ht_down_after t = D \<and> 0 < D \<and> D \<le> max_duration"

lemma beats_of_others:
  assumes "watches t h ls D" "h \<notin> snd ` set beats"
  shows "watches (fst (run_steps tracker_step t (map (\<lambda>(now, k). Beat now k) beats))) h ls D"
    and "h \<in> ht_down (fst (run_steps tracker_step t (map (\<lambda>(now, k). Beat now k) beats))) \<longleftrightarrow> h \<in> ht_down t"
    and "Raise h \<notin> set (snd (run_steps tracker_step t (map (\<lambda>(now, k). Beat now k) beats)))"
  using assms
  by (induction beats arbitrary: t) (auto simp: watches_def heartbeat_def case_prod_unfold Let_def split: if_splits)

lemma scan_of_silent:
  assumes "watches t h ls D" "ranges order (ht_hosts t)"
  shows "watches (fst (scan now order t)) h ls D"
    and "h \<in> ht_down (fst (scan now order t)) \<longleftrightarrow> h \<in> ht_down t \<or> ls + D \<le> now"
    and "count_list (snd (scan now order t)) h = (if h \<notin> ht_down t \<and> ls + D \<le> now then 1 else 0)"
proof -
  have over: "overdue now t h \<longleftrightarrow> ls + D \<le> now"
    using assms(1) time_sub_ge [of D now ls] by (auto simp: watches_def overdue_def min_duration_def)
  show "watches (fst (scan now order t)) h ls D"
    using assms(1) scan_loop_hosts [of now order t] by (simp add: watches_def scan_def case_prod_unfold Let_def)
  show "h \<in> ht_down (fst (scan now order t)) \<longleftrightarrow> h \<in> ht_down t \<or> ls + D \<le> now"
    using scan_spec(1) [OF assms(2), of now] over by auto
  have "distinct order" "h \<in> set order" using assms by (auto simp: ranges_def watches_def)
  moreover have "snd (scan now order t) = filter (\<lambda>k. overdue now t k \<and> k \<notin> ht_down t) order"
    using assms(1) by (intro scan_spec(2) [OF assms(2)]) (simp add: watches_def)
  ultimately show "count_list (snd (scan now order t)) h = (if h \<notin> ht_down t \<and> ls + D \<le> now then 1 else 0)"
    by (simp add: over count_list_0_iff distinct_count_list)
qed

text \<open>The number of reports of a silent host is decided by the times of the scans.\<close>

lemma silent_reports:
  assumes "watches t h ls D" "\<forall>rd\<in>set rounds. h \<notin> snd ` set (sr_beats rd)" "length rs = length rounds"
    and "legal_scans t (round_events rs rounds)"
  shows "count_list (snd (run_steps tracker_step t (round_events rs rounds))) (Raise h) =
    (if h \<notin> ht_down t \<and> (\<exists>r\<in>set rs. ls + D \<le> r) then 1 else 0)"
  using assms
proof (induction rs rounds arbitrary: t rule: round_events.induct)
  case (1 r rs rd rds)
  let ?beats = "map (\<lambda>(now, k). Beat now k) (sr_beats rd)"
  let ?t1 = "fst (run_steps tracker_step t ?beats)"
  let ?t2 = "fst (scan r (sr_order rd) ?t1)"
  have "h \<notin> snd ` set (sr_beats rd)" using 1(3) by simp
  note quiet = beats_of_others [OF 1(2) this]
  have order: "ranges (sr_order rd) (ht_hosts ?t1)" "legal_scans ?t2 (round_events rs rds)"
    using 1(5) by (auto simp: legal_scans_append case_prod_unfold Let_def)
  note scanned = scan_of_silent [OF quiet(1) order(1), of r]
  have "count_list (snd (run_steps tracker_step ?t2 (round_events rs rds))) (Raise h) =
      (if h \<notin> ht_down ?t2 \<and> (\<exists>r\<in>set rs. ls + D \<le> r) then 1 else 0)"
    using 1(1) [OF scanned(1) _ _ order(2)] 1(3,4) by simp
  moreover have "count_list (snd (run_steps tracker_step t ?beats)) (Raise h) = 0"
    using quiet(3) by (simp add: count_list_0_iff)
  moreover have "count_list (map Raise (snd (scan r (sr_order rd) ?t1))) (Raise h) = count_list (snd (scan r (sr_order rd) ?t1)) h"
    by (rule count_list_map_conv) (simp add: inj_def)
  ultimately show ?case
    using scanned(2,3) quiet(2) by (simp add: run_steps_append case_prod_unfold Let_def)
qed auto

lemma run_keeps_config:
  "ht_on_down (fst (run_steps tracker_step t es)) = ht_on_down t \<and>
   ht_down_after (fst (run_steps tracker_step t es)) = ht_down_after t"
proof (induction es arbitrary: t)
  case (Cons e es)
  have "ht_on_down (fst (tracker_step t e)) = ht_on_down t \<and> ht_down_after (fst (tracker_step t e)) = ht_down_after t"
  proof (cases e)
    case (Beat now h)
    then show ?thesis by (simp add: heartbeat_def)
  next
    case (Scan now order)
    then show ?thesis
      using scan_loop_hosts [of now order t] by (simp add: scan_def case_prod_unfold Let_def)
  qed
  with Cons show ?case by (simp add: case_prod_unfold Let_def)
qed simp

text \<open>With scans that end within the period, the scan number \<open>m\<close> is at the tick number \<open>m\<close>.\<close>

lemma scan_period_pos: "0 < scan_period"
  by (simp add: scan_period_def second_def)

lemma scan_times_on_time:
  "\<forall>rd\<in>set rounds. sr_took rd \<le> scan_period \<Longrightarrow>
     scan_times start rounds = map (tick_at start scan_period) [0..<length rounds]"
  using receives_on_time [OF scan_period_pos, of "map sr_took rounds" start] by (simp add: scan_times_def)

text \<open>A run that starts with the last heartbeat of a host.\<close>

lemma reports_after_last_beat:
  assumes "ht_on_down t" "0 < ht_down_after t" "ht_down_after t \<le> max_duration" "h \<noteq> []"
    and beats: "sr_beats rd = bs1 @ (ls, h) # bs2" "h \<notin> snd ` set bs2"
    and silent: "\<forall>rd\<in>set post. h \<notin> snd ` set (sr_beats rd)"
    and legal: "legal_scans t (round_events (r # rs) (rd # post))" and "length rs = length post"
  shows "count_list (snd (run_steps tracker_step t (round_events (r # rs) (rd # post)))) (Raise h) =
    (if \<exists>r'\<in>set (r # rs). ls + ht_down_after t \<le> r' then 1 else 0)"
proof -
  let ?bs = "map (\<lambda>(now, k). Beat now k) bs1 @ [Beat ls h]"
  let ?t = "fst (run_steps tracker_step t ?bs)"
  let ?rest = "round_events (r # rs) (rd\<lparr>sr_beats := bs2\<rparr> # post)"
  have split: "round_events (r # rs) (rd # post) = ?bs @ ?rest" by (simp add: beats(1))
  have w: "watches ?t h ls (ht_down_after t)" and fresh: "h \<notin> ht_down ?t"
    using assms(1-4) run_keeps_config [of t "map (\<lambda>(now, k). Beat now k) bs1"]
    by (auto simp: watches_def run_steps_append heartbeat_def case_prod_unfold Let_def)
  have beats_only: "Raise k \<notin> set (snd (run_steps tracker_step s (map (\<lambda>(now, k). Beat now k) bs)))" for k s bs
    by (induction bs arbitrary: s) (auto simp: case_prod_unfold Let_def)
  have "count_list (snd (run_steps tracker_step t ?bs)) (Raise h) = 0"
    using beats_only [of h t bs1] assms(4) by (simp add: run_steps_append count_list_0_iff case_prod_unfold Let_def)
  moreover have "count_list (snd (run_steps tracker_step ?t ?rest)) (Raise h) =
      (if h \<notin> ht_down ?t \<and> (\<exists>r'\<in>set (r # rs). ls + ht_down_after t \<le> r') then 1 else 0)"
  proof (rule silent_reports [OF w])
    show "legal_scans ?t ?rest" using legal unfolding split legal_scans_append by blast
  qed (use beats(2) silent assms(9) in auto)
  ultimately show ?thesis
    using fresh by (simp only: split run_steps_append case_prod_unfold Let_def snd_conv count_list_append) simp
qed

text \<open>The reports of a run split at the round of the last heartbeat.\<close>

lemma reports_from_round:
  assumes tracker: "ht_on_down t" "0 < ht_down_after t" "ht_down_after t \<le> max_duration" "h \<noteq> []"
    and rounds: "sr_beats rd = bs1 @ (ls, h) # bs2" "h \<notin> snd ` set bs2" "\<forall>rd\<in>set post. h \<notin> snd ` set (sr_beats rd)"
    and quick: "\<forall>rd\<in>set (pre @ rd # post). sr_took rd \<le> scan_period"
    and legal: "legal_scans t (round_events (scan_times start (pre @ rd # post)) (pre @ rd # post))"
  shows "count_list (snd (tracker_start start (pre @ rd # post) (Some t))) (Raise h) =
    count_list (snd (tracker_start start pre (Some t))) (Raise h) +
    (if \<exists>m<length (pre @ rd # post). length pre \<le> m \<and> ls + ht_down_after t \<le> tick_at start scan_period m then 1 else 0)"
proof -
  let ?i = "length pre" and ?n = "length (pre @ rd # post)"
  let ?pre = "round_events (map (tick_at start scan_period) [0..<?i]) pre"
  let ?t = "fst (run_steps tracker_step t ?pre)"
  let ?rest = "round_events (tick_at start scan_period ?i # map (tick_at start scan_period) [Suc ?i..<?n]) (rd # post)"
  have "[0..<?n] = [0..<?i] @ [?i..<?n]" using upt_add_eq_append [of 0 ?i "Suc (length post)"] by simp
  moreover have upt: "[?i..<?n] = ?i # [Suc ?i..<?n]" by (rule upt_conv_Cons) simp
  ultimately have "[0..<?n] = [0..<?i] @ ?i # [Suc ?i..<?n]" by (simp only:)
  then have ev: "round_events (scan_times start (pre @ rd # post)) (pre @ rd # post) = ?pre @ ?rest"
    using scan_times_on_time [OF quick, of start] by (simp add: round_events_append del: upt_Suc round_events.simps)
  have ev0: "round_events (scan_times start pre) pre = ?pre" using scan_times_on_time [of pre start] quick by simp
  have cfg: "ht_on_down ?t" "ht_down_after ?t = ht_down_after t" using run_keeps_config [of t ?pre] tracker(1) by auto
  have lg: "legal_scans ?t ?rest" using legal unfolding ev legal_scans_append by simp
  have "count_list (snd (run_steps tracker_step ?t ?rest)) (Raise h) =
      (if \<exists>r'\<in>set (tick_at start scan_period ?i # map (tick_at start scan_period) [Suc ?i..<?n]). ls + ht_down_after ?t \<le> r' then 1 else 0)"
    by (rule reports_after_last_beat [OF cfg(1) _ _ tracker(4) rounds lg]) (use tracker(2,3) in \<open>auto simp: cfg(2) not_le\<close>)
  moreover have "tick_at start scan_period ?i # map (tick_at start scan_period) [Suc ?i..<?n] = map (tick_at start scan_period) [?i..<?n]"
    by (simp only: upt list.map)
  then have "(\<exists>r'\<in>set (tick_at start scan_period ?i # map (tick_at start scan_period) [Suc ?i..<?n]). ls + ht_down_after t \<le> r') \<longleftrightarrow>
      (\<exists>m<?n. ?i \<le> m \<and> ls + ht_down_after t \<le> tick_at start scan_period m)"
    by (auto simp del: upt_Suc)
  ultimately show ?thesis
    by (simp only: cfg(2) tracker_start_def ev ev0 option.case run_steps_append case_prod_unfold Let_def
        map_prod_def fst_conv snd_conv count_list_append id_apply)
qed

lemma legal_prefix:
  assumes quick: "\<forall>rd\<in>set rounds. sr_took rd \<le> scan_period"
    and legal: "legal_scans t (round_events (scan_times start rounds) rounds)" and j: "j \<le> length rounds"
  shows "legal_scans t (round_events (scan_times start (take j rounds)) (take j rounds))"
proof -
  have tk: "take j (scan_times start rounds) = scan_times start (take j rounds)"
    using receives_take [OF scan_period_pos, of "map sr_took rounds" start j] quick by (simp add: scan_times_def take_map)
  have "round_events (scan_times start rounds) rounds =
      round_events (take j (scan_times start rounds) @ drop j (scan_times start rounds)) (take j rounds @ drop j rounds)"
    by (simp only: append_take_drop_id)
  also have "\<dots> = round_events (scan_times start (take j rounds)) (take j rounds) @
      round_events (drop j (scan_times start rounds)) (drop j rounds)"
    unfolding tk by (rule round_events_append) (simp add: scan_times_def)
  finally show ?thesis using legal by (simp add: legal_scans_append)
qed

text \<open>
  C16. A host that falls silent is reported in time and once: after its last heartbeat, which came after
  the tick before the scan number \<open>i\<close>, the first scan at which it has been silent for \<open>downAfter\<close> calls
  \<open>onDown\<close>, less than ten seconds late, and no scan before or after does; the scans are assumed to end
  within their period.
\<close>

theorem silent_host_reported:
  assumes tracker: "ht_on_down t" "0 < ht_down_after t" "ht_down_after t \<le> max_duration" "h \<noteq> []"
    and rounds: "rounds = pre @ rd # post" "length pre = i"
      "sr_beats rd = bs1 @ (ls, h) # bs2" "h \<notin> snd ` set bs2" "\<forall>rd\<in>set post. h \<notin> snd ` set (sr_beats rd)"
    and times: "start + int i * scan_period \<le> ls" "ls + ht_down_after t \<le> start + int (length rounds) * scan_period"
    and quick: "\<forall>rd\<in>set rounds. sr_took rd \<le> scan_period"
    and legal: "legal_scans t (round_events (scan_times start rounds) rounds)"
    and reports: "reports = (\<lambda>j. count_list (snd (tracker_start start (take j rounds) (Some t))) (Raise h))"
  shows "\<exists>k<length rounds. ls + ht_down_after t \<le> scan_times start rounds ! k \<and>
    scan_times start rounds ! k < ls + ht_down_after t + scan_period \<and>
    (\<forall>j. i \<le> j \<and> j \<le> length rounds \<longrightarrow> reports j = reports i + (if k < j then 1 else 0))"
proof -
  let ?D = "ht_down_after t" and ?n = "length rounds"
  obtain k where k: "i \<le> k" "k < ?n" "ls + ?D \<le> tick_at start scan_period k" "tick_at start scan_period k < ls + ?D + scan_period"
    and overdue: "\<And>m. ls + ?D \<le> tick_at start scan_period m \<longleftrightarrow> k \<le> m"
    by (rule first_tick [OF scan_period_pos _ times(2), of i]) (use tracker(2) times(1) in auto)
  have later: "reports j = reports i + (if k < j then 1 else 0)" if j: "i < j" "j \<le> ?n" for j
  proof -
    let ?post = "take (j - Suc i) post"
    obtain m where m: "j = Suc (i + m)" using less_imp_Suc_add [OF j(1)] by blast
    have parts: "take j rounds = pre @ rd # ?post" "take i rounds = pre"
      unfolding m rounds(1) rounds(2) [symmetric] by simp_all
    have quick': "\<forall>rd\<in>set (pre @ rd # ?post). sr_took rd \<le> scan_period"
      using quick rounds(1) by (auto dest: in_set_takeD)
    have "legal_scans t (round_events (scan_times start (pre @ rd # ?post)) (pre @ rd # ?post))"
      using legal_prefix [OF quick legal j(2)] by (simp only: parts(1))
    moreover have "\<forall>rd\<in>set ?post. h \<notin> snd ` set (sr_beats rd)" using rounds(5) by (auto dest: in_set_takeD)
    moreover have "length (pre @ rd # ?post) = j" using parts(1) j(2) by (metis length_take min_absorb2)
    ultimately have "reports j = reports i + (if \<exists>m<j. i \<le> m \<and> ls + ?D \<le> tick_at start scan_period m then 1 else 0)"
      using reports_from_round [OF tracker rounds(3,4) _ quick'] by (simp only: reports parts rounds(2))
    moreover have "(\<exists>m<j. i \<le> m \<and> ls + ?D \<le> tick_at start scan_period m) \<longleftrightarrow> k < j" using overdue k(1) by auto
    ultimately show ?thesis by simp
  qed
  have count: "reports j = reports i + (if k < j then 1 else 0)" if "i \<le> j \<and> j \<le> ?n" for j
    using later [of j] that k(1) by (cases "i = j") simp_all
  have at_k: "scan_times start rounds ! k = tick_at start scan_period k" using scan_times_on_time [OF quick, of start] k(2) by simp
  show ?thesis
    by (intro exI [of _ k] conjI allI impI) (use k at_k in \<open>simp_all only: at_k\<close>, erule count)
qed

text \<open>The host \<open>a\<close> is heard once, two seconds after the start, and reported by the scan at thirty seconds.\<close>

definition three_rounds :: "scan_round list" where
  "three_rounds =
     [\<lparr>sr_beats = [(2 * second, ''a'')], sr_order = [''a''], sr_took = 0\<rparr>,
      \<lparr>sr_beats = [], sr_order = [''a''], sr_took = second\<rparr>, \<lparr>sr_beats = [], sr_order = [''a''], sr_took = 0\<rparr>]"

lemma silent_host_reported_witness:
  "\<exists>k<length three_rounds. 27 * second \<le> scan_times 0 three_rounds ! k \<and> scan_times 0 three_rounds ! k < 37 * second"
proof -
  let ?t = "new_host_tracker (20 * second) (25 * second) True"
  have legal: "legal_scans ?t (round_events (scan_times 0 three_rounds) three_rounds)"
    by (simp add: three_rounds_def scan_times_def ticker_receives_def next_tick_def scan_period_def second_def
        new_host_tracker_def ranges_def heartbeat_def scan_def time_sub_def max_duration_def min_duration_def)
  have p: "ht_on_down ?t" "0 < ht_down_after ?t" "ht_down_after ?t \<le> max_duration" "''a'' \<noteq> []"
    "three_rounds = [] @ three_rounds ! 0 # tl three_rounds" "length ([] :: scan_round list) = 0"
    "sr_beats (three_rounds ! 0) = [] @ (2 * second, ''a'') # []" "''a'' \<notin> snd ` set ([] :: (gotime \<times> string) list)"
    "\<forall>rd\<in>set (tl three_rounds). ''a'' \<notin> snd ` set (sr_beats rd)" "0 + int 0 * scan_period \<le> 2 * second"
    "2 * second + ht_down_after ?t \<le> 0 + int (length three_rounds) * scan_period"
    "\<forall>rd\<in>set three_rounds. sr_took rd \<le> scan_period"
    by (simp_all add: three_rounds_def new_host_tracker_def scan_period_def second_def max_duration_def)
  have "2 * second + ht_down_after ?t = 27 * second" "27 * second + scan_period = 37 * second"
    by (simp_all add: new_host_tracker_def scan_period_def second_def)
  with silent_host_reported [OF p legal refl] show ?thesis by (simp only:) blast
qed

end
