(* ===== verification/Evaluator_Clock.thy ===== *)
theory Evaluator_Clock
  imports Alerting Go_Ticker
begin

text \<open>
  \<open>Evaluator.Run\<close>: the evaluations on their thirty-second ticker until the context is cancelled, and how
  soon a threshold that is passed is notified.
\<close>

section \<open>The ticker of the evaluator\<close>

definition eval_period :: duration where
  "eval_period = 30 * second"

text \<open>\<open>tooks\<close> are the times the evaluations take; each reads the clock when it starts.\<close>

definition evaluator_run ::
  "('db, 'e) querier \<Rightarrow> nat \<Rightarrow> gotime \<Rightarrow> duration list \<Rightarrow> 'n evaluator \<times> 'db \<Rightarrow>
     ('n evaluator \<times> 'db) \<times> string obs list" where
  "evaluator_run q i start tooks s = run_steps (evaluator_step q i) s (ticker_receives start eval_period tooks)"

section \<open>A rule whose threshold is passed\<close>

text \<open>The rule \<open>r\<close> is evaluated for the host \<open>h\<close>, and finds a mean that fires, at the time \<open>now\<close>.\<close>

definition rule_covers :: "('db, 'e) querier \<Rightarrow> rule \<Rightarrow> string \<Rightarrow> bool" where
  "rule_covers q r h \<longleftrightarrow> (\<forall>db. h \<in> set (fst (hosts_for q r db)))"

definition breached :: "('db, 'e) querier \<Rightarrow> rule \<Rightarrow> string \<Rightarrow> gotime \<Rightarrow> bool" where
  "breached q r h now \<longleftrightarrow>
     (\<forall>db. \<exists>points db'. qr_query q (alert_params now r h) db = (Inr points, db') \<and> points \<noteq> [] \<and>
        is_firing r (mean_value points))"

text \<open>No other rule has the alert key of \<open>r\<close> on \<open>h\<close>.\<close>

definition own_key :: "rule list \<Rightarrow> rule \<Rightarrow> string \<Rightarrow> bool" where
  "own_key rules r h \<longleftrightarrow>
     (\<forall>r'\<in>set rules. \<forall>h'. rule_key h' (ru_name r') (ru_op r') (ru_threshold r') =
        rule_key h (ru_name r) (ru_op r) (ru_threshold r) \<longrightarrow> r' = r)"

lemma rule_key_host: "rule_key h n p v = rule_key h' n p v \<Longrightarrow> h = h'"
  by (simp add: rule_key_def)

text \<open>What an evaluation, or a part of it, does to the key of a breached rule.\<close>

definition keeps_firing :: "nat \<Rightarrow> string \<Rightarrow> bool \<Rightarrow> 'n evaluator \<Rightarrow> ('n evaluator \<times> calls) \<Rightarrow> bool" where
  "keeps_firing i k hit ev res \<longleftrightarrow>
     (k \<in> told i ev \<or> hit \<longrightarrow> k \<in> told i (fst res)) \<and> Clear k \<notin> set (alert_obs i (snd res)) \<and>
     ev_notifiers (fst res) = ev_notifiers ev \<and> ev_rules (fst res) = ev_rules ev"

lemma keeps_firing_refl: "keeps_firing i k False ev (ev, [])"
  by (simp add: keeps_firing_def)

lemma keeps_firing_trans:
  "keeps_firing i k hit ev (ev1, cs1) \<Longrightarrow> keeps_firing i k hit' ev1 (ev2, cs2) \<Longrightarrow>
     keeps_firing i k (hit \<or> hit') ev (ev2, cs1 @ cs2)"
  by (auto simp: keeps_firing_def)

lemma eval_host_keeps:
  assumes "breached q r h now" "own_key rules r h" "k = rule_key h (ru_name r) (ru_op r) (ru_threshold r)"
    and "r' \<in> set rules" "i < length (ev_notifiers ev)"
  shows "keeps_firing i k (r' = r \<and> h' = h) ev (fst (eval_host q now r' h' ev db))"
proof (cases "rule_key h' (ru_name r') (ru_op r') (ru_threshold r') = k")
  case True
  then have same: "r' = r" "h' = h" using assms(2,3,4) by (auto simp: own_key_def dest: rule_key_host)
  obtain points db' where p: "qr_query q (alert_params now r h) db = (Inr points, db')" "points \<noteq> []"
    "is_firing r (mean_value points)" using assms(1) unfolding breached_def by blast
  obtain ev' cs where m: "record_mean now r h (mean_value points) ev = (ev', cs)" by fastforce
  show ?thesis
    using record_mean_told [OF assms(5) assms(3) m] p(3) by (simp add: same eval_host_def p(1,2) m keeps_firing_def)
next
  case False
  then have miss: "\<not> (r' = r \<and> h' = h)" using assms(3) by auto
  have "keeps_firing i k False ev (record_mean now r' h' m ev)" for m
  proof -
    obtain ev' cs where m: "record_mean now r' h' m ev = (ev', cs)" by fastforce
    show ?thesis using record_mean_told [OF assms(5) refl m] False by (auto simp: m keeps_firing_def)
  qed
  then show ?thesis using miss keeps_firing_refl [of i k ev]
    by (auto simp: eval_host_def split: prod.split sum.split)
qed

lemma eval_hosts_keeps:
  assumes "breached q r h now" "own_key rules r h" "k = rule_key h (ru_name r) (ru_op r) (ru_threshold r)" "r' \<in> set rules"
  shows "i < length (ev_notifiers ev) \<Longrightarrow>
    keeps_firing i k (r' = r \<and> h \<in> set hs) ev (fst (eval_hosts q now r' hs ev db))"
proof (induction hs arbitrary: ev db)
  case (Cons h' hs)
  obtain ev1 cs1 db1 where 1: "eval_host q now r' h' ev db = ((ev1, cs1), db1)" by (metis surj_pair)
  obtain ev2 cs2 db2 where 2: "eval_hosts q now r' hs ev1 db1 = ((ev2, cs2), db2)" by (metis surj_pair)
  have a: "keeps_firing i k (r' = r \<and> h' = h) ev (ev1, cs1)"
    using eval_host_keeps [OF assms Cons.prems, of h' db] 1 by simp
  then have "i < length (ev_notifiers ev1)" using Cons.prems by (simp add: keeps_firing_def)
  then have "keeps_firing i k (r' = r \<and> h \<in> set hs) ev1 (ev2, cs2)" using Cons.IH [of ev1 db1] 2 by simp
  from keeps_firing_trans [OF a this] show ?case by (rule back_subst) (auto simp: 1 2 keeps_firing_def)
qed (simp add: keeps_firing_refl)

lemma eval_rules_keeps:
  assumes "breached q r h now" "own_key rules r h" "k = rule_key h (ru_name r) (ru_op r) (ru_threshold r)" "rule_covers q r h"
  shows "set rs \<subseteq> set rules \<Longrightarrow> i < length (ev_notifiers ev) \<Longrightarrow>
    keeps_firing i k (r \<in> set rs) ev (fst (eval_rules q now rs ev db))"
proof (induction rs arbitrary: ev db)
  case (Cons r' rs)
  obtain hosts db0 where 0: "hosts_for q r' db = (hosts, db0)" by (metis surj_pair)
  obtain ev1 cs1 db1 where 1: "eval_hosts q now r' hosts ev db0 = ((ev1, cs1), db1)" by (metis surj_pair)
  obtain ev2 cs2 db2 where 2: "eval_rules q now rs ev1 db1 = ((ev2, cs2), db2)" by (metis surj_pair)
  have "r' \<in> set rules" using Cons.prems(1) by simp
  note a = eval_hosts_keeps [OF assms(1-3) this Cons.prems(2), of hosts db0, unfolded 1 fst_conv]
  have "i < length (ev_notifiers ev1)" using a Cons.prems(2) by (simp add: keeps_firing_def)
  then have b: "keeps_firing i k (r \<in> set rs) ev1 (ev2, cs2)" using Cons.IH [of ev1 db1] Cons.prems(1) 2 by simp
  have "r' = r \<Longrightarrow> h \<in> set hosts" using assms(4) 0 unfolding rule_covers_def by (metis fst_conv)
  then have "(r' = r \<and> h \<in> set hosts \<or> r \<in> set rs) = (r \<in> set (r' # rs))" by auto
  with keeps_firing_trans [OF a b] show ?case by (simp add: 0 1 2)
qed (simp add: keeps_firing_refl)

text \<open>A run of evaluations that all see the breach.\<close>

lemma run_keeps_firing:
  assumes "own_key (ev_rules (fst s)) r h" "k = rule_key h (ru_name r) (ru_op r) (ru_threshold r)" "rule_covers q r h"
    "r \<in> set (ev_rules (fst s))" "i < length (ev_notifiers (fst s))" "\<forall>now\<in>set nows. breached q r h now"
  shows "(k \<in> told i (fst s) \<or> nows \<noteq> [] \<longrightarrow> k \<in> told i (fst (fst (run_steps (evaluator_step q i) s nows)))) \<and>
    Clear k \<notin> set (snd (run_steps (evaluator_step q i) s nows))"
  using assms
proof (induction nows arbitrary: s)
  case (Cons now nows)
  obtain ev' cs db' where e: "evaluate q now (fst s) (snd s) = ((ev', cs), db')" by (metis surj_pair)
  have step: "evaluator_step q i s now = ((ev', db'), alert_obs i cs)" by (simp add: evaluator_step_def e)
  have "keeps_firing i k True (fst s) (ev', cs)"
    using eval_rules_keeps [OF _ Cons.prems(1-3), of now "ev_rules (fst s)" i "fst s" "snd s"] Cons.prems(4-6) e
    by (simp add: evaluate_def)
  then have ev': "k \<in> told i ev'" "Clear k \<notin> set (alert_obs i cs)" "ev_notifiers ev' = ev_notifiers (fst s)" "ev_rules ev' = ev_rules (fst s)"
    by (auto simp: keeps_firing_def)
  with Cons.IH [of "(ev', db')"] Cons.prems show ?case by (simp add: step case_prod_unfold Let_def)
qed simp

lemma new_run:
  assumes "fst s = new_evaluator rules notifiers"
  shows "ev_rules (fst (fst (run_steps (evaluator_step q i) s nows))) = rules"
    and "ev_notifiers (fst (fst (run_steps (evaluator_step q i) s nows))) = notifiers"
proof -
  have "alerts_ok (fst s)" by (simp add: assms alerts_ok_def new_evaluator_def)
  from run_alerts_ok [OF this] show
    "ev_rules (fst (fst (run_steps (evaluator_step q i) s nows))) = rules"
    "ev_notifiers (fst (fst (run_steps (evaluator_step q i) s nows))) = notifiers"
    by (auto simp: same_config_def assms new_evaluator_def)
qed

lemma told_iff: "i < length (ev_notifiers ev) \<Longrightarrow> k \<in> told i ev \<longleftrightarrow> map_option al_state (ev_state ev k) = Some StateFiring"
  by (auto simp: told_def)

lemma eval_period_pos: "0 < eval_period"
  by (simp add: eval_period_def second_def)

text \<open>
  C17. A threshold that is passed is notified in time and once: when from some time on the window of a rule
  averages over its threshold for a host, the first evaluation after that time, less than thirty seconds
  later, leaves the alert firing, with one \<open>firing\<close> notification if it was not firing before, and no
  later evaluation notifies again.  Evaluations end within the period (their context ends after 20
  seconds), and no other rule has the same key.
\<close>

theorem breach_notified:
  assumes rule: "own_key rules r h" "k = rule_key h (ru_name r) (ru_op r) (ru_threshold r)" "rule_covers q r h"
      "r \<in> set rules" "i < length notifiers"
    and times: "start < since" "since \<le> start + int (length tooks) * eval_period" "\<forall>d\<in>set tooks. d \<le> eval_period"
    and breach: "\<forall>now\<ge>since. breached q r h now"
    and runs: "runs = (\<lambda>j. evaluator_run q i start (take j tooks) (new_evaluator rules notifiers, db))"
    and firing: "firing = (\<lambda>j. map_option al_state (ev_state (fst (fst (runs j))) k) = Some StateFiring)"
  shows "\<exists>m<length tooks. since \<le> ticker_receives start eval_period tooks ! m \<and>
    ticker_receives start eval_period tooks ! m < since + eval_period \<and>
    (\<forall>j. m < j \<and> j \<le> length tooks \<longrightarrow>
       firing j \<and> count_list (snd (runs j)) (Raise k) = count_list (snd (runs m)) (Raise k) + (if firing m then 0 else 1))"
proof -
  let ?T = "tick_at start eval_period" and ?s = "(new_evaluator rules notifiers, db)"
  obtain m where m: "m < length tooks" "since \<le> ?T m" "?T m < since + eval_period" and after: "\<And>n. since \<le> ?T n \<longleftrightarrow> m \<le> n"
    by (rule first_tick [OF eval_period_pos _ times(2), of 0]) (use times(1) in auto)
  note on_time = receives_on_time [OF eval_period_pos times(3), of start]
  have run: "runs j = run_steps (evaluator_step q i) ?s (map ?T [0..<j])" if "j \<le> length tooks" for j
    using that by (simp add: runs evaluator_run_def receives_take [OF eval_period_pos times(3)] on_time take_map)
  have told: "firing j \<longleftrightarrow> k \<in> told i (fst (fst (runs j)))" if "j \<le> length tooks" for j
  proof -
    have "i < length (ev_notifiers (fst (fst (runs j))))"
      using new_run(2) [where s = ?s and q = q and rules = rules and notifiers = notifiers] rule(5) by (simp add: run [OF that])
    then show ?thesis by (simp only: firing told_iff)
  qed
  have later: "firing j \<and> count_list (snd (runs j)) (Raise k) = count_list (snd (runs m)) (Raise k) + (if firing m then 0 else 1)"
    if j: "m < j" "j \<le> length tooks" for j
  proof -
    let ?sm = "fst (runs m)" and ?nows = "map ?T [m..<j]"
    have mj: "runs j = (let (s', os) = runs m; (s'', os') = run_steps (evaluator_step q i) s' ?nows in (s'', os @ os'))"
      using run [of m] run [OF j(2)] m(1) j(1) upt_add_eq_append [of 0 m "j - m"]
        run_steps_append [of "evaluator_step q i" ?s "map ?T [0..<m]" ?nows] by simp
    have cfg: "ev_rules (fst ?sm) = rules" "ev_notifiers (fst ?sm) = notifiers"
      using new_run [where s = ?s and q = q and rules = rules and notifiers = notifiers] run [of m] m(1) by simp_all
    have "\<forall>now\<in>set ?nows. breached q r h now" using breach after by auto
    from run_keeps_firing [of ?sm r h k q i, unfolded cfg, OF rule this] j(1)
    have kept: "k \<in> told i (fst (fst (run_steps (evaluator_step q i) ?sm ?nows)))"
      "Clear k \<notin> set (snd (run_steps (evaluator_step q i) ?sm ?nows))" by auto
    from replay_count [OF alert_alarms.run_replay kept(2)] kept(1)
    have "count_list (snd (run_steps (evaluator_step q i) ?sm ?nows)) (Raise k) = (if firing m then 0 else 1)"
      using told [of m] m(1) by simp
    with kept(1) show ?thesis using told [OF j(2)] by (simp add: mj case_prod_unfold Let_def)
  qed
  have "ticker_receives start eval_period tooks ! m = ?T m" using m(1) by (simp add: on_time)
  with m later show ?thesis by (intro exI [of _ m]) auto
qed

lemma breach_notified_witness:
  "\<exists>m<3. 45 * second \<le> ticker_receives 0 eval_period [0, second, 0] ! m \<and>
     ticker_receives 0 eval_period [0, second, 0] ! m < 75 * second \<and>
     map_option al_state (ev_state (fst (fst (evaluator_run window_querier 0 0 [0, second, 0]
       (new_evaluator [cpu_rule minute] [()], ())))) (rule_key ''web'' ''cpu.usage_pct'' ''>'' (Fin 90))) = Some StateFiring"
proof -
  let ?r = "cpu_rule minute"
  have firing: "is_firing ?r (mean_value [\<lparr>qp_time = 0, qp_value = Fin 95\<rparr>])"
    by (simp add: mean_windows is_firing_def cpu_rule_def)
  have p: "own_key [?r] ?r ''web''"
    "rule_key ''web'' ''cpu.usage_pct'' ''>'' (Fin 90) = rule_key ''web'' (ru_name ?r) (ru_op ?r) (ru_threshold ?r)"
    "rule_covers window_querier ?r ''web''" "?r \<in> set [?r]" "0 < length [()]"
    by (simp_all add: own_key_def rule_covers_def hosts_for_def cpu_rule_def)
  have times: "0 < 45 * second" "45 * second \<le> 0 + int (length [0, second, 0]) * eval_period"
    "\<forall>d\<in>set [0, second, 0]. d \<le> eval_period" "45 * second + eval_period = 75 * second"
    by (simp_all add: second_def eval_period_def)
  have breach: "\<forall>now\<ge>45 * second. breached window_querier ?r ''web'' now"
    using steady_windows(1) firing by (auto simp: steady_def breached_def cpu_rule_def)
  let ?firing = "\<lambda>j. map_option al_state (ev_state (fst (fst (evaluator_run window_querier 0 0 (take j [0, second, 0])
    (new_evaluator [?r] [()], ())))) (rule_key ''web'' ''cpu.usage_pct'' ''>'' (Fin 90))) = Some StateFiring"
  obtain m where m: "m < length [0, second, 0]" "45 * second \<le> ticker_receives 0 eval_period [0, second, 0] ! m"
    "ticker_receives 0 eval_period [0, second, 0] ! m < 45 * second + eval_period"
    "\<forall>j. m < j \<and> j \<le> length [0, second, 0] \<longrightarrow> ?firing j"
    using breach_notified [OF p times(1-3) breach refl refl, of "()"] by blast
  have "?firing 3" using m(1) m(4) [rule_format, of 3] by simp
  then show ?thesis using m(1-3) by (intro exI [of _ m]) (simp add: times(4))
qed

end
