(* ===== verification/Tailer_Run.thy ===== *)
theory Tailer_Run
  imports Tailer
begin

text \<open>
  \<open>Tailer.Run\<close>, the event loop of \<open>internal/agent/logtail/tailer.go\<close>, over what its \<open>select\<close> receives, and
  what fsnotify delivers to it.
\<close>

section \<open>The loop\<close>

text \<open>
  What one turn of the \<open>select\<close> receives.  An event comes with the file system as its handler sees it and
  with what happens to the batches it sends.
\<close>

datatype ('h, 'e) tailer_input =
    FsEvent "('h, 'e) fs_view" fs_event "nat \<Rightarrow> log_batch \<Rightarrow> 'e err" "nat \<Rightarrow> bool"
  | WatcherError 'e
  | EventsClosed
  | ErrorsClosed
  | ContextDone

text \<open>
  \<open>drops ev\<close> are the watches fsnotify removes by itself when it delivers \<open>ev\<close>.  The result is the batches
  handed to \<open>SendLogs\<close>, the state, and whether the loop has returned.
\<close>

fun tailer_loop ::
  "(fs_event \<Rightarrow> string set) \<Rightarrow> ('h, 'e) tailer_input list \<Rightarrow> 'h tailer \<Rightarrow> log_batch list \<times> 'h tailer \<times> bool" where
  "tailer_loop drops [] t = ([], t, False)"
| "tailer_loop drops (inp # inps) t =
     (case inp of
        ContextDone \<Rightarrow> ([], t, True)
      | EventsClosed \<Rightarrow> ([], t, True)
      | ErrorsClosed \<Rightarrow> ([], t, True)
      | WatcherError e \<Rightarrow> tailer_loop drops inps t
      | FsEvent fs ev deliver cancelled \<Rightarrow>
        let (es, t1) = handle_event fs ev (t\<lparr>tl_watched := tl_watched t - drops ev\<rparr>);
            (bs, t2, returned) = tailer_loop drops inps t1
        in (send_chunked (tl_host t) deliver cancelled es @ bs, t2, returned))"

text \<open>\<open>Run\<close>, with the handles the deferred \<open>closeAll\<close> closes when it returns.\<close>

definition tailer_run ::
  "(fs_event \<Rightarrow> string set) \<Rightarrow> string list \<Rightarrow> ('h, 'e) tailer_input list \<Rightarrow> 'h tailer \<Rightarrow> log_batch list \<times> 'h list option" where
  "tailer_run drops order inps t =
     (if length (tl_paths t) = 0
      then ([], if list_ex (\<lambda>inp. case inp of ContextDone \<Rightarrow> True | _ \<Rightarrow> False) inps then Some (close_all order t) else None)
      else let (bs, t', returned) = tailer_loop drops inps t
           in (bs, if returned then Some (close_all order t') else None))"

lemma tailer_loop_append:
  "tailer_loop drops (xs @ ys) t =
     (let (bs, t1, returned) = tailer_loop drops xs t
      in if returned then (bs, t1, True)
         else let (bs', t2, returned') = tailer_loop drops ys t1 in (bs @ bs', t2, returned'))"
proof (induction xs arbitrary: t)
  case (Cons inp xs)
  then show ?case by (cases inp) (simp_all add: case_prod_unfold Let_def)
qed simp

section \<open>What fsnotify delivers\<close>

text \<open>With the paths of \<open>LOG_PATHS\<close> being files, every event names a path that is watched.\<close>

fun delivered :: "(fs_event \<Rightarrow> string set) \<Rightarrow> ('h, 'e) tailer_input list \<Rightarrow> 'h tailer \<Rightarrow> bool" where
  "delivered drops [] t \<longleftrightarrow> True"
| "delivered drops (inp # inps) t \<longleftrightarrow>
     (case inp of
        FsEvent fs ev deliver cancelled \<Rightarrow>
          fe_name ev \<in> tl_watched t \<and>
          delivered drops inps (snd (handle_event fs ev (t\<lparr>tl_watched := tl_watched t - drops ev\<rparr>)))
      | _ \<Rightarrow> delivered drops inps t)"

lemma read_new_lines_watched: "tl_watched (snd (read_new_lines fs path t)) = tl_watched t"
  by (simp add: read_new_lines_def read_handle_def set_offset_def Let_def split: option.split sum.split)

lemma open_and_seek_watched: "tl_watched (snd (open_and_seek_eof fs path t)) = tl_watched t"
  by (simp add: open_and_seek_eof_def set_offset_def split: sum.split)

lemma handle_event_watched:
  "tl_watched (snd (handle_event fs ev t)) \<subseteq> insert (fe_name ev) (tl_watched t)"
proof -
  let ?t = "close_path (fe_name ev) t"
  have c: "tl_watched ?t = tl_watched t" by (simp add: close_path_def)
  obtain e t1 where o: "open_and_seek_eof fs (fe_name ev) ?t = (e, t1)" by fastforce
  then have "tl_watched t1 = tl_watched t" using open_and_seek_watched [of fs "fe_name ev" ?t] c by simp
  then show ?thesis
    using c o read_new_lines_watched [of fs "fe_name ev" t]
    by (auto simp: handle_event_def Let_def set_offset_def add_watch_def split: option.splits if_splits)
qed

text \<open>Outside a write the watch set only grows where \<open>Create\<close> was delivered.\<close>

lemma rename_watched:
  "has_op ev OpRename \<Longrightarrow> \<not> has_op ev OpWrite \<Longrightarrow>
     tl_watched (snd (handle_event fs ev t)) = tl_watched t \<and> fst (handle_event fs ev t) = []"
  by (simp add: handle_event_def close_path_def set_offset_def Let_def)

lemma handled_paths:
  assumes "handle_event fs ev t = (es, t')" "b \<in> set (send_chunked host deliver cancelled es)" "e \<in> set (lb_entries b)"
  shows "e_path e = fe_name ev"
proof -
  have "e \<in> set es" using send_chunked_sizes [OF assms(2)] assms(3) by blast
  then show ?thesis
    using handle_event_entries [OF assms(1)] by (auto simp: line_entries_def line_entry_def Let_def)
qed

text \<open>A path that is not watched stays so, and nothing of it is sent.\<close>

lemma unwatched_silent:
  "delivered drops inps t \<Longrightarrow> p \<notin> tl_watched t \<Longrightarrow> b \<in> set (fst (tailer_loop drops inps t)) \<Longrightarrow> e \<in> set (lb_entries b) \<Longrightarrow>
     e_path e \<noteq> p"
proof (induction inps arbitrary: t)
  case (Cons inp inps)
  show ?case
  proof (cases inp)
    case (FsEvent fs ev deliver cancelled)
    let ?t = "t\<lparr>tl_watched := tl_watched t - drops ev\<rparr>"
    obtain es t1 where h: "handle_event fs ev ?t = (es, t1)" by fastforce
    have "p \<notin> tl_watched t1" "fe_name ev \<noteq> p"
      using handle_event_watched [of fs ev ?t] Cons.prems(1,2) by (auto simp: FsEvent h)
    then show ?thesis
      using Cons.IH [of t1] Cons.prems(1,3,4) handled_paths [OF h _ Cons.prems(4)]
      by (auto simp: FsEvent h case_prod_unfold Let_def)
  qed (use Cons in auto)
qed simp

lemma delivered_append:
  "delivered drops (xs @ ys) t \<Longrightarrow> delivered drops xs t \<and>
     (\<not> snd (snd (tailer_loop drops xs t)) \<longrightarrow> delivered drops ys (fst (snd (tailer_loop drops xs t))))"
proof (induction xs arbitrary: t)
  case (Cons inp xs)
  then show ?case by (cases inp) (simp_all add: case_prod_unfold Let_def)
qed simp

text \<open>
  C18. The tailer follows the files it opened, not their names: fsnotify removes the watch of a file that is
  renamed, and the handler waits for a \<open>Create\<close> event that fsnotify delivers for watched directories only.
  Once a followed file is renamed, as a log rotation does, no batch after that has a line of its path,
  whatever is written to the new file.
\<close>

theorem rotated_file_lost:
  assumes fsnotify: "delivered drops (xs @ FsEvent fs ev deliver cancelled # ys) t" "\<forall>ev. has_op ev OpRename \<longrightarrow> fe_name ev \<in> drops ev"
    and rename: "fe_name ev = p" "has_op ev OpRename" "\<not> has_op ev OpWrite"
    and before: "tailer_loop drops xs t = (bs, t1, False)"
    and after: "tailer_loop drops (xs @ FsEvent fs ev deliver cancelled # ys) t = (bs @ bs', t2, returned)"
  shows "\<forall>b\<in>set bs'. \<forall>e\<in>set (lb_entries b). e_path e \<noteq> p"
proof -
  let ?t = "t1\<lparr>tl_watched := tl_watched t1 - drops ev\<rparr>"
  obtain es t' where h: "handle_event fs ev ?t = (es, t')" by fastforce
  have d: "delivered drops ys t'"
    using delivered_append [OF fsnotify(1)] before h by simp
  have "es = []" "tl_watched t' = tl_watched t1 - drops ev" using rename_watched [OF rename(2,3), of fs ?t] h by simp_all
  then have "p \<notin> tl_watched t'" "bs' = fst (tailer_loop drops ys t')"
    using fsnotify(2) rename(1,2) after before h
    by (auto simp: tailer_loop_append send_chunked_def case_prod_unfold Let_def)
  with unwatched_silent [OF d] show ?thesis by blast
qed

text \<open>Two files are followed; the first is renamed, then the second is written to.\<close>

definition rename_drops :: "fs_event \<Rightarrow> string set" where
  "rename_drops ev = (if has_op ev OpRename \<or> has_op ev OpRemove then {fe_name ev} else {})"

definition rename_then_write :: "(unit, string) tailer_input list" where
  "rename_then_write =
     [FsEvent (file_view []) \<lparr>fe_name = ''/l'', fe_ops = [OpRename]\<rparr> (\<lambda>n b. None) (\<lambda>n. False),
      FsEvent (file_view (''y'' @ [newline_byte])) (write_event ''/m'') (\<lambda>n b. None) (\<lambda>n. False)]"

lemma rotated_file_lost_witness:
  "''/l'' \<notin> set (map e_path (concat (map lb_entries
     (fst (tailer_loop rename_drops rename_then_write (demo_tailer\<lparr>tl_watched := {''/l'', ''/m''}\<rparr>))))))"
proof -
  let ?t = "demo_tailer\<lparr>tl_watched := {''/l'', ''/m''}\<rparr>"
  let ?ev = "\<lparr>fe_name = ''/l'', fe_ops = [OpRename]\<rparr>"
  obtain bs t2 returned where after: "tailer_loop rename_drops rename_then_write ?t = (bs, t2, returned)"
    by (cases "tailer_loop rename_drops rename_then_write ?t")
  have "delivered rename_drops rename_then_write ?t"
    by (simp add: rename_then_write_def rename_drops_def has_op_def write_event_def handle_event_def close_path_def
        set_offset_def demo_tailer_def Let_def)
  moreover have "\<forall>ev. has_op ev OpRename \<longrightarrow> fe_name ev \<in> rename_drops ev" by (simp add: rename_drops_def)
  ultimately have "\<forall>b\<in>set bs. \<forall>e\<in>set (lb_entries b). e_path e \<noteq> ''/l''"
    using rotated_file_lost [of rename_drops "[]" "file_view []" ?ev "\<lambda>n b. None" "\<lambda>n. False" "tl rename_then_write" ?t
        "''/l''" "[]" ?t bs t2 returned] after
    by (simp add: rename_then_write_def has_op_def)
  then have "''/l'' \<notin> set (map e_path (concat (map lb_entries bs)))" by (force simp del: concat_map_singleton)
  then show ?thesis by (simp only: after fst_conv not_False_eq_True)
qed

end
