(* ===== verification/Spec2Isabelle.thy ===== *)
theory Spec2Isabelle
  imports Example_Run Demo_Run Log_Pipeline Tracker_Clock Evaluator_Clock Tailer_Run
begin

text \<open>
  MiniObserv: a monitoring agent and its server, written in Go.

  The agent (\<open>cmd/agent\<close>) collects metrics in ticks, hands batches over a bounded channel to a sender
  that posts them with retries, and follows log files whose lines it posts in chunks.  The server
  (\<open>cmd/server\<close>) checks a token, validates and stores both kinds of batches in PostgreSQL, keeps a
  heartbeat per host, evaluates alert rules, calls webhooks and serves queries, a dashboard and a
  Prometheus endpoint.  Under \<open>example\<close> are a client that mints its own tokens and a demo application
  with a load generator.

  \<^bold>\<open>Conventions.\<close>  A Go string is a list of bytes, an \<open>error\<close> alone an option, a result with an error a
  sum, a nil pointer \<open>None\<close>.  Times and durations are integers in nanoseconds, cut to 64 bits where Go
  does (\<open>time_sub\<close>, \<open>parse_duration\<close>); counters are 64-bit words; \<open>float64\<close> is the type \<open>f64\<close> of
  \<open>Go_Float\<close>.  The order in which a Go map is visited is an argument, with \<open>ranges\<close> as its law; the
  clock, the network, the database, the file system and the other libraries are arguments or records of
  functions.  A process with a clock and several goroutines is a sequence of its operations, in any
  order its locks or channels allow.

  \<^bold>\<open>The library.\<close>  \<open>Prelude\<close>: results, loops that stop at the first error, byte strings as the package
  \<open>strings\<close> treats them.  \<open>Go_Float\<close>: binary64 with exact rounding.  \<open>Go_Std\<close>: durations and decimal
  integers.  \<open>Go_Time\<close>: RFC 3339 in any zone and the calendar.  \<open>Go_Fmt\<close>: the verbs g and d.  \<open>Go_Url\<close>:
  query strings.  \<open>Go_Mux\<close>: the patterns of \<open>http.ServeMux\<close>.  \<open>Sha256\<close>: SHA-256 and HMAC.
  \<open>Json_Strings\<close>, \<open>Go_Json\<close>: \<open>encoding/json\<close>, from UTF-8 and the escapes of strings to the trees a text
  parses to, the encoders and the decoders of the field types the program uses; the locale
  \<open>string_escaper\<close> is shared by JSON and by \<open>log/slog\<close>, whose JSON lines are in \<open>Go_Slog\<close>.
  \<open>Simulation\<close>: the locale \<open>simulation\<close>, forward simulation for sequences of operations.
  \<open>Alarm_Traces\<close>: the locale \<open>edge_trigger\<close>, alarms that are raised on transitions only.  \<open>Go_Ticker\<close>:
  when a loop under a \<open>time.Ticker\<close> runs its body.

  \<^bold>\<open>The components\<close>, by theory:

  \<^item> \<open>Model\<close> (\<open>internal/model\<close>): metrics, log entries, their batches and validations; the locale
    \<open>checked\<close> is the contract of a validation.  \<open>Model_Json\<close>: the batches on the wire, both ways, and
    what arrives of a batch (\<open>wire_metric_batch\<close>).

  \<^item> \<open>Level_Parser\<close>, \<open>Tailer\<close> (\<open>internal/agent/logtail\<close>): the regular expressions of the level parser as
    syntax trees with a backtracking matcher; the tailer's offsets, handles, line cutting and chunks
    over a view of the file system.  \<open>Tailer_Run\<close>: its event loop and what fsnotify delivers to it.

  \<^item> \<open>Send_Loop\<close> (\<open>internal/agent/sender\<close>, \<open>logtail/sender.go\<close>): both senders; the endless loop is a
    \<open>partial_function\<close>, and the locale \<open>retry_loop\<close> says when it returns and with what.

  \<^item> \<open>Collectors\<close> (\<open>internal/agent/collector\<close>): the registry and the four collectors; the locale
    \<open>metric_source\<close> is the contract of a collector.

  \<^item> \<open>Agent_Loop\<close> (\<open>internal/agent/agent.go\<close>): the two goroutines as a step relation; the locale
    \<open>bounded_queue\<close> is the contract of the channel.

  \<^item> \<open>Host_Tracker\<close>, \<open>Metric_Store\<close>, \<open>Log_Store\<close> (\<open>internal/server/storage\<close>): the heartbeat tracker; the
    statements, arguments and result loops of the repositories over a pool of any database.
    \<open>Tracker_Clock\<close>: the scans of the tracker on its ticker.

  \<^item> \<open>Alert_Rules\<close>, \<open>Alerting\<close>, \<open>Webhooks\<close> (\<open>internal/server/alerting\<close>): the configuration of the rules,
    the evaluator, the webhooks with their JSON.  \<open>Evaluator_Clock\<close>: the evaluations on their ticker.

  \<^item> \<open>Api\<close>, \<open>Dashboard\<close>, \<open>Prometheus\<close>, \<open>Router\<close> (\<open>internal/server/api\<close>, \<open>dashboard\<close>): the handlers, the
    token check and the table of routes; \<open>serve\<close> is one request to the server, whose response carries
    its payload, and \<open>Api_Json\<close> the bytes of each payload (\<open>response_text\<close>).

  \<^item> \<open>Config\<close>, \<open>Commands\<close>, \<open>Server_Lifecycle\<close> (\<open>internal/config\<close>, \<open>cmd/agent\<close>, \<open>cmd/server\<close>,
    \<open>internal/server/server.go\<close>): the programs from the environment to the parts they start, with the
    failures that stop them, and the shutdown of the server as a step relation.

  \<^item> \<open>Stub_Server\<close> (\<open>cmd/stubserver\<close>), \<open>Demo_App\<close> (\<open>example/06-demo-app\<close>), \<open>Example_Client\<close>
    (\<open>example/04-go-http-client\<close>).

  \<^item> \<open>Wire\<close>: requests of the clients as the router receives them.  \<open>Log_Pipeline\<close>: from the appended
    lines to the rows of the database.  \<open>Example_Run\<close>: the example client against the server.
    \<open>Demo_Run\<close>: the load generator, the demo application and the log lines the agent ships of it.  This
    theory: the metrics of the agent in the database, and the configurations that lose them.

  \<^bold>\<open>What is shown.\<close>  From the readings of the system to the rows of the database a batch comes through
  (\<open>collected_batch_ingested\<close>), and what makes every batch get lost instead (the theorems of the second
  section).  Each component has the behaviour of its operations on every branch, errors included, the
  invariants of its state over any run, and, where it has one, its specification: the channel is
  bounded and first in first out, keyset pagination returns the selected rows exactly once, the
  tracker and the evaluator report a transition once and in time, the task store implements a history,
  what the server encodes its clients decode, the wait of the load generator and the retry loops
  return exactly when something decides them.  Where the code does something else than its
  documentation says or its authors can have meant, the theorem states what the code does.

  \<^bold>\<open>Bounds and fuel.\<close>  The only fuel is in \<open>walk_pages\<close> of \<open>Log_Store\<close>, the client's walk through the
  pages; \<open>log_pages_complete\<close> shows how much is enough.  Every other loop terminates by its recursion or
  is a \<open>partial_function\<close> whose return is characterised.

  \<^bold>\<open>Not modelled.\<close>  The texts of decoding errors, \<open>net/url\<close> parsing of configured URLs, percent escapes
  in paths, the HTML template, PostgreSQL (a pool of any behaviour), pgx, chi, golang-jwt,
  golang-migrate, gopsutil and fsnotify (parameters with the documented laws where a theorem needs
  one), the zone of a process (a function from times to offsets), signed zeros, the log lines other
  than those of the demo application, and \<open>tools.go\<close>.  Of the agent's ticker only the ticks it delivers
  are in the model, and the test helpers of the sources are left out.
\<close>

section \<open>From the agent to the database\<close>

text \<open>
  C1. What the agent collects in a tick reaches the database: with a token minted less than a day ago
  under the server's secret, a batch of 1 to 1000 metrics collected from sane readings becomes a JSON
  body that the server decodes, validates and answers with 202, its host has a heartbeat, and \<open>Send\<close>
  reports success.  The rows are the batch with its strings as UTF-8 (\<open>wire_metric_batch\<close>); it is assumed
  that the database takes them.
\<close>

theorem collected_batch_ingested:
  assumes start: "agent_main getenv w = Inr p"
    and token: "jwt_contract (aw_sign w) (se_jwt (rt_env rt))" "ac_token (ap_config p) \<noteq> []"
      "rt_secret rt = ac_token (ap_config p)" "se_now (rt_env rt) < (aw_expires_from w + 24 * hour) div second * second"
    and url: "url_text (ac_server_url (ap_config p)) = base_url scheme a []" "CHR '':'' \<notin> set scheme" "plain_authority a"
    and chi: "static_routing (rt_chi rt)"
    and readings: "sane_readings (ac_host (ap_config p)) (ac_disk_mounts (ap_config p)) rd" "typed_readings rd"
      "agent_collect p rd ns = ((ms, errs), ns')" "ms \<noteq> []" "length ms \<le> 1000"
    and batch: "batch = \<lparr>mb_host = ac_host (ap_config p), mb_metrics = ms\<rparr>"
    and db: "insert_metrics (se_pool (rt_env rt)) marshal_labels (wire_metric_batch batch) (st_db s) = ((length ms, None), db')"
  shows "\<exists>body. marshal_metric_batch batch = Inr body \<and>
    serve rt (received (post_request (ap_sender p) body)) s =
      (json_response 202 (Ingested (length ms)),
       s\<lparr>st_db := db', st_tracker := heartbeat (se_now (rt_env rt)) (to_valid (ac_host (ap_config p))) (st_tracker s)\<rparr>) \<and>
    (in_touch senv rt s (ap_sender p) body \<longrightarrow> send (ap_sender p) senv batch = Some None)"
proof -
  have valid: "metric_batch_validate batch = None"
    using registry_source.batch_accepted [OF readings(1), of "ac_net_ifaces (ap_config p)" ns] readings(3)
    by (simp add: registry_collect_def agent_collect_def batch)
  have typed: "\<forall>m\<in>set ms. is_f64 (m_value m) \<and> four_digit_year (m_time m)"
    by (intro ballI collected_typed [OF readings(2), where host = "ac_host (ap_config p)" and
        mounts = "ac_disk_mounts (ap_config p)" and ifaces = "ac_net_ifaces (ap_config p)" and ns = ns])
      (use readings(3) in \<open>simp add: agent_collect_def\<close>)
  obtain body where body: "marshal_metric_batch batch = Inr body"
    using marshal_metric_batch_total [of batch] valid typed by (auto simp: batch metric_batch_validate_None)
  let ?r = "received (post_request (ap_sender p) body)"
  note post = agent_post [OF start url, of body]
  have auth: "jwt_authorized (rt_env rt) (rt_secret rt) ?r"
    using agent_post_authorized [OF start token(1-3)] token(4) by simp
  have "decode_metric_batch body = Some (wire_metric_batch batch)"
    using marshal_metric_batch_reads [OF _ body] typed by (simp add: batch)
  then have acc: "metrics_accepted (rt_env rt) (hr_body ?r) (st_db s) (wire_metric_batch batch) db'"
    using readings(4,5) db post metric_batch_validate_wire [OF valid]
    by (simp add: metrics_accepted_def) (simp add: wire_metric_batch_def batch)
  have v: "serve rt ?r s = (json_response 202 (Ingested (length ms)),
       s\<lparr>st_db := db', st_tracker := heartbeat (se_now (rt_env rt)) (to_valid (ac_host (ap_config p))) (st_tracker s)\<rparr>)"
    using serve_ingest [OF chi _ _ auth] handle_ingest_accepts [OF acc] post by (simp add: wire_metric_batch_def batch)
  moreover from v have "answer rt s (post_request (ap_sender p) body) = 202" by (simp add: answer_def json_response_def)
  ultimately show ?thesis using body send_accepted [OF _ body] by blast
qed

section \<open>Ways to lose every batch\<close>


text \<open>
  C11. With a slash at the end of \<open>SERVER_URL\<close> the agent starts, but posts to a path with two slashes,
  which no route has: every batch is answered 404 and given up as a permanent error.
\<close>

theorem trailing_slash_discards:
  assumes start: "agent_main getenv w = Inr p"
    and url: "url_text (ac_server_url (ap_config p)) = base_url scheme a ''/''" "CHR '':'' \<notin> set scheme" "plain_authority a"
    and chi: "static_routing (rt_chi rt)"
    and sending: "in_touch senv rt s (ap_sender p) body" "marshal_metric_batch batch = Inr body"
  shows "send (ap_sender p) senv batch = Some (Some (PermanentError (ServerRejected 404)))"
proof -
  let ?r = "received (post_request (ap_sender p) body)"
  have "hr_method ?r = ''POST'' \<and> hr_path ?r = ''//api/v1/metrics''"
    using agent_main_program [OF start] url_path_base(1) [OF url(2,3), of "''/api/v1/metrics''"]
    by (simp add: received_post url(1) base_url_append)
  moreover have "''//api/v1/metrics'' \<notin> snd ` set (route_keys dash)" for dash
    by (cases dash) (simp_all add: route_keys_def dash_keys_def)
  ultimately have "rs_status (fst (serve rt ?r s)) = 404"
    using serve_unknown_path [OF chi, of ?r] by (simp add: http_methods_def proper_request_def)
  then have "answer rt s (post_request (ap_sender p) body) = 404" by (simp add: answer_def)
  with send_rejected [OF sending] show ?thesis by simp
qed

text \<open>
  C12. An \<open>AGENT_HOST\<close> of blanks is taken by the agent as it is, and the server refuses every batch under
  that name: 400, nothing stored, and \<open>Send\<close> gives up.
\<close>

theorem blank_host_discards:
  assumes start: "agent_main getenv w = Inr p" "getenv ''AGENT_HOST'' \<noteq> []" "trim_space (getenv ''AGENT_HOST'') = []"
    and token: "jwt_contract (aw_sign w) (se_jwt (rt_env rt))" "ac_token (ap_config p) \<noteq> []"
      "rt_secret rt = ac_token (ap_config p)" "se_now (rt_env rt) < (aw_expires_from w + 24 * hour) div second * second"
    and url: "url_text (ac_server_url (ap_config p)) = base_url scheme a []" "CHR '':'' \<notin> set scheme" "plain_authority a"
    and chi: "static_routing (rt_chi rt)"
    and batch: "mb_host batch = ac_host (ap_config p)" "\<forall>m\<in>set (mb_metrics batch). is_f64 (m_value m)"
      "marshal_metric_batch batch = Inr body"
    and sending: "in_touch senv rt s (ap_sender p) body"
  shows "snd (serve rt (received (post_request (ap_sender p) body)) s) = s \<and>
    send (ap_sender p) senv batch = Some (Some (PermanentError (ServerRejected 400)))"
proof -
  let ?r = "received (post_request (ap_sender p) body)"
  note post = agent_post [OF start(1) url, of body]
  have "load_agent getenv (aw_hostname w) (aw_url_parse w) = Inr (ap_config p)"
    using agent_main_program [OF start(1)] by blast
  then have "trim_space (ac_host (ap_config p)) = []"
    using start(2,3) load_agent_host by fastforce
  then have "rs_status (fst (handle_ingest (rt_env rt) ?r s)) = 400 \<and> snd (handle_ingest (rt_env rt) ?r s) = s"
    using marshal_metric_batch_reads [OF batch(2,3)] batch(1) post blank_to_valid [of "mb_host batch"]
    by (simp add: handle_ingest_def metric_batch_validate_def wire_metric_batch_def write_error_def json_response_def)
  moreover have "serve rt ?r s = handle_ingest (rt_env rt) ?r s"
    using serve_ingest [OF chi] agent_post_authorized [OF start(1) token(1-3)] token(4) post by simp
  ultimately have "snd (serve rt ?r s) = s" "answer rt s (post_request (ap_sender p) body) = 400"
    by (simp_all add: answer_def)
  with send_rejected [OF sending batch(3)] show ?thesis by simp
qed

section \<open>Witnesses\<close>

lemma collected_batch_ingested_witness:
  "\<exists>p. agent_main demo_env demo_agent = Inr p \<and>
     send (ap_sender p) (demo_link (demo_server hour) \<lparr>st_db = 0, st_tracker = None\<rparr>)
       \<lparr>mb_host = ''web'', mb_metrics = cpu_metrics\<rparr> = Some None"
proof -
  let ?b = "\<lparr>mb_host = ''web'', mb_metrics = cpu_metrics\<rparr>"
  obtain p where p: "agent_main demo_env demo_agent = Inr p" "ac_token (ap_config p) = ''0123456789abcdef''"
    "url_text (ac_server_url (ap_config p)) = ''http://srv:8080''" "ac_host (ap_config p) = ''web''"
    "ac_disk_mounts (ap_config p) = []" "ac_net_ifaces (ap_config p) = []"
    using demo_agent_starts [of demo_env] by (auto simp: demo_env_def)
  obtain errs ns' where c: "agent_collect p cpu_readings new_net_state = ((cpu_metrics, errs), ns')"
    using cpu_readings_collected [of new_net_state] by (auto simp: agent_collect_def p(4-6))
  have ins: "insert_metrics (se_pool (rt_env (demo_server hour))) marshal_labels (wire_metric_batch ?b) 0 = ((length cpu_metrics, None), 2)"
    by (simp add: demo_server_def demo_router_def demo_server_env_def counting_pool_def insert_metrics_def wire_metric_batch_def
        cpu_metrics_def cpu_metric_def exec_batch_def marshal_labels_def Let_def)
  have "\<exists>body. marshal_metric_batch ?b = Inr body \<and>
     send (ap_sender p) (demo_link (demo_server hour) \<lparr>st_db = 0, st_tracker = None\<rparr>) ?b = Some None"
    using collected_batch_ingested [OF p(1), where rt = "demo_server hour" and scheme = "''http''" and
        a = "''srv:8080''" and rd = cpu_readings and ns = new_net_state and ms = cpu_metrics and errs = errs and
        ns' = ns' and batch = ?b and s = "\<lparr>st_db = 0, st_tracker = None\<rparr>" and
        db' = 2 and senv = "demo_link (demo_server hour) \<lparr>st_db = 0, st_tracker = None\<rparr>"]
      demo_contract demo_url cpu_readings_sane cpu_readings_typed c ins demo_in_touch p(2-6)
    by (auto simp: demo_agent_def cpu_metrics_def hour_def second_def)
  with p(1) show ?thesis by auto
qed


lemma trailing_slash_discards_witness:
  "\<exists>p. agent_main slash_env demo_agent = Inr p \<and>
     send (ap_sender p) (demo_link (demo_server 0) \<lparr>st_db = 3, st_tracker = None\<rparr>)
       \<lparr>mb_host = ''web'', mb_metrics = cpu_metrics\<rparr> = Some (Some (PermanentError (ServerRejected 404)))"
proof -
  obtain p where p: "agent_main slash_env demo_agent = Inr p"
    "url_text (ac_server_url (ap_config p)) = ''http://srv:8080/''"
    using demo_agent_starts [of slash_env] by (auto simp: slash_env_def demo_env_def)
  then have "url_text (ac_server_url (ap_config p)) = base_url ''http'' ''srv:8080'' ''/''" by (simp add: base_url_def)
  note this demo_url(2,3)
  moreover obtain body where "marshal_metric_batch \<lparr>mb_host = ''web'', mb_metrics = cpu_metrics\<rparr> = Inr body"
    by (rule cpu_batch_body)
  ultimately show ?thesis
    using trailing_slash_discards [OF p(1) _ _ _ _ demo_in_touch, where rt = "demo_server 0" and s = "\<lparr>st_db = 3, st_tracker = None\<rparr>"]
      p(1) by fastforce
qed

lemma blank_host_discards_witness:
  "\<exists>p. agent_main blank_env demo_agent = Inr p \<and>
     send (ap_sender p) (demo_link (demo_server hour) \<lparr>st_db = 3, st_tracker = None\<rparr>)
       \<lparr>mb_host = '' '', mb_metrics = cpu_metrics\<rparr> = Some (Some (PermanentError (ServerRejected 400)))"
proof -
  obtain p where p: "agent_main blank_env demo_agent = Inr p" "ac_token (ap_config p) = ''0123456789abcdef''"
    "url_text (ac_server_url (ap_config p)) = ''http://srv:8080''" "ac_host (ap_config p) = '' ''"
    using demo_agent_starts [of blank_env] by (auto simp: blank_env_def demo_env_def)
  have blank: "blank_env ''AGENT_HOST'' \<noteq> []" "trim_space (blank_env ''AGENT_HOST'') = []"
    unfolding blank_env_def by code_simp+
  obtain body where b: "marshal_metric_batch \<lparr>mb_host = '' '', mb_metrics = cpu_metrics\<rparr> = Inr body"
    by (rule cpu_batch_body)
  have "jwt_contract (aw_sign demo_agent) (se_jwt (rt_env (demo_server hour)))" "aw_expires_from demo_agent = 0"
    using demo_contract by (simp_all add: demo_agent_def)
  with blank_host_discards [OF p(1) blank, where rt = "demo_server hour" and scheme = "''http''" and
      a = "''srv:8080''" and batch = "\<lparr>mb_host = '' '', mb_metrics = cpu_metrics\<rparr>" and body = body and
      s = "\<lparr>st_db = 3, st_tracker = None\<rparr>" and
      senv = "demo_link (demo_server hour) \<lparr>st_db = 3, st_tracker = None\<rparr>"] p demo_url demo_in_touch b cpu_metrics_typed
  show ?thesis by (simp add: hour_def second_def)
qed

end
